(* ===== verification/Prelude.thy ===== *)
theory Prelude
  imports Main "HOL-Library.Word" "HOL-Library.Char_ord" "HOL-Library.List_Lexorder"
    "HOL-Library.Product_Lexorder"
begin

text \<open>
  Shared vocabulary of the development: the error codes of the engine, the
  result type in which every throwing function is modelled, the machine
  integer types, and generic lemmas on results, sorted lists and binary
  search that the component theories use.
\<close>

section \<open>Collections of facts\<close>

named_theorems result_simps \<open>equations that run the result monad\<close>
named_theorems codec_simps \<open>a reader applied to what the matching writer produced\<close>
named_theorems inv_intros \<open>preservation of component invariants\<close>

section \<open>Machine integers and bytes\<close>

type_synonym byte = "8 word"
type_synonym bytes = "byte list"
type_synonym u32 = "32 word"
type_synonym u64 = "64 word"
type_synonym i64 = "64 word"

text \<open>
  A 64-bit signed integer is the word with the same bits; \<open>sint\<close> reads its
  value. \<open>view\<close> is the byte view of a \<open>std::string\<close>, \<open>unview\<close> the string
  that has these bytes.
\<close>

abbreviation INT64_MAX :: i64 where
  "INT64_MAX \<equiv> 0x7FFFFFFFFFFFFFFF"

abbreviation UINT64_MAX :: u64 where
  "UINT64_MAX \<equiv> 0xFFFFFFFFFFFFFFFF"

abbreviation UINT32_MAX :: u32 where
  "UINT32_MAX \<equiv> 0xFFFFFFFF"

definition view :: "string \<Rightarrow> bytes" where
  "view s = map (\<lambda>c. word_of_nat (of_char c)) s"

definition unview :: "bytes \<Rightarrow> string" where
  "unview bs = map (\<lambda>b. char_of (unat b)) bs"

section \<open>Errors and results\<close>

text \<open>
  \<open>ErrorCode\<close> of core.hpp. A thrown \<open>Error\<close> is \<open>Inl\<close> of its code; the
  message text is not modelled.
\<close>

datatype ErrorCode =
    E_schema
  | E_type
  | E_unsupported
  | E_conflict
  | E_state
  | E_format
  | E_io
  | E_constraint
  | E_cancelled
  | E_resource

type_synonym 'a result = "ErrorCode + 'a"

definition bindE :: "'a result \<Rightarrow> ('a \<Rightarrow> 'b result) \<Rightarrow> 'b result" where
  "bindE m f = (case m of Inl e \<Rightarrow> Inl e | Inr x \<Rightarrow> f x)"

definition ensure :: "bool \<Rightarrow> ErrorCode \<Rightarrow> unit result" where
  "ensure b e = (if b then Inr () else Inl e)"

text \<open>Loops over a container whose body may throw: the first error wins.\<close>

fun mapE :: "('a \<Rightarrow> 'b result) \<Rightarrow> 'a list \<Rightarrow> 'b list result" where
  "mapE f [] = Inr []"
| "mapE f (x # xs) = bindE (f x) (\<lambda>y. bindE (mapE f xs) (\<lambda>ys. Inr (y # ys)))"

fun foldE :: "('a \<Rightarrow> 's \<Rightarrow> 's result) \<Rightarrow> 'a list \<Rightarrow> 's \<Rightarrow> 's result" where
  "foldE f [] s = Inr s"
| "foldE f (x # xs) s = bindE (f x s) (\<lambda>s'. foldE f xs s')"

definition forE :: "('a \<Rightarrow> unit result) \<Rightarrow> 'a list \<Rightarrow> unit result" where
  "forE f xs = foldE (\<lambda>x _. f x) xs ()"

definition is_ok :: "'a result \<Rightarrow> bool" where
  "is_ok m = (case m of Inl _ \<Rightarrow> False | Inr _ \<Rightarrow> True)"

section \<open>Binary search\<close>

text \<open>
  \<open>std::lower_bound\<close> on a sequence: the number of leading elements that are
  less than the key. On a sequence partitioned by the comparison, as every
  caller has it, this is the position the binary search returns.
\<close>

definition lower_bound :: "('a \<Rightarrow> bool) \<Rightarrow> 'a list \<Rightarrow> nat" where
  "lower_bound lt xs = length (takeWhile lt xs)"

section \<open>Facts on bytes and strings\<close>

lemma unview_view [simp]: "unview (view s) = s"
proof -
  have "char_of (unat (word_of_nat (of_char c) :: byte)) = c" for c
  proof -
    have "(of_char c :: nat) < 256"
      using range_nat_of_char by (metis atLeastLessThan_iff rangeI)
    then have "unat (word_of_nat (of_char c) :: byte) = of_char c"
      by (simp add: unat_of_nat)
    then show ?thesis by simp
  qed
  then show ?thesis by (simp add: view_def unview_def comp_def)
qed

lemma view_unview [simp]: "view (unview bs) = bs"
proof -
  have "word_of_nat (of_char (char_of (unat b) :: char)) = b" for b :: byte
  proof -
    have "unat b < 256" using unsigned_less [of b] by simp
    then show ?thesis by simp
  qed
  then show ?thesis by (simp add: view_def unview_def comp_def)
qed

lemma length_view [simp]: "length (view s) = length s"
  by (simp add: view_def)

lemma length_unview [simp]: "length (unview bs) = length bs"
  by (simp add: unview_def)

lemma view_eq_iff [simp]: "view s = view t \<longleftrightarrow> s = t"
  by (metis unview_view)

lemma view_eq_Nil [simp]: "view s = [] \<longleftrightarrow> s = []"
  by (simp add: view_def)

section \<open>Facts on results\<close>

lemma bindE_simps [simp, result_simps]:
  "bindE (Inl e) f = Inl e"
  "bindE (Inr x) f = f x"
  by (simp_all add: bindE_def)

lemma bindE_Inr_iff [result_simps]:
  "bindE m f = Inr y \<longleftrightarrow> (\<exists>x. m = Inr x \<and> f x = Inr y)"
  by (cases m) simp_all

lemma bindE_Inl_iff:
  "bindE m f = Inl e \<longleftrightarrow> m = Inl e \<or> (\<exists>x. m = Inr x \<and> f x = Inl e)"
  by (cases m) simp_all

lemma bindE_assoc: "bindE (bindE m f) g = bindE m (\<lambda>x. bindE (f x) g)"
  by (cases m) simp_all

lemma bindE_cong [fundef_cong]:
  assumes "m = m'" and "\<And>x. m' = Inr x \<Longrightarrow> f x = f' x"
  shows "bindE m f = bindE m' f'"
  using assms by (cases m') simp_all

lemma ensure_simps [simp, result_simps]:
  "ensure True e = Inr ()"
  "ensure False e = Inl e"
  by (simp_all add: ensure_def)

lemma ensure_Inr_iff [result_simps]: "ensure b e = Inr u \<longleftrightarrow> b"
  by (simp add: ensure_def)

lemma ensure_Inl_iff: "ensure b e = Inl e' \<longleftrightarrow> \<not> b \<and> e' = e"
  by (auto simp: ensure_def)

lemma is_ok_simps [simp]: "is_ok (Inr x)" "\<not> is_ok (Inl e)"
  by (simp_all add: is_ok_def)

lemma is_ok_iff: "is_ok m \<longleftrightarrow> (\<exists>x. m = Inr x)"
  by (cases m) simp_all

lemma foldE_append: "foldE f (xs @ ys) s = bindE (foldE f xs s) (foldE f ys)"
proof (induction xs arbitrary: s)
  case (Cons x xs)
  then show ?case by (cases "f x s") simp_all
qed simp

lemma foldE_invariant:
  assumes "foldE f xs s = Inr t" and "P s"
    and "\<And>x s s'. x \<in> set xs \<Longrightarrow> P s \<Longrightarrow> f x s = Inr s' \<Longrightarrow> P s'"
  shows "P t"
  using assms
proof (induction xs arbitrary: s)
  case Nil
  then show ?case by simp
next
  case (Cons x xs)
  then obtain s' where s': "f x s = Inr s'" "foldE f xs s' = Inr t"
    by (auto simp: bindE_Inr_iff)
  have "P s'"
    using Cons.prems(3) [of x s s'] Cons.prems(2) s'(1) by simp
  moreover have "P s''" if "y \<in> set xs" "P u" "f y u = Inr s''" for y u s''
    using Cons.prems(3) [of y u s''] that by simp
  ultimately show ?case
    using Cons.IH [OF s'(2)] by blast
qed

lemma foldE_cong [fundef_cong]:
  "xs = ys \<Longrightarrow> s = t \<Longrightarrow> (\<And>x u. x \<in> set ys \<Longrightarrow> f x u = g x u) \<Longrightarrow> foldE f xs s = foldE g ys t"
  by (induction ys arbitrary: xs s t) (auto simp: bindE_def split: sum.splits)

lemma forE_simps [simp]:
  "forE f [] = Inr ()"
  "forE f (x # xs) = bindE (f x) (\<lambda>_. forE f xs)"
  by (simp_all add: forE_def)

lemma forE_Inr_iff [result_simps]: "forE f xs = Inr u \<longleftrightarrow> (\<forall>x \<in> set xs. f x = Inr ())"
  by (induction xs) (auto simp: bindE_Inr_iff)

lemma mapE_cong [fundef_cong]:
  "xs = ys \<Longrightarrow> (\<And>x. x \<in> set ys \<Longrightarrow> f x = g x) \<Longrightarrow> mapE f xs = mapE g ys"
  by (induction ys arbitrary: xs) auto

lemma mapE_append:
  "mapE f (xs @ ys) = bindE (mapE f xs) (\<lambda>a. bindE (mapE f ys) (\<lambda>b. Inr (a @ b)))"
proof (induction xs)
  case Nil
  then show ?case by (cases "mapE f ys") simp_all
next
  case (Cons x xs)
  then show ?case by (cases "f x"; cases "mapE f xs"; cases "mapE f ys") simp_all
qed

lemma mapE_Inr_length: "mapE f xs = Inr ys \<Longrightarrow> length ys = length xs"
  by (induction xs arbitrary: ys) (auto simp: bindE_Inr_iff)

lemma mapE_Inr_map: "(\<And>x. x \<in> set xs \<Longrightarrow> f x = Inr (g x)) \<Longrightarrow> mapE f xs = Inr (map g xs)"
  by (induction xs) auto

section \<open>Facts on binary search\<close>

lemma lower_bound_le: "lower_bound lt xs \<le> length xs"
  by (simp add: lower_bound_def length_takeWhile_le)

lemma lower_bound_Cons:
  "lower_bound lt (x # xs) = (if lt x then Suc (lower_bound lt xs) else 0)"
  by (simp add: lower_bound_def)

lemma lower_bound_Nil [simp]: "lower_bound lt [] = 0"
  by (simp add: lower_bound_def)

lemma lower_bound_before:
  "i < lower_bound lt xs \<Longrightarrow> lt (xs ! i)"
  using nth_mem [of i "takeWhile lt xs"]
  by (auto simp: lower_bound_def takeWhile_nth dest: set_takeWhileD)

lemma lower_bound_at:
  "lower_bound lt xs < length xs \<Longrightarrow> \<not> lt (xs ! lower_bound lt xs)"
  by (simp add: lower_bound_def nth_length_takeWhile)

end
