(* ===== verification/Encoding.thy ===== *)
theory Encoding
  imports Prelude
begin

text \<open>
  Little-endian primitives of include/coresql/encoding.hpp. A \<open>Reader\<close> is
  modelled by the bytes it has not consumed yet: \<open>take\<close> splits off a prefix
  or fails with the format error, and \<open>remaining\<close> is the length.
\<close>

unbundle bit_operations_syntax

section \<open>Writers and the reader\<close>

definition le_bytes :: "nat \<Rightarrow> 'a::len word \<Rightarrow> bytes" where
  "le_bytes n v = map (\<lambda>i. ucast (drop_bit (8 * i) v AND 255)) [0..<n]"

definition enc_u64 :: "u64 \<Rightarrow> bytes" where
  "enc_u64 v = le_bytes 8 v"

definition enc_u32 :: "u32 \<Rightarrow> bytes" where
  "enc_u32 v = le_bytes 4 v"

type_synonym Reader = bytes

definition remaining :: "Reader \<Rightarrow> nat" where
  "remaining r = length r"

definition reader_take :: "nat \<Rightarrow> Reader \<Rightarrow> (bytes \<times> Reader) result" where
  "reader_take n r = (if remaining r < n then Inl E_format else Inr (take n r, drop n r))"

definition le_word :: "bytes \<Rightarrow> 'a::len word" where
  "le_word d = foldl (\<lambda>v i. v OR push_bit (8 * i) (ucast (d ! i))) 0 [0..<length d]"

definition reader_u64 :: "Reader \<Rightarrow> (u64 \<times> Reader) result" where
  "reader_u64 r = bindE (reader_take 8 r) (\<lambda>(d, r'). Inr (le_word d, r'))"

definition reader_u32 :: "Reader \<Rightarrow> (u32 \<times> Reader) result" where
  "reader_u32 r = bindE (reader_take 4 r) (\<lambda>(d, r'). Inr (le_word d, r'))"

definition reader_end :: "Reader \<Rightarrow> unit result" where
  "reader_end r = ensure (remaining r = 0) E_format"

section \<open>Bytes of a word\<close>

lemma length_le_bytes [simp]: "length (le_bytes n v) = n"
  by (simp add: le_bytes_def)

lemma length_enc_u64 [simp]: "length (enc_u64 v) = 8"
  by (simp add: enc_u64_def)

lemma length_enc_u32 [simp]: "length (enc_u32 v) = 4"
  by (simp add: enc_u32_def)

lemma bit_255: "bit (255 :: 'a::len word) j \<longleftrightarrow> j < 8 \<and> j < LENGTH('a)"
proof -
  have "(255 :: 'a word) = mask 8" by (simp add: mask_eq_exp_minus_1)
  then have "bit (255 :: 'a word) j \<longleftrightarrow> bit (mask 8 :: 'a word) j" by (rule arg_cong)
  also have "\<dots> \<longleftrightarrow> j < 8 \<and> j < LENGTH('a)"
    by (simp only: bit_mask_iff possible_bit_word) blast
  finally show ?thesis .
qed

lemma bit_le_bytes:
  fixes v :: "'a::len word"
  assumes "i < n" and "j < 8"
  shows "bit (le_bytes n v ! i) j \<longleftrightarrow> bit v (8 * i + j)"
proof -
  have "j < LENGTH('a)" if "bit v (8 * i + j)"
    using bit_imp_le_length [OF that] by simp
  moreover have "bit (le_bytes n v ! i) j \<longleftrightarrow>
      bit (ucast (drop_bit (8 * i) v AND 255) :: byte) j"
    using assms by (simp add: le_bytes_def)
  moreover have "\<dots> \<longleftrightarrow> j < LENGTH(8) \<and> bit v (8 * i + j) \<and> j < 8 \<and> j < LENGTH('a)"
    by (simp only: bit_ucast_iff bit_and_iff bit_drop_bit_eq bit_255 comp_def possible_bit_word)
  ultimately show ?thesis
    using assms by auto
qed

lemma foldl_le_bit:
  fixes d :: bytes
  assumes "m < LENGTH('a::len)"
  shows "bit (foldl (\<lambda>v i. v OR push_bit (8 * i) (ucast (d ! i))) (0 :: 'a word) [0..<k]) m
    \<longleftrightarrow> m < 8 * k \<and> bit (d ! (m div 8)) (m mod 8)"
proof (induction k)
  case 0
  then show ?case by simp
next
  case (Suc k)
  have *: "bit (push_bit (8 * k) (ucast (d ! k) :: 'a word)) m \<longleftrightarrow>
      8 * k \<le> m \<and> bit (d ! k) (m - 8 * k)"
    using assms by (auto simp: bit_simps)
  have **: "8 * k \<le> m \<and> bit (d ! k) (m - 8 * k) \<longleftrightarrow>
      8 * k \<le> m \<and> m < 8 * Suc k \<and> bit (d ! (m div 8)) (m mod 8)"
  proof (cases "8 * k \<le> m \<and> m < 8 * Suc k")
    case True
    then have "m div 8 = k" and "m mod 8 = m - 8 * k"
      by (auto simp: div_nat_eqI modulo_nat_def)
    with True show ?thesis by simp
  next
    case False
    then show ?thesis by (auto dest: bit_imp_le_length)
  qed
  show ?case
    using Suc * ** by (auto simp: bit_or_iff)
qed

lemma le_word_le_bytes:
  fixes v :: "'a::len word"
  assumes "8 * n = LENGTH('a)"
  shows "le_word (le_bytes n v) = v"
proof (rule bit_word_eqI)
  fix m
  assume m: "m < LENGTH('a)"
  then have "m div 8 < n" using assms by auto
  then have "bit (le_bytes n v ! (m div 8)) (m mod 8) \<longleftrightarrow> bit v m"
    by (subst bit_le_bytes) auto
  then show "bit (le_word (le_bytes n v) :: 'a word) m \<longleftrightarrow> bit v m"
    using m assms by (simp add: le_word_def foldl_le_bit)
qed

lemma le_bytes_le_word:
  assumes "8 * length d = LENGTH('a::len)"
  shows "le_bytes (length d) (le_word d :: 'a word) = d"
proof (rule nth_equalityI)
  show "length (le_bytes (length d) (le_word d :: 'a word)) = length d" by simp
next
  fix i
  assume "i < length (le_bytes (length d) (le_word d :: 'a word))"
  then have i: "i < length d" by simp
  show "le_bytes (length d) (le_word d :: 'a word) ! i = d ! i"
  proof (rule bit_word_eqI)
    fix j
    assume "j < LENGTH(8)"
    then have j: "j < 8" by simp
    then have lt: "8 * i + j < 8 * length d" using i by linarith
    have "bit (le_word d :: 'a word) (8 * i + j) \<longleftrightarrow> bit (d ! i) j"
      using lt j assms by (simp add: le_word_def foldl_le_bit)
    then show "bit (le_bytes (length d) (le_word d :: 'a word) ! i) j \<longleftrightarrow> bit (d ! i) j"
      using i j by (simp add: bit_le_bytes)
  qed
qed

section \<open>The reader inverts the writers\<close>

lemma reader_take_append [simp, codec_simps]:
  "length bs = n \<Longrightarrow> reader_take n (bs @ r) = Inr (bs, r)"
  by (simp add: reader_take_def remaining_def)

lemma reader_take_Inr:
  "reader_take n r = Inr (d, r') \<longleftrightarrow> r = d @ r' \<and> length d = n"
  by (auto simp: reader_take_def remaining_def)

lemma reader_u64_enc [simp, codec_simps]: "reader_u64 (enc_u64 v @ r) = Inr (v, r)"
proof -
  have "le_word (le_bytes 8 v) = v" by (rule le_word_le_bytes) simp
  then show ?thesis by (simp add: reader_u64_def enc_u64_def)
qed

lemma reader_u32_enc [simp, codec_simps]: "reader_u32 (enc_u32 v @ r) = Inr (v, r)"
proof -
  have "le_word (le_bytes 4 v) = v" by (rule le_word_le_bytes) simp
  then show ?thesis by (simp add: reader_u32_def enc_u32_def)
qed

lemma reader_u64_Inr: "reader_u64 bs = Inr (v, r) \<longleftrightarrow> bs = enc_u64 v @ r"
proof
  assume "reader_u64 bs = Inr (v, r)"
  then obtain d where d: "bs = d @ r" "length d = 8" "v = le_word d"
    by (auto simp: reader_u64_def bindE_Inr_iff reader_take_Inr)
  have "le_bytes (length d) (le_word d :: u64) = d"
    by (rule le_bytes_le_word) (simp add: d)
  then show "bs = enc_u64 v @ r" by (simp add: d enc_u64_def)
qed simp

lemma enc_u64_inject [simp]: "enc_u64 a = enc_u64 b \<longleftrightarrow> a = b"
  by (metis append_Nil2 reader_u64_enc sum.inject(2) prod.inject)

lemma enc_u64_append_inject [simp]:
  "enc_u64 a @ x = enc_u64 b @ y \<longleftrightarrow> a = b \<and> x = y"
  by (simp add: append_eq_append_conv)

lemma reader_end_Nil [simp]: "reader_end [] = Inr ()"
  by (simp add: reader_end_def remaining_def)

lemma remaining_append [simp]: "remaining (a @ b) = remaining a + remaining b"
  by (simp add: remaining_def)

lemma remaining_enc_u64 [simp]: "remaining (enc_u64 v) = 8"
  by (simp add: remaining_def)

end
