(* ===== verification/Values.thy ===== *)
theory Values
  imports Encoding
begin

text \<open>
  Types, cell values, type add-ons and the extension registry:
  include/coresql/core.hpp, src/registry.cpp and addons/scalars/type.cpp.

  A \<open>double\<close> is its 64-bit IEEE pattern; the comparison operators the engine
  applies to doubles are defined on the pattern. Extension callbacks are
  fields of the add-on records, as in the source; \<open>std::hash\<close> is a parameter.
  Reading the wrong alternative of a value (\<open>std::get\<close>) cannot happen behind
  the layout checks; the total HOL functions return a default there.
\<close>

unbundle bit_operations_syntax

section \<open>Types and values\<close>

record Type =
  type_id :: string
  type_version :: u32
  type_parameters :: bytes

definition integer_type :: Type where
  "integer_type = \<lparr>type_id = ''core.integer'', type_version = 1, type_parameters = []\<rparr>"

definition real_type :: Type where
  "real_type = \<lparr>type_id = ''core.real'', type_version = 1, type_parameters = []\<rparr>"

definition text_type :: Type where
  "text_type = \<lparr>type_id = ''core.text'', type_version = 1, type_parameters = []\<rparr>"

datatype Value =
    VInt i64
  | VReal u64
  | VText string
  | Opaque Type bytes
  | Null Type
  | Compact Type bytes

definition is_null :: "Value \<Rightarrow> bool" where
  "is_null v = (case v of Null _ \<Rightarrow> True | _ \<Rightarrow> False)"

fun type_of :: "Value \<Rightarrow> Type" where
  "type_of (VInt _) = integer_type"
| "type_of (VReal _) = real_type"
| "type_of (VText _) = text_type"
| "type_of (Null t) = t"
| "type_of (Compact t _) = t"
| "type_of (Opaque t _) = t"

definition default_identity :: "string \<Rightarrow> bool" where
  "default_identity i \<longleftrightarrow>
     i = type_id integer_type \<or> i = type_id real_type \<or> i = type_id text_type"

definition reject_default_identity :: "Type \<Rightarrow> unit result" where
  "reject_default_identity t = ensure (\<not> default_identity (type_id t)) E_type"

definition compact_i64 :: "Type \<Rightarrow> i64 \<Rightarrow> Value result" where
  "compact_i64 t payload =
     bindE (reject_default_identity t) (\<lambda>_. Inr (Compact t (enc_u64 payload)))"

definition compact_i128 :: "Type \<Rightarrow> bytes \<Rightarrow> Value result" where
  "compact_i128 t payload = bindE (reject_default_identity t) (\<lambda>_. Inr (Compact t payload))"

definition i64_payload :: "Value \<Rightarrow> i64 result" where
  "i64_payload v =
     (case v of
        VInt i \<Rightarrow> Inr i
      | Compact t bs \<Rightarrow> if length bs \<noteq> 8 then Inl E_type else Inr (le_word bs)
      | _ \<Rightarrow> Inl E_type)"

definition i128_payload :: "Value \<Rightarrow> bytes result" where
  "i128_payload v =
     (case v of
        Compact t bs \<Rightarrow> if length bs \<noteq> 16 then Inl E_type else Inr bs
      | _ \<Rightarrow> Inl E_type)"

section \<open>IEEE comparisons on bit patterns\<close>

definition f64_magnitude :: "u64 \<Rightarrow> u64" where
  "f64_magnitude w = w AND 0x7FFFFFFFFFFFFFFF"

definition f64_isfinite :: "u64 \<Rightarrow> bool" where
  "f64_isfinite w \<longleftrightarrow> f64_magnitude w < 0x7FF0000000000000"

definition f64_isnan :: "u64 \<Rightarrow> bool" where
  "f64_isnan w \<longleftrightarrow> 0x7FF0000000000000 < f64_magnitude w"

definition f64_key :: "u64 \<Rightarrow> int" where
  "f64_key w = (if bit w 63 then - uint (f64_magnitude w) else uint (f64_magnitude w))"

definition f64_eq :: "u64 \<Rightarrow> u64 \<Rightarrow> bool" where
  "f64_eq x y \<longleftrightarrow> \<not> f64_isnan x \<and> \<not> f64_isnan y \<and> f64_key x = f64_key y"

definition f64_lt :: "u64 \<Rightarrow> u64 \<Rightarrow> bool" where
  "f64_lt x y \<longleftrightarrow> \<not> f64_isnan x \<and> \<not> f64_isnan y \<and> f64_key x < f64_key y"

text \<open>\<open>operator==\<close> on the variant, and the representation identity of stored_value.hpp.\<close>

definition value_eq :: "Value \<Rightarrow> Value \<Rightarrow> bool" where
  "value_eq a b =
     (case (a, b) of
        (VReal x, VReal y) \<Rightarrow> f64_eq x y
      | _ \<Rightarrow> a = b)"

definition same_stored_value :: "Value \<Rightarrow> Value \<Rightarrow> bool" where
  "same_stored_value a b =
     (case (a, b) of
        (VReal x, VReal y) \<Rightarrow> x = y
      | _ \<Rightarrow> value_eq a b)"

section \<open>Type add-ons\<close>

datatype Layout = L_i64 | L_f64 | L_text | L_bytes | L_i128

record TypeAddon =
  addon_id :: string
  addon_version :: u32
  addon_layout :: Layout
  addon_validate_type :: "bytes \<Rightarrow> unit result"
  addon_validate_value :: "bytes \<Rightarrow> Value \<Rightarrow> unit result"
  addon_equal :: "(bytes \<Rightarrow> Value \<Rightarrow> Value \<Rightarrow> bool) option"
  addon_compare :: "(bytes \<Rightarrow> Value \<Rightarrow> Value \<Rightarrow> int) option"
  addon_hash :: "(bytes \<Rightarrow> Value \<Rightarrow> u64) option"
  addon_native_ops :: bool

definition native_i64 :: "TypeAddon \<Rightarrow> bool" where
  "native_i64 a \<longleftrightarrow> addon_layout a = L_i64 \<and> addon_native_ops a"

definition native_scalar :: "TypeAddon \<Rightarrow> bool" where
  "native_scalar a \<longleftrightarrow> addon_native_ops a \<and> addon_layout a \<noteq> L_bytes"

definition three_way :: "bool \<Rightarrow> bool \<Rightarrow> int" where
  "three_way gt lt = of_bool gt - of_bool lt"

definition scalar_integer :: "(i64 \<Rightarrow> u64) \<Rightarrow> TypeAddon" where
  "scalar_integer std_hash =
     \<lparr>addon_id = type_id integer_type, addon_version = 1, addon_layout = L_i64,
      addon_validate_type = (\<lambda>p. ensure (p = []) E_type),
      addon_validate_value = (\<lambda>_ _. Inr ()),
      addon_equal = Some (\<lambda>_ a b. case (a, b) of (VInt x, VInt y) \<Rightarrow> x = y | _ \<Rightarrow> False),
      addon_compare = Some (\<lambda>_ a b. case (a, b) of
          (VInt x, VInt y) \<Rightarrow> three_way (sint y < sint x) (sint x < sint y) | _ \<Rightarrow> 0),
      addon_hash = Some (\<lambda>_ v. case v of VInt x \<Rightarrow> std_hash x | _ \<Rightarrow> 0),
      addon_native_ops = True\<rparr>"

definition scalar_real :: "(u64 \<Rightarrow> u64) \<Rightarrow> TypeAddon" where
  "scalar_real std_hash =
     \<lparr>addon_id = type_id real_type, addon_version = 1, addon_layout = L_f64,
      addon_validate_type = (\<lambda>p. ensure (p = []) E_type),
      addon_validate_value = (\<lambda>_ v. case v of
          VReal x \<Rightarrow> ensure (f64_isfinite x) E_type | _ \<Rightarrow> Inr ()),
      addon_equal = Some (\<lambda>_ a b. case (a, b) of (VReal x, VReal y) \<Rightarrow> f64_eq x y | _ \<Rightarrow> False),
      addon_compare = Some (\<lambda>_ a b. case (a, b) of
          (VReal x, VReal y) \<Rightarrow> three_way (f64_lt y x) (f64_lt x y) | _ \<Rightarrow> 0),
      addon_hash = Some (\<lambda>_ v. case v of VReal x \<Rightarrow> std_hash x | _ \<Rightarrow> 0),
      addon_native_ops = True\<rparr>"

definition scalar_text :: "(string \<Rightarrow> u64) \<Rightarrow> TypeAddon" where
  "scalar_text std_hash =
     \<lparr>addon_id = type_id text_type, addon_version = 1, addon_layout = L_text,
      addon_validate_type = (\<lambda>p. ensure (p = []) E_type),
      addon_validate_value = (\<lambda>_ _. Inr ()),
      addon_equal = Some (\<lambda>_ a b. case (a, b) of (VText x, VText y) \<Rightarrow> x = y | _ \<Rightarrow> False),
      addon_compare = Some (\<lambda>_ a b. case (a, b) of
          (VText x, VText y) \<Rightarrow> three_way (y < x) (x < y) | _ \<Rightarrow> 0),
      addon_hash = Some (\<lambda>_ v. case v of VText x \<Rightarrow> std_hash x | _ \<Rightarrow> 0),
      addon_native_ops = True\<rparr>"

section \<open>Value checks\<close>

definition holds_layout :: "TypeAddon \<Rightarrow> Type \<Rightarrow> Value \<Rightarrow> bool" where
  "holds_layout a t v =
     (case addon_layout a of
        L_i64 \<Rightarrow>
          if t = integer_type then (case v of VInt _ \<Rightarrow> True | _ \<Rightarrow> False)
          else (case v of Compact u bs \<Rightarrow> u = t \<and> length bs = 8 | _ \<Rightarrow> False)
      | L_f64 \<Rightarrow> (case v of VReal _ \<Rightarrow> True | _ \<Rightarrow> False)
      | L_text \<Rightarrow> (case v of VText _ \<Rightarrow> True | _ \<Rightarrow> False)
      | L_i128 \<Rightarrow> (case v of Compact u bs \<Rightarrow> u = t \<and> length bs = 16 | _ \<Rightarrow> False)
      | L_bytes \<Rightarrow> (case v of Opaque u bs \<Rightarrow> u = t | _ \<Rightarrow> False))"

definition check_value :: "TypeAddon \<Rightarrow> Type \<Rightarrow> Value \<Rightarrow> unit result" where
  "check_value a t v =
     (if is_null v then ensure (type_of v = t) E_type
      else if \<not> holds_layout a t v then Inl E_type
      else addon_validate_value a (type_parameters t) v)"

section \<open>The registry\<close>

record KeyExtractor =
  extractor_name :: string
  source_type :: Type
  key_type :: Type
  fn_extract :: "Value \<Rightarrow> Value list result"

text \<open>
  A function add-on: its typing rule, its call, whether it sees NULL
  arguments, and two optional specialisations, for given argument types and
  for membership in a given list of candidates.
\<close>

record Function =
  function_name :: string
  function_infer :: "Type list \<Rightarrow> Type result"
  function_invoke :: "Value list \<Rightarrow> Value result"
  function_accepts_null :: bool
  function_prepare :: "(Type list \<Rightarrow> Type \<Rightarrow> (Value list \<Rightarrow> Value result) option result) option"
  function_membership :: "(Type \<Rightarrow> Value list \<Rightarrow> (Value \<Rightarrow> bool) option result) option"

text \<open>
  The running state of an aggregate: the object behind the virtual \<open>step\<close> and
  \<open>finish\<close>. A step answers with the object's next state. An aggregate is created
  for given argument types; of the registry it is handed, it looks up types.
\<close>

codatatype AggregateState =
  AggregateState (aggregate_step: "Value list \<Rightarrow> AggregateState result") (aggregate_finish: "Value result")

record AggregateFunction =
  aggregate_name :: string
  aggregate_infer :: "Type list \<Rightarrow> Type result"
  aggregate_create :: "Type list \<Rightarrow> (Type \<Rightarrow> TypeAddon result) \<Rightarrow> AggregateState result"

text \<open>
  An index provider is one of the two the engine registers itself: the hash
  index \<open>core.hash\<close> and the postings index of a key extractor.
\<close>

datatype IndexProvider = Hash_provider | Key_provider KeyExtractor TypeAddon

record IndexAddon =
  index_id :: string
  index_provider :: IndexProvider
  index_unique :: bool

record Registry =
  reg_types :: "(string \<times> u32) \<rightharpoonup> TypeAddon"
  reg_functions :: "string \<rightharpoonup> Function"
  reg_indexes :: "string \<rightharpoonup> IndexAddon"
  reg_extractors :: "string \<rightharpoonup> KeyExtractor"
  reg_aggregates :: "string \<rightharpoonup> AggregateFunction"

definition empty_registry :: Registry where
  "empty_registry =
     \<lparr>reg_types = Map.empty, reg_functions = Map.empty, reg_indexes = Map.empty,
      reg_extractors = Map.empty, reg_aggregates = Map.empty\<rparr>"

definition add_type :: "TypeAddon \<Rightarrow> Registry \<Rightarrow> Registry result" where
  "add_type a r =
     bindE (ensure (addon_id a \<noteq> [] \<and> addon_version a \<noteq> 0) E_type) (\<lambda>_.
     bindE
       (if default_identity (addon_id a) then
          ensure (addon_layout a =
              (if addon_id a = type_id integer_type then L_i64
               else if addon_id a = type_id real_type then L_f64 else L_text)
            \<and> addon_version a = 1) E_type
        else ensure (addon_layout a \<noteq> L_f64 \<and> addon_layout a \<noteq> L_text) E_type) (\<lambda>_.
     bindE (ensure (reg_types r (addon_id a, addon_version a) = None) E_type) (\<lambda>_.
     Inr (r\<lparr>reg_types := (reg_types r)((addon_id a, addon_version a) \<mapsto> a)\<rparr>))))"

definition add_function :: "Function \<Rightarrow> Registry \<Rightarrow> Registry result" where
  "add_function f r =
     bindE (ensure (function_name f \<noteq> []) E_type) (\<lambda>_.
     bindE (ensure (reg_functions r (function_name f) = None) E_type) (\<lambda>_.
     Inr (r\<lparr>reg_functions := (reg_functions r)(function_name f \<mapsto> f)\<rparr>)))"

definition add_aggregate :: "AggregateFunction \<Rightarrow> Registry \<Rightarrow> Registry result" where
  "add_aggregate f r =
     bindE (ensure (aggregate_name f \<noteq> []) E_type) (\<lambda>_.
     bindE (ensure (reg_aggregates r (aggregate_name f) = None) E_type) (\<lambda>_.
     Inr (r\<lparr>reg_aggregates := (reg_aggregates r)(aggregate_name f \<mapsto> f)\<rparr>)))"

definition add_index :: "IndexAddon \<Rightarrow> Registry \<Rightarrow> Registry result" where
  "add_index i r =
     bindE (ensure (index_id i \<noteq> []) E_type) (\<lambda>_.
     bindE (ensure (reg_indexes r (index_id i) = None) E_type) (\<lambda>_.
     Inr (r\<lparr>reg_indexes := (reg_indexes r)(index_id i \<mapsto> i)\<rparr>)))"

definition registry_addon :: "Registry \<Rightarrow> Type \<Rightarrow> TypeAddon result" where
  "registry_addon r t =
     (case reg_types r (type_id t, type_version t) of
        None \<Rightarrow> Inl E_type
      | Some a \<Rightarrow> Inr a)"

definition registry_validate_type :: "Registry \<Rightarrow> Type \<Rightarrow> unit result" where
  "registry_validate_type r t =
     bindE (registry_addon r t) (\<lambda>a. addon_validate_type a (type_parameters t))"

definition registry_validate :: "Registry \<Rightarrow> Value \<Rightarrow> Type \<Rightarrow> unit result" where
  "registry_validate r v expected =
     bindE (registry_addon r expected) (\<lambda>a.
     bindE (addon_validate_type a (type_parameters expected)) (\<lambda>_.
     check_value a expected v))"

definition add_extractor :: "KeyExtractor \<Rightarrow> Registry \<Rightarrow> Registry result" where
  "add_extractor x r =
     bindE (ensure (extractor_name x \<noteq> []) E_type) (\<lambda>_.
     bindE (registry_validate_type r (source_type x)) (\<lambda>_.
     bindE (registry_validate_type r (key_type x)) (\<lambda>_.
     bindE (registry_addon r (key_type x)) (\<lambda>a.
     bindE (ensure (addon_equal a \<noteq> None \<and> addon_hash a \<noteq> None) E_unsupported) (\<lambda>_.
     bindE (ensure (reg_extractors r (extractor_name x) = None
                  \<and> reg_indexes r (extractor_name x) = None) E_type) (\<lambda>_.
     add_index \<lparr>index_id = extractor_name x, index_provider = Key_provider x a,
                index_unique = False\<rparr>
       (r\<lparr>reg_extractors := (reg_extractors r)(extractor_name x \<mapsto> x)\<rparr>)))))))"

definition registry_extractor :: "Registry \<Rightarrow> string \<Rightarrow> KeyExtractor result" where
  "registry_extractor r n =
     (case reg_extractors r n of None \<Rightarrow> Inl E_type | Some x \<Rightarrow> Inr x)"

definition registry_aggregate :: "Registry \<Rightarrow> string \<Rightarrow> AggregateFunction result" where
  "registry_aggregate r n =
     (case reg_aggregates r n of None \<Rightarrow> Inl E_type | Some f \<Rightarrow> Inr f)"

definition registry_function :: "Registry \<Rightarrow> string \<Rightarrow> Function result" where
  "registry_function r n =
     (case reg_functions r n of None \<Rightarrow> Inl E_type | Some f \<Rightarrow> Inr f)"

definition orderable :: "Registry \<Rightarrow> Type \<Rightarrow> bool result" where
  "orderable r t =
     bindE (registry_validate_type r t) (\<lambda>_.
     bindE (registry_addon r t) (\<lambda>a. Inr (addon_compare a \<noteq> None)))"

definition equatable :: "Registry \<Rightarrow> Type \<Rightarrow> bool result" where
  "equatable r t =
     bindE (registry_validate_type r t) (\<lambda>_.
     bindE (registry_addon r t) (\<lambda>a. Inr (addon_equal a \<noteq> None)))"

definition null_order :: "Value \<Rightarrow> Value \<Rightarrow> int" where
  "null_order a b = of_bool (is_null b) - of_bool (is_null a)"

definition registry_compare :: "Registry \<Rightarrow> Value \<Rightarrow> Value \<Rightarrow> int result" where
  "registry_compare r a b =
     (let t = type_of a in
      bindE (registry_addon r t) (\<lambda>x.
      bindE (addon_validate_type x (type_parameters t)) (\<lambda>_.
      bindE (check_value x t a) (\<lambda>_.
      bindE (check_value x t b) (\<lambda>_.
      case addon_compare x of
        None \<Rightarrow> Inl E_unsupported
      | Some cmp \<Rightarrow>
          if is_null a \<or> is_null b then Inr (null_order a b)
          else Inr (cmp (type_parameters t) a b))))))"

definition registry_equal :: "Registry \<Rightarrow> Value \<Rightarrow> Value \<Rightarrow> bool result" where
  "registry_equal r a b =
     (let t = type_of a in
      bindE (registry_addon r t) (\<lambda>x.
      bindE (addon_validate_type x (type_parameters t)) (\<lambda>_.
      bindE (check_value x t a) (\<lambda>_.
      bindE (check_value x t b) (\<lambda>_.
      case addon_equal x of
        None \<Rightarrow> Inl E_unsupported
      | Some eq \<Rightarrow>
          if is_null a \<or> is_null b then Inr (is_null a \<and> is_null b)
          else Inr (eq (type_parameters t) a b))))))"

text \<open>The constructor \<open>Registry(scalar_types)\<close>: the hash index, then the scalar types.\<close>

definition install_scalar_types ::
    "(i64 \<Rightarrow> u64) \<Rightarrow> (u64 \<Rightarrow> u64) \<Rightarrow> (string \<Rightarrow> u64) \<Rightarrow> Registry \<Rightarrow> Registry result" where
  "install_scalar_types hi hr ht r =
     bindE (add_type (scalar_integer hi) r) (\<lambda>r.
     bindE (add_type (scalar_real hr) r) (\<lambda>r. add_type (scalar_text ht) r))"

section \<open>Facts on values and the checks\<close>

lemma is_null_simps [simp]:
  "\<not> is_null (VInt i)" "\<not> is_null (VReal d)" "\<not> is_null (VText s)"
  "\<not> is_null (Opaque t bs)" "is_null (Null t)" "\<not> is_null (Compact t bs)"
  by (simp_all add: is_null_def)

lemma is_null_iff: "is_null v \<longleftrightarrow> (\<exists>t. v = Null t)"
  by (cases v) auto

lemma same_stored_value_iff: "same_stored_value a b \<longleftrightarrow> a = b"
  by (cases a; cases b) (auto simp: same_stored_value_def value_eq_def)

lemma type_ids [simp]:
  "type_id integer_type = ''core.integer''" "type_id real_type = ''core.real''"
  "type_id text_type = ''core.text''"
  "type_version integer_type = 1" "type_version real_type = 1" "type_version text_type = 1"
  "type_parameters integer_type = []" "type_parameters real_type = []"
  "type_parameters text_type = []"
  by (simp_all add: integer_type_def real_type_def text_type_def)

lemma default_types_distinct [simp]:
  "integer_type \<noteq> real_type" "integer_type \<noteq> text_type" "real_type \<noteq> text_type"
  "real_type \<noteq> integer_type" "text_type \<noteq> integer_type" "text_type \<noteq> real_type"
  by (simp_all add: integer_type_def real_type_def text_type_def)

text \<open>
  The cells the constructors of \<open>Compact\<close> build: never a default identity,
  and a payload of eight or sixteen bytes.
\<close>

definition value_wf :: "Value \<Rightarrow> bool" where
  "value_wf v =
     (case v of
        Compact t bs \<Rightarrow> \<not> default_identity (type_id t) \<and> (length bs = 8 \<or> length bs = 16)
      | _ \<Rightarrow> True)"

lemma value_wf_simps [simp]:
  "value_wf (VInt i)" "value_wf (VReal d)" "value_wf (VText s)" "value_wf (Opaque t bs)"
  "value_wf (Null t)"
  by (simp_all add: value_wf_def)

lemma compact_i64_wf: "compact_i64 t p = Inr v \<Longrightarrow> value_wf v"
  by (auto simp: compact_i64_def reject_default_identity_def result_simps value_wf_def)

lemma compact_i128_wf: "length p = 16 \<Longrightarrow> compact_i128 t p = Inr v \<Longrightarrow> value_wf v"
  by (auto simp: compact_i128_def reject_default_identity_def result_simps value_wf_def)

lemma i64_payload_compact: "compact_i64 t p = Inr v \<Longrightarrow> i64_payload v = Inr p"
  by (auto simp: compact_i64_def reject_default_identity_def result_simps i64_payload_def
      enc_u64_def le_word_le_bytes)

section \<open>Well-formed registries\<close>

text \<open>
  What every sequence of registrations keeps: an add-on is stored under its
  own identity, default identities keep their compact layout, and the scalar
  add-ons accept no type parameters.
\<close>

definition addon_ok :: "string \<times> u32 \<Rightarrow> TypeAddon \<Rightarrow> bool" where
  "addon_ok k a \<longleftrightarrow>
     k = (addon_id a, addon_version a) \<and> addon_id a \<noteq> [] \<and> addon_version a \<noteq> 0
     \<and> (default_identity (addon_id a) \<longrightarrow>
          addon_version a = 1
          \<and> addon_layout a = (if addon_id a = ''core.integer'' then L_i64
                else if addon_id a = ''core.real'' then L_f64 else L_text))
     \<and> (\<not> default_identity (addon_id a) \<longrightarrow> addon_layout a \<noteq> L_f64 \<and> addon_layout a \<noteq> L_text)"

definition scalar_ok :: "Registry \<Rightarrow> bool" where
  "scalar_ok r \<longleftrightarrow>
     (\<forall>i \<in> {''core.real'', ''core.text''}. \<exists>a. reg_types r (i, 1) = Some a
        \<and> (\<forall>p. is_ok (addon_validate_type a p) \<longrightarrow> p = []))"

definition registry_ok :: "Registry \<Rightarrow> bool" where
  "registry_ok r \<longleftrightarrow> (\<forall>k a. reg_types r k = Some a \<longrightarrow> addon_ok k a)"

lemma registry_ok_empty: "registry_ok empty_registry"
  by (simp add: registry_ok_def empty_registry_def)

lemma add_type_ok [inv_intros]:
  assumes "add_type a r = Inr r'" and "registry_ok r"
  shows "registry_ok r'"
proof -
  from assms(1) have "addon_ok (addon_id a, addon_version a) a"
    and r': "r' = r\<lparr>reg_types := (reg_types r)((addon_id a, addon_version a) \<mapsto> a)\<rparr>"
    by (auto simp: add_type_def addon_ok_def result_simps split: if_splits)
  then show ?thesis
    using assms(2) by (auto simp: registry_ok_def)
qed

lemma add_other_types:
  "add_function f r = Inr r' \<Longrightarrow> reg_types r' = reg_types r"
  "add_index i r = Inr r' \<Longrightarrow> reg_types r' = reg_types r"
  by (auto simp: add_function_def add_index_def result_simps)

lemma add_extractor_types: "add_extractor x r = Inr r' \<Longrightarrow> reg_types r' = reg_types r"
  by (auto simp: add_extractor_def add_index_def result_simps)

lemma add_type_types:
  assumes "add_type a r = Inr r'"
  shows "reg_types r' = (reg_types r)((addon_id a, addon_version a) \<mapsto> a)"
    and "reg_types r (addon_id a, addon_version a) = None"
  using assms by (auto simp: add_type_def result_simps)

lemma add_type_keeps:
  "add_type a r = Inr r' \<Longrightarrow> reg_types r k = Some b \<Longrightarrow> reg_types r' k = Some b"
  by (auto simp: add_type_types)

text \<open>Registries an application can build: the constructor's, then any registrations.\<close>

inductive built_registry :: "Registry \<Rightarrow> bool" where
  construct:
    "add_index \<lparr>index_id = ''core.hash'', index_provider = Hash_provider, index_unique = True\<rparr>
       empty_registry = Inr r0 \<Longrightarrow> install_scalar_types hi hr ht r0 = Inr r \<Longrightarrow> built_registry r"
| register_type: "built_registry r \<Longrightarrow> add_type a r = Inr r' \<Longrightarrow> built_registry r'"
| register_function: "built_registry r \<Longrightarrow> add_function f r = Inr r' \<Longrightarrow> built_registry r'"
| register_extractor: "built_registry r \<Longrightarrow> add_extractor x r = Inr r' \<Longrightarrow> built_registry r'"

lemma built_registry_ok:
  assumes "built_registry r"
  shows "registry_ok r \<and> scalar_ok r"
  using assms
proof (induction rule: built_registry.induct)
  case (construct r0 hi hr ht r)
  have r0: "reg_types r0 = Map.empty"
    using construct(1) by (auto simp: add_index_def empty_registry_def result_simps)
  then have "registry_ok r0" by (simp add: registry_ok_def)
  moreover obtain r1 r2 where steps: "add_type (scalar_integer hi) r0 = Inr r1"
      "add_type (scalar_real hr) r1 = Inr r2" "add_type (scalar_text ht) r2 = Inr r"
    using construct(2) by (auto simp: install_scalar_types_def bindE_Inr_iff)
  moreover have "reg_types r (''core.real'', 1) = Some (scalar_real hr)"
    and "reg_types r (''core.text'', 1) = Some (scalar_text ht)"
    by (simp_all add: add_type_types [OF steps(3)] add_type_types [OF steps(2)]
        scalar_real_def scalar_text_def)
  then have "scalar_ok r"
    by (simp add: scalar_ok_def scalar_real_def scalar_text_def ensure_def)
  ultimately show ?case
    by (blast intro: add_type_ok)
next
  case (register_type r a r')
  then have "scalar_ok r'"
    unfolding scalar_ok_def by (blast intro: add_type_keeps [OF register_type.hyps(2)])
  with register_type show ?case by (blast intro: add_type_ok)
next
  case (register_function r f r')
  then show ?case by (simp add: registry_ok_def scalar_ok_def add_other_types(1) [OF register_function.hyps(2)])
next
  case (register_extractor r x r')
  then show ?case
    by (simp add: registry_ok_def scalar_ok_def add_extractor_types [OF register_extractor.hyps(2)])
qed

lemma registry_addon_ok:
  "registry_ok r \<Longrightarrow> registry_addon r t = Inr a \<Longrightarrow> addon_ok (type_id t, type_version t) a"
  by (auto simp: registry_ok_def registry_addon_def split: option.splits)

lemma holds_layout_type_of:
  assumes "registry_ok r" and "scalar_ok r" and "registry_addon r t = Inr a"
    and "is_ok (addon_validate_type a (type_parameters t))" and "holds_layout a t v"
  shows "type_of v = t"
proof -
  have ok: "addon_ok (type_id t, type_version t) a"
    using assms(1,3) by (rule registry_addon_ok)
  then have ids: "type_id t = addon_id a" "type_version t = addon_version a"
    by (auto simp: addon_ok_def)
  have params: "type_parameters t = []" if "type_id t \<in> {''core.real'', ''core.text''}"
  proof -
    have "type_version t = 1"
      using that ok ids by (auto simp: addon_ok_def default_identity_def)
    then have "reg_types r (type_id t, 1) = Some a"
      using assms(3) by (auto simp: registry_addon_def split: option.splits)
    then show ?thesis
      using that assms(2,4) by (auto simp: scalar_ok_def)
  qed
  show ?thesis
  proof (cases "addon_layout a")
    case L_i64
    then show ?thesis
      using assms(5) by (auto simp: holds_layout_def split: Value.splits if_splits)
  next
    case L_f64
    then have "type_id t = ''core.real''"
      using ok ids by (auto simp: addon_ok_def default_identity_def split: if_splits)
    then have "t = real_type"
      using params ok ids by (simp add: real_type_def addon_ok_def default_identity_def)
    then show ?thesis
      using assms(5) L_f64 by (auto simp: holds_layout_def split: Value.splits)
  next
    case L_text
    then have "type_id t = ''core.text''"
      using ok ids by (auto simp: addon_ok_def default_identity_def split: if_splits)
    then have "t = text_type"
      using params ok ids by (simp add: text_type_def addon_ok_def default_identity_def)
    then show ?thesis
      using assms(5) L_text by (auto simp: holds_layout_def split: Value.splits)
  next
    case L_bytes
    then show ?thesis
      using assms(5) by (auto simp: holds_layout_def split: Value.splits)
  next
    case L_i128
    then show ?thesis
      using assms(5) by (auto simp: holds_layout_def split: Value.splits)
  qed
qed

end
