(* ===== verification/Rows.thy ===== *)
theory Rows
  imports Values
begin

text \<open>
  Rows, row locations, columns and index definitions of
  include/coresql/core.hpp, with the lexicographic order of locations.
\<close>

type_synonym Row = "Value list"

datatype RowLocation = RowLocation (loc_chunk: u64) (loc_slot: u32)

instantiation RowLocation :: linorder
begin

definition less_RowLocation :: "RowLocation \<Rightarrow> RowLocation \<Rightarrow> bool" where
  "less_RowLocation p q \<longleftrightarrow>
     loc_chunk p < loc_chunk q \<or> loc_chunk p = loc_chunk q \<and> loc_slot p < loc_slot q"

definition less_eq_RowLocation :: "RowLocation \<Rightarrow> RowLocation \<Rightarrow> bool" where
  "less_eq_RowLocation p q \<longleftrightarrow> p = q \<or> p < q"

instance
proof
  fix x y z :: RowLocation
  show "x < y \<longleftrightarrow> x \<le> y \<and> \<not> y \<le> x"
    by (auto simp: less_RowLocation_def less_eq_RowLocation_def)
  show "x \<le> x"
    by (simp add: less_eq_RowLocation_def)
  show "x \<le> y \<Longrightarrow> y \<le> z \<Longrightarrow> x \<le> z"
    by (auto simp: less_RowLocation_def less_eq_RowLocation_def)
  show "x \<le> y \<Longrightarrow> y \<le> x \<Longrightarrow> x = y"
    by (auto simp: less_RowLocation_def less_eq_RowLocation_def)
  show "x \<le> y \<or> y \<le> x"
    unfolding less_RowLocation_def less_eq_RowLocation_def
    by (metis RowLocation.expand linorder_neqE)
qed

end

record IndexResult =
  result_rows :: "RowLocation list"
  result_exact :: bool

record IndexDefinition =
  index_name :: string
  index_columns :: "string list"
  index_is_unique :: bool
  index_descending :: "bool list"
  index_constraint_owned :: bool

record Column =
  column_name :: string
  column_type :: Type
  column_primary_key :: bool
  column_index :: string
  column_default :: "Value option"
  column_nullable :: bool

lemma loc_compare_cases:
  fixes p q :: RowLocation
  shows "three_way (q < p) (p < q) = 0 \<longleftrightarrow> p = q"
    and "three_way (q < p) (p < q) < 0 \<longleftrightarrow> p < q"
    and "0 < three_way (q < p) (p < q) \<longleftrightarrow> q < p"
  by (auto simp: three_way_def)

end
