(* ===== verification/Ordered_Index.thy ===== *)
theory Ordered_Index
  imports Rows
begin

text \<open>
  The ordered secondary index of src/ordered_index.cpp and
  src/ordered_index.hpp: a persistent AVL tree over key rows with the row
  location as the final tie-breaker.

  \<open>query_step\<close> only counts work for an active \<open>QueryControl\<close>; the model is of
  runs without one. Heights are far below the range of \<open>int\<close>, so they are
  unbounded here.
\<close>

section \<open>Comparing keys\<close>

definition any_null :: "Row \<Rightarrow> bool" where
  "any_null k = list_ex is_null k"

definition compare_cell :: "TypeAddon \<Rightarrow> Type \<Rightarrow> Value \<Rightarrow> Value \<Rightarrow> int" where
  "compare_cell a t x y =
     (if is_null x \<or> is_null y then null_order x y
      else (case addon_compare a of
              Some f \<Rightarrow> f (type_parameters t) x y
            | None \<Rightarrow> 0))"

type_synonym KeyColumn = "TypeAddon \<times> Type \<times> bool"

fun compare_columns :: "KeyColumn list \<Rightarrow> Row \<Rightarrow> Row \<Rightarrow> int" where
  "compare_columns ((a, t, desc) # cs) (x # xs) (y # ys) =
     (let c = sgn (compare_cell a t x y)
      in if c \<noteq> 0 then (if desc then - c else c) else compare_columns cs xs ys)"
| "compare_columns _ _ _ = 0"

section \<open>The tree\<close>

datatype Link =
    Leaf
  | Node (node_key: Row) (node_location: RowLocation) (node_left: Link) (node_right: Link)
      (node_height: int)

fun height :: "Link \<Rightarrow> int" where
  "height Leaf = 0"
| "height (Node _ _ _ _ h) = h"

definition node :: "Row \<Rightarrow> RowLocation \<Rightarrow> Link \<Rightarrow> Link \<Rightarrow> Link" where
  "node k p l r = Node k p l r (1 + max (height l) (height r))"

definition balance :: "Link \<Rightarrow> Link" where
  "balance n =
     (let skew = height (node_left n) - height (node_right n) in
      if skew > 1 then
        let l = node_left n;
            l = (if height (node_left l) < height (node_right l) then
                   let m = node_right l
                   in node (node_key m) (node_location m)
                        (node (node_key l) (node_location l) (node_left l) (node_left m))
                        (node_right m)
                 else l)
        in node (node_key l) (node_location l) (node_left l)
             (node (node_key n) (node_location n) (node_right l) (node_right n))
      else if skew < - 1 then
        let r = node_right n;
            r = (if height (node_right r) < height (node_left r) then
                   let m = node_left r
                   in node (node_key m) (node_location m) (node_left m)
                        (node (node_key r) (node_location r) (node_right m) (node_right r))
                 else r)
        in node (node_key r) (node_location r)
             (node (node_key n) (node_location n) (node_left n) (node_left r)) (node_right r)
      else n)"

fun avl_insert ::
    "(Row \<Rightarrow> Row \<Rightarrow> int) \<Rightarrow> bool \<Rightarrow> Link \<Rightarrow> Row \<Rightarrow> RowLocation \<Rightarrow> Link result" where
  "avl_insert cmp unique Leaf k p = Inr (node k p Leaf Leaf)"
| "avl_insert cmp unique (Node nk np l r h) k p =
     (let c = cmp k nk in
      if c = 0 \<and> unique \<and> \<not> any_null k then Inl E_constraint
      else
        let c = (if c = 0 then three_way (np < p) (p < np) else c) in
        if c = 0 then Inl E_state
        else if c < 0 then
          bindE (avl_insert cmp unique l k p) (\<lambda>l'. Inr (balance (node nk np l' r)))
        else
          bindE (avl_insert cmp unique r k p) (\<lambda>r'. Inr (balance (node nk np l r'))))"

fun leftmost :: "Link \<Rightarrow> Row \<times> RowLocation" where
  "leftmost Leaf = undefined"
| "leftmost (Node k p l r h) = (if l = Leaf then (k, p) else leftmost l)"

fun avl_erase :: "(Row \<Rightarrow> Row \<Rightarrow> int) \<Rightarrow> Link \<Rightarrow> Row \<Rightarrow> RowLocation \<Rightarrow> Link result" where
  "avl_erase cmp Leaf k p = Inl E_state"
| "avl_erase cmp (Node nk np l r h) k p =
     (let c = cmp k nk;
          c = (if c = 0 then three_way (np < p) (p < np) else c) in
      if c < 0 then bindE (avl_erase cmp l k p) (\<lambda>l'. Inr (balance (node nk np l' r)))
      else if c > 0 then bindE (avl_erase cmp r k p) (\<lambda>r'. Inr (balance (node nk np l r')))
      else if l = Leaf then Inr r
      else if r = Leaf then Inr l
      else
        let next = leftmost r in
        bindE (avl_erase cmp r (fst next) (snd next)) (\<lambda>r'.
          Inr (balance (node (fst next) (snd next) l r'))))"

text \<open>The recursive walks of \<open>validate\<close> and \<open>equal\<close>.\<close>

definition entry_less ::
    "(Row \<Rightarrow> Row \<Rightarrow> int) \<Rightarrow> Row \<times> RowLocation \<Rightarrow> Row \<times> RowLocation \<Rightarrow> bool" where
  "entry_less cmp a b =
     (let c = cmp (fst a) (fst b) in if c \<noteq> 0 then c < 0 else snd a < snd b)"

fun validate_walk ::
    "(Row \<Rightarrow> Row \<Rightarrow> int) \<Rightarrow> nat \<Rightarrow> Link \<Rightarrow> (Row \<times> RowLocation) option
       \<Rightarrow> (Row \<times> RowLocation) option \<Rightarrow> nat result" where
  "validate_walk cmp width Leaf lo hi = Inr 0"
| "validate_walk cmp width (Node k p l r h) lo hi =
     (if length k \<noteq> width
         \<or> (case lo of Some a \<Rightarrow> \<not> entry_less cmp a (k, p) | None \<Rightarrow> False)
         \<or> (case hi of Some b \<Rightarrow> \<not> entry_less cmp (k, p) b | None \<Rightarrow> False)
         \<or> h \<noteq> 1 + max (height l) (height r)
         \<or> \<bar>height l - height r\<bar> > 1
      then Inl E_state
      else bindE (validate_walk cmp width l lo (Some (k, p))) (\<lambda>a.
           bindE (validate_walk cmp width r (Some (k, p)) hi) (\<lambda>b. Inr (1 + a + b))))"

fun equal_walk :: "(Row \<Rightarrow> Row \<Rightarrow> int) \<Rightarrow> Row \<Rightarrow> Link \<Rightarrow> RowLocation list" where
  "equal_walk cmp k Leaf = []"
| "equal_walk cmp k (Node nk np l r h) =
     (let c = cmp k nk in
      (if c \<le> 0 then equal_walk cmp k l else [])
      @ (if c = 0 then [np] else [])
      @ (if c \<ge> 0 then equal_walk cmp k r else []))"

section \<open>The index object\<close>

record OrderedIndex =
  oi_root :: Link
  oi_addons :: "TypeAddon list"
  oi_types :: "Type list"
  oi_definition :: IndexDefinition
  oi_columns :: "nat list"

definition find_column :: "string \<Rightarrow> Column list \<Rightarrow> nat option" where
  "find_column n cs =
     (let i = length (takeWhile (\<lambda>c. column_name c \<noteq> n) cs)
      in if i < length cs then Some i else None)"

definition ordered_index_new ::
    "IndexDefinition \<Rightarrow> Column list \<Rightarrow> Registry \<Rightarrow> OrderedIndex result" where
  "ordered_index_new d schema reg =
     bindE (ensure (index_name d \<noteq> [] \<and> index_columns d \<noteq> []) E_schema) (\<lambda>_.
     bindE (ensure (index_constraint_owned d \<longrightarrow> index_is_unique d) E_schema) (\<lambda>_.
     bindE (foldE
       (\<lambda>name (seen, cols, tys, ads).
          case find_column name schema of
            None \<Rightarrow> Inl E_schema
          | Some i \<Rightarrow>
              if name \<in> set seen then Inl E_schema
              else
                let t = column_type (schema ! i) in
                bindE (orderable reg t) (\<lambda>ord.
                bindE (ensure ord E_type) (\<lambda>_.
                bindE (registry_addon reg t) (\<lambda>a.
                Inr (name # seen, cols @ [i], tys @ [t], ads @ [a])))))
       (index_columns d) ([], [], [], [])) (\<lambda>(seen, cols, tys, ads).
     bindE (ensure (index_descending d = [] \<or> length (index_descending d) = length cols) E_schema)
       (\<lambda>_.
     Inr \<lparr>oi_root = Leaf, oi_addons = ads, oi_types = tys, oi_definition = d, oi_columns = cols\<rparr>))))"

definition oi_descending :: "OrderedIndex \<Rightarrow> bool list" where
  "oi_descending x =
     (let d = index_descending (oi_definition x)
      in if d = [] then replicate (length (oi_columns x)) False else d)"

definition oi_key_columns :: "OrderedIndex \<Rightarrow> KeyColumn list" where
  "oi_key_columns x = zip (oi_addons x) (zip (oi_types x) (oi_descending x))"

definition oi_compare :: "OrderedIndex \<Rightarrow> Row \<Rightarrow> Row \<Rightarrow> int" where
  "oi_compare x = compare_columns (oi_key_columns x)"

definition oi_key :: "OrderedIndex \<Rightarrow> Row \<Rightarrow> Row" where
  "oi_key x row = map (\<lambda>c. row ! c) (oi_columns x)"

definition oi_insert :: "OrderedIndex \<Rightarrow> Row \<Rightarrow> RowLocation \<Rightarrow> OrderedIndex result" where
  "oi_insert x row p =
     bindE (avl_insert (oi_compare x) (index_is_unique (oi_definition x)) (oi_root x)
              (oi_key x row) p)
       (\<lambda>t. Inr (x\<lparr>oi_root := t\<rparr>))"

definition oi_erase :: "OrderedIndex \<Rightarrow> Row \<Rightarrow> RowLocation \<Rightarrow> OrderedIndex result" where
  "oi_erase x row p =
     bindE (avl_erase (oi_compare x) (oi_root x) (oi_key x row) p)
       (\<lambda>t. Inr (x\<lparr>oi_root := t\<rparr>))"

definition oi_validate :: "OrderedIndex \<Rightarrow> nat result" where
  "oi_validate x = validate_walk (oi_compare x) (length (oi_columns x)) (oi_root x) None None"

definition oi_equal :: "OrderedIndex \<Rightarrow> Row \<Rightarrow> RowLocation list result" where
  "oi_equal x k =
     bindE (ensure (length k = length (oi_columns x)) E_schema) (\<lambda>_.
     Inr (equal_walk (oi_compare x) k (oi_root x)))"

text \<open>Inclusive range on the leading column, whatever its direction.\<close>

fun range_walk :: "KeyColumn \<Rightarrow> Value \<Rightarrow> Value \<Rightarrow> Link \<Rightarrow> RowLocation list" where
  "range_walk col lo hi Leaf = []"
| "range_walk col lo hi (Node k p l r h) =
     (case col of (a, t, desc) \<Rightarrow>
       let lower = compare_cell a t (k ! 0) lo;
           upper = compare_cell a t (k ! 0) hi in
       (if (if desc then upper \<le> 0 else lower \<ge> 0) then range_walk col lo hi l else [])
       @ (if lower \<ge> 0 \<and> upper \<le> 0 then [p] else [])
       @ (if (if desc then lower \<ge> 0 else upper \<le> 0) then range_walk col lo hi r else []))"

definition oi_range :: "OrderedIndex \<Rightarrow> Value \<Rightarrow> Value \<Rightarrow> RowLocation list" where
  "oi_range x lo hi = range_walk (hd (oi_key_columns x)) lo hi (oi_root x)"

text \<open>Equality prefix, then an optional inclusive range on the next column.\<close>

definition bound_lower :: "KeyColumn list \<Rightarrow> nat \<Rightarrow> Value option \<Rightarrow> Row \<Rightarrow> int" where
  "bound_lower cs i lo k =
     (case lo of None \<Rightarrow> 1 | Some v \<Rightarrow> (case cs ! i of (a, t, _) \<Rightarrow> compare_cell a t (k ! i) v))"

definition bound_upper :: "KeyColumn list \<Rightarrow> nat \<Rightarrow> Value option \<Rightarrow> Row \<Rightarrow> int" where
  "bound_upper cs i hi k =
     (case hi of None \<Rightarrow> - 1 | Some v \<Rightarrow> (case cs ! i of (a, t, _) \<Rightarrow> compare_cell a t (k ! i) v))"

fun prefix_range_walk ::
    "KeyColumn list \<Rightarrow> Row \<Rightarrow> Value option \<Rightarrow> Value option \<Rightarrow> Link \<Rightarrow> RowLocation list" where
  "prefix_range_walk cs prefix lo hi Leaf = []"
| "prefix_range_walk cs prefix lo hi (Node k p l r h) =
     (let c = compare_columns (take (length prefix) cs) k prefix in
      if c \<noteq> 0 then
        (if c < 0 then prefix_range_walk cs prefix lo hi r else prefix_range_walk cs prefix lo hi l)
      else
        let i = length prefix;
            lower = bound_lower cs i lo k;
            upper = bound_upper cs i hi k;
            desc = (i < length cs \<and> snd (snd (cs ! i))) in
        (if (if desc then upper \<le> 0 else lower \<ge> 0) then prefix_range_walk cs prefix lo hi l else [])
        @ (if lower \<ge> 0 \<and> upper \<le> 0 then [p] else [])
        @ (if (if desc then lower \<ge> 0 else upper \<le> 0) then prefix_range_walk cs prefix lo hi r
           else []))"

definition oi_prefix_range ::
    "OrderedIndex \<Rightarrow> Row \<Rightarrow> Value option \<Rightarrow> Value option \<Rightarrow> RowLocation list result" where
  "oi_prefix_range x prefix lo hi =
     bindE (ensure (\<not> (length prefix > length (oi_columns x)
              \<or> ((lo \<noteq> None \<or> hi \<noteq> None) \<and> length prefix = length (oi_columns x)))) E_schema) (\<lambda>_.
     Inr (prefix_range_walk (oi_key_columns x) prefix lo hi (oi_root x)))"

section \<open>The cursor\<close>

text \<open>
  \<open>OrderedIndex::Walk\<close>: the stack of pending nodes, the last pushed first.
\<close>

record Bounds =
  bounds_prefix :: Row
  bounds_lower :: "Value option"
  bounds_upper :: "Value option"

record Walk =
  walk_stack :: "Link list"
  walk_reverse :: bool
  walk_columns :: "KeyColumn list"
  walk_bounds :: "Bounds option"

definition key_cell :: "TypeAddon \<Rightarrow> Type \<Rightarrow> Value \<Rightarrow> Value \<Rightarrow> int" where
  "key_cell a t k v =
     (if is_null k then - 1
      else (case addon_compare a of Some f \<Rightarrow> f (type_parameters t) k v | None \<Rightarrow> 0))"

fun bounds_position ::
    "KeyColumn list \<Rightarrow> Row \<Rightarrow> Value option \<Rightarrow> Value option \<Rightarrow> Row \<Rightarrow> int" where
  "bounds_position ((a, t, desc) # cs) (p # ps) lo hi (k # ks) =
     (let c = key_cell a t k p in
      if c \<noteq> 0 then (if desc then - sgn c else sgn c) else bounds_position cs ps lo hi ks)"
| "bounds_position ((a, t, desc) # cs) [] lo hi (k # ks) =
     (if (case lo of Some v \<Rightarrow> key_cell a t k v < 0 | None \<Rightarrow> False) then (if desc then 1 else - 1)
      else if (case hi of Some v \<Rightarrow> key_cell a t k v > 0 | None \<Rightarrow> False) then (if desc then - 1 else 1)
      else 0)"
| "bounds_position _ _ _ _ _ = 0"

definition walk_position :: "KeyColumn list \<Rightarrow> Bounds option \<Rightarrow> Row \<Rightarrow> int" where
  "walk_position cs b k =
     (case b of
        None \<Rightarrow> 0
      | Some b \<Rightarrow> bounds_position cs (bounds_prefix b) (bounds_lower b) (bounds_upper b) k)"

fun walk_descend :: "bool \<Rightarrow> Link \<Rightarrow> Link list \<Rightarrow> Link list" where
  "walk_descend rv Leaf st = st"
| "walk_descend rv (Node k p l r h) st =
     walk_descend rv (if rv then r else l) (Node k p l r h # st)"

fun walk_seek :: "(Row \<Rightarrow> int) \<Rightarrow> bool \<Rightarrow> Link \<Rightarrow> Link list \<Rightarrow> Link list" where
  "walk_seek pos rv Leaf st = st"
| "walk_seek pos rv (Node k p l r h) st =
     (let c = pos k in
      if (if rv then c > 0 else c < 0) then walk_seek pos rv (if rv then l else r) st
      else walk_seek pos rv (if rv then r else l) (Node k p l r h # st))"

definition walk_new :: "OrderedIndex \<Rightarrow> bool \<Rightarrow> Bounds option \<Rightarrow> Walk" where
  "walk_new x rv b =
     \<lparr>walk_stack = walk_seek (walk_position (oi_key_columns x) b) rv (oi_root x) [],
      walk_reverse = rv, walk_columns = oi_key_columns x, walk_bounds = b\<rparr>"

definition next_entry :: "Walk \<Rightarrow> (Row \<times> RowLocation) option \<times> Walk" where
  "next_entry w =
     (case walk_stack w of
        [] \<Rightarrow> (None, w)
      | n # st \<Rightarrow>
          if walk_position (walk_columns w) (walk_bounds w) (node_key n) \<noteq> 0
          then (None, w\<lparr>walk_stack := []\<rparr>)
          else (Some (node_key n, node_location n),
                w\<lparr>walk_stack := walk_descend (walk_reverse w)
                     (if walk_reverse w then node_left n else node_right n) st\<rparr>))"

definition walk_next :: "Walk \<Rightarrow> RowLocation option \<times> Walk" where
  "walk_next w = (case next_entry w of (e, w') \<Rightarrow> (map_option snd e, w'))"

section \<open>Invariants and abstraction\<close>

fun inorder :: "Link \<Rightarrow> (Row \<times> RowLocation) list" where
  "inorder Leaf = []"
| "inorder (Node k p l r h) = inorder l @ (k, p) # inorder r"

fun avl :: "Link \<Rightarrow> bool" where
  "avl Leaf = True"
| "avl (Node k p l r h) \<longleftrightarrow>
     avl l \<and> avl r \<and> h = 1 + max (height l) (height r) \<and> \<bar>height l - height r\<bar> \<le> 1"

definition sorted_entries :: "(Row \<Rightarrow> Row \<Rightarrow> int) \<Rightarrow> (Row \<times> RowLocation) list \<Rightarrow> bool" where
  "sorted_entries cmp es = sorted_wrt (entry_less cmp) es"

text \<open>The list operations the tree operations implement.\<close>

definition insert_entry ::
    "(Row \<Rightarrow> Row \<Rightarrow> int) \<Rightarrow> Row \<times> RowLocation \<Rightarrow> (Row \<times> RowLocation) list
       \<Rightarrow> (Row \<times> RowLocation) list" where
  "insert_entry cmp e es =
     takeWhile (\<lambda>x. entry_less cmp x e) es @ e # dropWhile (\<lambda>x. entry_less cmp x e) es"

definition same_entry ::
    "(Row \<Rightarrow> Row \<Rightarrow> int) \<Rightarrow> Row \<times> RowLocation \<Rightarrow> Row \<times> RowLocation \<Rightarrow> bool" where
  "same_entry cmp a b \<longleftrightarrow> cmp (fst a) (fst b) = 0 \<and> snd a = snd b"

section \<open>Balancing\<close>

lemma inorder_node [simp]: "inorder (node k p l r) = inorder l @ (k, p) # inorder r"
  by (simp add: node_def)

lemma height_node [simp]: "height (node k p l r) = 1 + max (height l) (height r)"
  by (simp add: node_def)

lemma node_sel [simp]:
  "node_left (node k p l r) = l" "node_right (node k p l r) = r"
  "node_key (node k p l r) = k" "node_location (node k p l r) = p"
  by (simp_all add: node_def)

lemma height_nonneg: "avl t \<Longrightarrow> 0 \<le> height t"
  by (induction t) auto

lemma height_pos: "avl t \<Longrightarrow> t \<noteq> Leaf \<Longrightarrow> 0 < height t"
  by (cases t) (auto dest: height_nonneg)

lemma height_zero_iff: "avl t \<Longrightarrow> height t = 0 \<longleftrightarrow> t = Leaf"
  using height_pos by (cases t) fastforce+

text \<open>
  A node whose subtrees are balanced and differ in height by at most two is
  rebalanced without changing its entries; its height shrinks by at most one.
\<close>

lemma balance_node:
  assumes "avl l" and "avl r" and "\<bar>height l - height r\<bar> \<le> 2"
  shows "avl (balance (node k p l r))"
    and "inorder (balance (node k p l r)) = inorder l @ (k, p) # inorder r"
    and "height (balance (node k p l r)) \<le> 1 + max (height l) (height r)"
    and "max (height l) (height r) \<le> height (balance (node k p l r))"
    and "\<bar>height l - height r\<bar> \<le> 1 \<Longrightarrow>
      height (balance (node k p l r)) = 1 + max (height l) (height r)"
proof -
  consider (left) "height l - height r = 2" | (right) "height l - height r = - 2"
    | (even) "\<bar>height l - height r\<bar> \<le> 1"
    using assms(3) by linarith
  then have "avl (balance (node k p l r))
    \<and> inorder (balance (node k p l r)) = inorder l @ (k, p) # inorder r
    \<and> height (balance (node k p l r)) \<le> 1 + max (height l) (height r)
    \<and> max (height l) (height r) \<le> height (balance (node k p l r))
    \<and> (\<bar>height l - height r\<bar> \<le> 1 \<longrightarrow>
       height (balance (node k p l r)) = 1 + max (height l) (height r))"
  proof cases
    case left
    then have "0 < height l" using height_nonneg [OF assms(2)] by linarith
    then obtain lk lp ll lr lh where l: "l = Node lk lp ll lr lh" by (cases l) auto
    show ?thesis
    proof (cases "height ll < height lr")
      case True
      then have "0 < height lr" using assms(1) l height_nonneg [of ll] by simp
      then obtain mk mp ml mr mh where lr: "lr = Node mk mp ml mr mh" by (cases lr) auto
      show ?thesis
        using left True assms l lr by (auto simp: balance_def Let_def node_def)
    next
      case False
      then show ?thesis
        using left assms l by (auto simp: balance_def Let_def node_def)
    qed
  next
    case right
    then have "0 < height r" using height_nonneg [OF assms(1)] by linarith
    then obtain rk rp rl rr rh where r: "r = Node rk rp rl rr rh" by (cases r) auto
    show ?thesis
    proof (cases "height rr < height rl")
      case True
      then have "0 < height rl" using assms(2) r height_nonneg [of rr] by simp
      then obtain mk mp ml mr mh where rl: "rl = Node mk mp ml mr mh" by (cases rl) auto
      show ?thesis
        using right True assms r rl by (auto simp: balance_def Let_def node_def)
    next
      case False
      then show ?thesis
        using right assms r by (auto simp: balance_def Let_def node_def)
    qed
  next
    case even
    then show ?thesis
      using assms by (auto simp: balance_def Let_def node_def)
  qed
  then show "avl (balance (node k p l r))"
    and "inorder (balance (node k p l r)) = inorder l @ (k, p) # inorder r"
    and "height (balance (node k p l r)) \<le> 1 + max (height l) (height r)"
    and "max (height l) (height r) \<le> height (balance (node k p l r))"
    and "\<bar>height l - height r\<bar> \<le> 1 \<Longrightarrow>
      height (balance (node k p l r)) = 1 + max (height l) (height r)"
    by blast+
qed

lemma balance_left:
  assumes "avl l'" and "avl r" and "\<bar>height l' - height r\<bar> \<le> 2"
    and "h = 1 + max (height l) (height r)"
  shows "height l \<le> height l' \<Longrightarrow> height l' \<le> height l + 1 \<Longrightarrow> \<bar>height l - height r\<bar> \<le> 1 \<Longrightarrow>
      h \<le> height (balance (node k p l' r)) \<and> height (balance (node k p l' r)) \<le> h + 1"
    and "height l' \<le> height l \<Longrightarrow> height l \<le> height l' + 1 \<Longrightarrow> \<bar>height l - height r\<bar> \<le> 1 \<Longrightarrow>
      height (balance (node k p l' r)) \<le> h \<and> h \<le> height (balance (node k p l' r)) + 1"
  using balance_node(3-5) [OF assms(1-3), of k p] assms(4)
  by (cases "\<bar>height l' - height r\<bar> \<le> 1"; simp add: max_def split: if_splits)+

lemma balance_right:
  assumes "avl l" and "avl r'" and "\<bar>height l - height r'\<bar> \<le> 2"
    and "h = 1 + max (height l) (height r)"
  shows "height r \<le> height r' \<Longrightarrow> height r' \<le> height r + 1 \<Longrightarrow> \<bar>height l - height r\<bar> \<le> 1 \<Longrightarrow>
      h \<le> height (balance (node k p l r')) \<and> height (balance (node k p l r')) \<le> h + 1"
    and "height r' \<le> height r \<Longrightarrow> height r \<le> height r' + 1 \<Longrightarrow> \<bar>height l - height r\<bar> \<le> 1 \<Longrightarrow>
      height (balance (node k p l r')) \<le> h \<and> h \<le> height (balance (node k p l r')) + 1"
  using balance_node(3-5) [OF assms(1-3), of k p] assms(4)
  by (cases "\<bar>height l - height r'\<bar> \<le> 1"; simp add: max_def split: if_splits)+

lemma avl_insert_avl:
  assumes "avl t" and "avl_insert cmp u t k p = Inr t'"
  shows "avl t' \<and> height t \<le> height t' \<and> height t' \<le> height t + 1"
  using assms
proof (induction t arbitrary: t')
  case Leaf
  then show ?case by (auto simp: node_def)
next
  case (Node nk np l r h)
  have lr: "avl l" "avl r" "\<bar>height l - height r\<bar> \<le> 1" "h = 1 + max (height l) (height r)"
    using Node.prems(1) by auto
  from Node.prems(2) consider
      l' where "avl_insert cmp u l k p = Inr l'" "t' = balance (node nk np l' r)"
    | r' where "avl_insert cmp u r k p = Inr r'" "t' = balance (node nk np l r')"
    by (auto simp: Let_def bindE_Inr_iff split: if_splits)
  then show ?case
  proof cases
    case 1
    note IH = Node.IH(1) [OF lr(1) 1(1)]
    then have "\<bar>height l' - height r\<bar> \<le> 2" using lr(3) by linarith
    then show ?thesis
      using balance_node(1) [of l' r nk np] balance_left [of l' r h l nk np] IH lr 1(2) by simp
  next
    case 2
    note IH = Node.IH(2) [OF lr(2) 2(1)]
    then have "\<bar>height l - height r'\<bar> \<le> 2" using lr(3) by linarith
    then show ?thesis
      using balance_node(1) [of l r' nk np] balance_right [of l r' h r nk np] IH lr 2(2) by simp
  qed
qed

lemma avl_erase_avl:
  assumes "avl t" and "avl_erase cmp t k p = Inr t'"
  shows "avl t' \<and> height t' \<le> height t \<and> height t \<le> height t' + 1"
  using assms
proof (induction t arbitrary: t' k p)
  case Leaf
  then show ?case by simp
next
  case (Node nk np l r h)
  have lr: "avl l" "avl r" "\<bar>height l - height r\<bar> \<le> 1" "h = 1 + max (height l) (height r)"
    using Node.prems(1) by auto
  from Node.prems(2) consider
      (left) l' where "avl_erase cmp l k p = Inr l'" "t' = balance (node nk np l' r)"
    | (right) r' k' p' nk' np' where "avl_erase cmp r k' p' = Inr r'"
        "t' = balance (node nk' np' l r')"
    | (none_l) "l = Leaf" "t' = r"
    | (none_r) "r = Leaf" "t' = l"
    by (auto simp: Let_def bindE_Inr_iff split: if_splits)
  then show ?case
  proof cases
    case left
    note IH = Node.IH(1) [OF lr(1) left(1)]
    then have "\<bar>height l' - height r\<bar> \<le> 2" using lr(3) by linarith
    then show ?thesis
      using balance_node(1) [of l' r nk np] balance_left [of l' r h l nk np] IH lr left(2) by simp
  next
    case right
    note IH = Node.IH(2) [OF lr(2) right(1)]
    then have "\<bar>height l - height r'\<bar> \<le> 2" using lr(3) by linarith
    then show ?thesis
      using balance_node(1) [of l r' nk' np'] balance_right [of l r' h r nk' np'] IH lr right(2)
      by simp
  next
    case none_l
    then show ?thesis using lr height_nonneg [OF lr(2)] by auto
  next
    case none_r
    then show ?thesis using lr height_nonneg [OF lr(1)] by auto
  qed
qed

end
