(* ===== verification/Ordered_Keys.thy ===== *)
theory Ordered_Keys
  imports Ordered_Index
begin

text \<open>
  Correctness of the tree of the ordered index against sorted lists of
  entries, for every key comparison that is a total preorder.
\<close>

section \<open>Ordered keys\<close>

text \<open>
  What the tree relies on: the key comparison is a total preorder on valid
  keys, and keys that compare equal have their NULLs in the same columns.
\<close>

definition duplicate_key ::
    "(Row \<Rightarrow> Row \<Rightarrow> int) \<Rightarrow> bool \<Rightarrow> Row \<Rightarrow> (Row \<times> RowLocation) list \<Rightarrow> bool" where
  "duplicate_key cmp u k es \<longleftrightarrow> u \<and> \<not> any_null k \<and> (\<exists>x \<in> set es. cmp k (fst x) = 0)"

locale key_order =
  fixes cmp :: "Row \<Rightarrow> Row \<Rightarrow> int" and valid :: "Row \<Rightarrow> bool"
  assumes anti: "valid a \<Longrightarrow> valid b \<Longrightarrow> cmp b a = - cmp a b"
    and trans_le: "valid a \<Longrightarrow> valid b \<Longrightarrow> valid c \<Longrightarrow> cmp a b \<le> 0 \<Longrightarrow> cmp b c \<le> 0 \<Longrightarrow> cmp a c \<le> 0"
    and nulls: "valid a \<Longrightarrow> valid b \<Longrightarrow> cmp a b = 0 \<Longrightarrow> any_null a = any_null b"
begin

lemma refl: "valid a \<Longrightarrow> cmp a a = 0"
  using anti [of a a] by simp

lemma trans_less: "valid a \<Longrightarrow> valid b \<Longrightarrow> valid c \<Longrightarrow> cmp a b < 0 \<Longrightarrow> cmp b c \<le> 0 \<Longrightarrow> cmp a c < 0"
  using trans_le [of a b c] trans_le [of b c a] anti [of a c] anti [of b c] anti [of a b] by fastforce

lemma trans_less': "valid a \<Longrightarrow> valid b \<Longrightarrow> valid c \<Longrightarrow> cmp a b \<le> 0 \<Longrightarrow> cmp b c < 0 \<Longrightarrow> cmp a c < 0"
  using trans_le [of a b c] trans_le [of c a b] anti [of a c] anti [of b c] anti [of a b] by fastforce

lemma eq_trans: "valid a \<Longrightarrow> valid b \<Longrightarrow> valid c \<Longrightarrow> cmp a b = 0 \<Longrightarrow> cmp b c = 0 \<Longrightarrow> cmp a c = 0"
  using trans_le [of a b c] trans_le [of c b a] anti [of a c] anti [of b c] anti [of a b] by fastforce

lemma entry_less_trans:
  assumes "valid (fst a)" "valid (fst b)" "valid (fst c)"
    and "entry_less cmp a b" "entry_less cmp b c"
  shows "entry_less cmp a c"
proof -
  have "cmp (fst a) (fst b) \<le> 0" "cmp (fst b) (fst c) \<le> 0"
    using assms(4,5) by (auto simp: entry_less_def Let_def split: if_splits)
  moreover have "cmp (fst a) (fst c) = 0 \<Longrightarrow> cmp (fst a) (fst b) = 0 \<and> cmp (fst b) (fst c) = 0"
    using calculation trans_less [of "fst a" "fst b" "fst c"] trans_less' [of "fst a" "fst b" "fst c"]
      assms(1-3) by fastforce
  ultimately show ?thesis
    using assms trans_le [of "fst a" "fst b" "fst c"]
    by (auto simp: entry_less_def Let_def split: if_splits)
qed

lemma entry_less_irrefl: "valid (fst a) \<Longrightarrow> \<not> entry_less cmp a a"
  by (simp add: entry_less_def refl)

lemma entry_less_asym:
  "valid (fst a) \<Longrightarrow> valid (fst b) \<Longrightarrow> entry_less cmp a b \<Longrightarrow> \<not> entry_less cmp b a"
  using entry_less_trans [of a b a] entry_less_irrefl by blast

lemma entry_cases:
  assumes "valid (fst a)" "valid (fst b)"
  shows "entry_less cmp a b \<or> same_entry cmp a b \<or> entry_less cmp b a"
  using assms anti [of "fst a" "fst b"]
  by (auto simp: entry_less_def same_entry_def Let_def)

lemma same_entry_less:
  assumes "valid (fst a)" "valid (fst b)" and "same_entry cmp a b"
  shows "\<not> entry_less cmp a b" "\<not> entry_less cmp b a"
  using assms anti [of "fst a" "fst b"] by (auto simp: entry_less_def same_entry_def)

lemma sorted_Node:
  assumes "sorted_entries cmp (inorder (Node nk np l r h))"
  shows "sorted_entries cmp (inorder l)" "sorted_entries cmp (inorder r)"
    "\<And>x. x \<in> set (inorder l) \<Longrightarrow> entry_less cmp x (nk, np)"
    "\<And>x. x \<in> set (inorder r) \<Longrightarrow> entry_less cmp (nk, np) x"
  using assms by (auto simp: sorted_entries_def sorted_wrt_append)

lemma takeWhile_split:
  "\<not> P n \<Longrightarrow> takeWhile P (xs @ n # ys) = takeWhile P xs"
  "\<not> P n \<Longrightarrow> dropWhile P (xs @ n # ys) = dropWhile P xs @ n # ys"
  by (induction xs) auto

lemma takeWhile_through:
  "(\<And>x. x \<in> set xs \<Longrightarrow> P x) \<Longrightarrow> P n \<Longrightarrow> takeWhile P (xs @ n # ys) = xs @ n # takeWhile P ys"
  "(\<And>x. x \<in> set xs \<Longrightarrow> P x) \<Longrightarrow> P n \<Longrightarrow> dropWhile P (xs @ n # ys) = dropWhile P ys"
  by (induction xs) auto

lemma insert_entry_left:
  "\<not> entry_less cmp n e \<Longrightarrow> insert_entry cmp e (xs @ n # ys) = insert_entry cmp e xs @ n # ys"
  by (simp add: insert_entry_def takeWhile_split)

lemma insert_entry_right:
  "(\<And>x. x \<in> set xs \<Longrightarrow> entry_less cmp x e) \<Longrightarrow> entry_less cmp n e \<Longrightarrow>
   insert_entry cmp e (xs @ n # ys) = xs @ n # insert_entry cmp e ys"
  by (simp add: insert_entry_def takeWhile_through)

lemma set_insert_entry: "set (insert_entry cmp e xs) = insert e (set xs)"
proof -
  have "set (takeWhile P xs) \<union> set (dropWhile P xs) = set xs" for P
    by (metis set_append takeWhile_dropWhile_id)
  then show ?thesis by (auto simp: insert_entry_def)
qed

lemma inorder_insert:
  assumes "avl t" and "sorted_entries cmp (inorder t)" and "\<forall>x \<in> set (inorder t). valid (fst x)"
    and "valid k" and "avl_insert cmp u t k p = Inr t'"
  shows "inorder t' = insert_entry cmp (k, p) (inorder t)"
  using assms
proof (induction t arbitrary: t')
  case Leaf
  then show ?case by (auto simp: insert_entry_def)
next
  case (Node nk np l r h)
  note s = sorted_Node [OF Node.prems(2)]
  have v: "valid nk" "\<forall>x \<in> set (inorder l). valid (fst x)" "\<forall>x \<in> set (inorder r). valid (fst x)"
    using Node.prems(3) by auto
  have lr: "avl l" "avl r" "\<bar>height l - height r\<bar> \<le> 1"
    using Node.prems(1) by auto
  from Node.prems(5) consider
      (left) l' where "avl_insert cmp u l k p = Inr l'" "t' = balance (node nk np l' r)"
        "entry_less cmp (k, p) (nk, np)"
    | (right) r' where "avl_insert cmp u r k p = Inr r'" "t' = balance (node nk np l r')"
        "entry_less cmp (nk, np) (k, p)"
    using anti [OF v(1) Node.prems(4)]
    by (auto simp: Let_def bindE_Inr_iff loc_compare_cases entry_less_def split: if_splits)
  then show ?case
  proof cases
    case left
    have "\<bar>height l' - height r\<bar> \<le> 2"
      using avl_insert_avl [OF lr(1) left(1)] lr(3) by linarith
    then have "inorder t' = inorder l' @ (nk, np) # inorder r"
      using avl_insert_avl [OF lr(1) left(1)] lr(2) left(2) by (simp add: balance_node)
    moreover have "\<not> entry_less cmp (nk, np) (k, p)"
      using left(3) entry_less_asym [of "(k, p)" "(nk, np)"] v(1) Node.prems(4) by simp
    ultimately show ?thesis
      using Node.IH(1) [OF lr(1) s(1) v(2) Node.prems(4) left(1)] by (simp add: insert_entry_left)
  next
    case right
    have "\<bar>height l - height r'\<bar> \<le> 2"
      using avl_insert_avl [OF lr(2) right(1)] lr(3) by linarith
    then have "inorder t' = inorder l @ (nk, np) # inorder r'"
      using avl_insert_avl [OF lr(2) right(1)] lr(1) right(2) by (simp add: balance_node)
    moreover have "entry_less cmp x (k, p)" if "x \<in> set (inorder l)" for x
      using that s(3) right(3) v(1,2) Node.prems(4) entry_less_trans [of x "(nk, np)" "(k, p)"] by simp
    ultimately show ?thesis
      using Node.IH(2) [OF lr(2) s(2) v(3) Node.prems(4) right(1)] right(3)
      by (simp add: insert_entry_right)
  qed
qed

lemma sorted_insert_entry:
  assumes "sorted_entries cmp es" and "\<forall>x \<in> set es. valid (fst x)" and "valid (fst e)"
    and "\<forall>x \<in> set es. \<not> same_entry cmp e x"
  shows "sorted_entries cmp (insert_entry cmp e es)"
  using assms
proof (induction es)
  case Nil
  then show ?case by (simp add: sorted_entries_def insert_entry_def)
next
  case (Cons x xs)
  have x: "entry_less cmp x y" if "y \<in> set xs" for y
    using Cons.prems(1) that by (simp add: sorted_entries_def)
  show ?case
  proof (cases "entry_less cmp x e")
    case True
    then have "insert_entry cmp e (x # xs) = x # insert_entry cmp e xs"
      by (simp add: insert_entry_def)
    moreover have "sorted_entries cmp (insert_entry cmp e xs)"
      using Cons by (simp add: sorted_entries_def)
    ultimately show ?thesis
      using True x by (auto simp: sorted_entries_def set_insert_entry)
  next
    case False
    then have ex: "entry_less cmp e x"
      using entry_cases [of e x] Cons.prems by auto
    moreover have "entry_less cmp e y" if "y \<in> set xs" for y
      using entry_less_trans [of e x y] ex x that Cons.prems by auto
    ultimately show ?thesis
      using False Cons.prems(1) by (auto simp: insert_entry_def sorted_entries_def)
  qed
qed

text \<open>The insertion fails exactly on a duplicate, with the error that names it.\<close>

lemma insert_result:
  assumes "sorted_entries cmp (inorder t)" and "\<forall>x \<in> set (inorder t). valid (fst x)" and "valid k"
  shows "avl_insert cmp u t k p = Inl e \<longleftrightarrow>
     (if duplicate_key cmp u k (inorder t) then e = E_constraint
      else e = E_state \<and> (\<exists>x \<in> set (inorder t). same_entry cmp (k, p) x))"
  using assms
proof (induction t)
  case Leaf
  then show ?case by (simp add: duplicate_key_def)
next
  case (Node nk np l r h)
  note s = sorted_Node [OF Node.prems(1)]
  have v: "valid nk" "\<forall>x \<in> set (inorder l). valid (fst x)" "\<forall>x \<in> set (inorder r). valid (fst x)"
    using Node.prems(2) by auto
  have key: "cmp nk (fst x) \<le> 0" if "x \<in> set (inorder r)" for x
    using s(4) [OF that] by (auto simp: entry_less_def Let_def split: if_splits)
  have key': "cmp (fst x) nk \<le> 0" if "x \<in> set (inorder l)" for x
    using s(3) [OF that] by (auto simp: entry_less_def Let_def split: if_splits)
  have right_far: "\<not> same_entry cmp (k, p) x"
    if "x \<in> set (inorder r)" "entry_less cmp (k, p) (nk, np)" for x
    using entry_less_trans [of "(k, p)" "(nk, np)" x] same_entry_less [of "(k, p)" x] that s(4) v
      Node.prems(3) by auto
  have left_far: "\<not> same_entry cmp (k, p) x"
    if "x \<in> set (inorder l)" "entry_less cmp (nk, np) (k, p)" for x
    using entry_less_trans [of x "(nk, np)" "(k, p)"] same_entry_less [of "(k, p)" x] that s(3) v
      Node.prems(3) by auto
  note IHl = Node.IH(1) [OF s(1) v(2) Node.prems(3)]
  note IHr = Node.IH(2) [OF s(2) v(3) Node.prems(3)]
  note anti_k = anti [OF v(1) Node.prems(3)]
  consider (eq) "cmp k nk = 0" | (lt) "cmp k nk < 0" | (gt) "cmp k nk > 0" by linarith
  then show ?case
  proof cases
    case eq
    show ?thesis
    proof (cases "u \<and> \<not> any_null k")
      case True
      then show ?thesis using eq by (auto simp: duplicate_key_def)
    next
      case False
      then have nodup: "\<not> duplicate_key cmp u k es" for es by (auto simp: duplicate_key_def)
      consider "p = np" | "p < np" | "np < p" by fastforce
      then show ?thesis
      proof cases
        case 1
        then show ?thesis using eq False nodup by (auto simp: same_entry_def three_way_def)
      next
        case 2
        then have less: "entry_less cmp (k, p) (nk, np)" using eq by (simp add: entry_less_def)
        then have "\<not> same_entry cmp (k, p) (nk, np)"
          using same_entry_less [of "(k, p)" "(nk, np)"] v Node.prems(3) by auto
        then show ?thesis
          using eq False nodup IHl right_far less 2
          by (auto simp: three_way_def bindE_Inl_iff)
      next
        case 3
        then have less: "entry_less cmp (nk, np) (k, p)"
          using eq anti_k by (simp add: entry_less_def)
        then have "\<not> same_entry cmp (k, p) (nk, np)"
          using same_entry_less [of "(k, p)" "(nk, np)"] v Node.prems(3) by auto
        then show ?thesis
          using eq False nodup IHr left_far less 3
          by (auto simp: three_way_def bindE_Inl_iff)
      qed
    qed
  next
    case lt
    then have less: "entry_less cmp (k, p) (nk, np)" by (simp add: entry_less_def)
    have "cmp k (fst x) < 0" if "x \<in> set (inorder r)" for x
      using trans_less [of k nk "fst x"] key [OF that] lt v that Node.prems(3) by auto
    then have "duplicate_key cmp u k (inorder (Node nk np l r h)) \<longleftrightarrow> duplicate_key cmp u k (inorder l)"
      using lt by (fastforce simp: duplicate_key_def)
    moreover have "\<not> same_entry cmp (k, p) (nk, np)" using lt by (simp add: same_entry_def)
    ultimately show ?thesis
      using lt IHl right_far less by (auto simp: bindE_Inl_iff)
  next
    case gt
    then have less: "entry_less cmp (nk, np) (k, p)" using anti_k by (simp add: entry_less_def)
    have "cmp k (fst x) > 0" if "x \<in> set (inorder l)" for x
      using trans_less' [of "fst x" nk k] anti [of k "fst x"] key' [OF that] gt anti_k v that
        Node.prems(3) by auto
    then have "duplicate_key cmp u k (inorder (Node nk np l r h)) \<longleftrightarrow> duplicate_key cmp u k (inorder r)"
      using gt by (fastforce simp: duplicate_key_def)
    moreover have "\<not> same_entry cmp (k, p) (nk, np)" using gt by (simp add: same_entry_def)
    ultimately show ?thesis
      using gt IHr left_far less by (auto simp: bindE_Inl_iff)
  qed
qed

lemma leftmost_inorder:
  "t \<noteq> Leaf \<Longrightarrow> \<exists>xs. inorder t = leftmost t # xs"
proof (induction t)
  case (Node k p l r h)
  then show ?case by (cases "l = Leaf") auto
qed simp

lemma same_entry_far:
  assumes "valid (fst e)" "valid (fst n)" "valid (fst x)" "same_entry cmp e n"
    and "entry_less cmp n x \<or> entry_less cmp x n"
  shows "\<not> same_entry cmp e x"
proof
  assume s: "same_entry cmp e x"
  then have "same_entry cmp n x"
    using assms(1-4) eq_trans [of "fst n" "fst e" "fst x"] anti [of "fst e" "fst n"]
    by (simp add: same_entry_def)
  then show False
    using same_entry_less [of n x] assms(2,3,5) by blast
qed

lemma filter_same_entry:
  assumes "valid (fst e)" "valid (fst n)" "same_entry cmp e n"
    and "\<forall>x \<in> set xs. valid (fst x) \<and> entry_less cmp x n"
    and "\<forall>y \<in> set ys. valid (fst y) \<and> entry_less cmp n y"
  shows "filter (\<lambda>x. \<not> same_entry cmp e x) (xs @ n # ys) = xs @ ys"
proof -
  have "filter (\<lambda>x. \<not> same_entry cmp e x) xs = xs" "filter (\<lambda>x. \<not> same_entry cmp e x) ys = ys"
    using same_entry_far [of e n] assms by (auto simp: filter_id_conv)
  with assms(3) show ?thesis by simp
qed

lemma filter_none: "\<forall>x \<in> set xs. \<not> same_entry cmp e x \<Longrightarrow> filter (\<lambda>x. \<not> same_entry cmp e x) xs = xs"
  by (simp add: filter_id_conv)

definition erases :: "Link \<Rightarrow> Row \<Rightarrow> RowLocation \<Rightarrow> bool" where
  "erases t k p \<longleftrightarrow>
     (if \<exists>x \<in> set (inorder t). same_entry cmp (k, p) x then
        \<exists>t'. avl_erase cmp t k p = Inr t' \<and>
          inorder t' = filter (\<lambda>x. \<not> same_entry cmp (k, p) x) (inorder t)
      else avl_erase cmp t k p = Inl E_state)"

lemma erases_left:
  assumes lr: "avl l" "avl r" "\<bar>height l - height r\<bar> \<le> 1" and IH: "erases l k p"
    and "entry_less cmp (k, p) (nk, np)"
    and far: "\<forall>x \<in> set ((nk, np) # inorder r). \<not> same_entry cmp (k, p) x"
  shows "erases (Node nk np l r h) k p"
proof -
  have step: "avl_erase cmp (Node nk np l r h) k p =
      bindE (avl_erase cmp l k p) (\<lambda>l'. Inr (balance (node nk np l' r)))"
    using assms(5) by (auto simp: entry_less_def Let_def three_way_def split: if_splits)
  have "inorder (balance (node nk np l' r)) = inorder l' @ (nk, np) # inorder r"
    if "avl_erase cmp l k p = Inr l'" for l'
    using avl_erase_avl [OF lr(1) that] lr by (intro balance_node(2)) auto
  then show ?thesis
    using IH far unfolding erases_def step by (auto split: if_splits simp: filter_none)
qed

lemma erases_right:
  assumes lr: "avl l" "avl r" "\<bar>height l - height r\<bar> \<le> 1" and IH: "erases r k p"
    and "valid k" "valid nk" "entry_less cmp (nk, np) (k, p)"
    and far: "\<forall>x \<in> set (inorder l @ [(nk, np)]). \<not> same_entry cmp (k, p) x"
  shows "erases (Node nk np l r h) k p"
proof -
  have step: "avl_erase cmp (Node nk np l r h) k p =
      bindE (avl_erase cmp r k p) (\<lambda>r'. Inr (balance (node nk np l r')))"
    using assms(7) anti [OF assms(6,5)]
    by (auto simp: entry_less_def Let_def three_way_def split: if_splits)
  have "inorder (balance (node nk np l r')) = inorder l @ (nk, np) # inorder r'"
    if "avl_erase cmp r k p = Inr r'" for r'
    using avl_erase_avl [OF lr(2) that] lr by (intro balance_node(2)) auto
  then show ?thesis
    using IH far unfolding erases_def step by (auto split: if_splits simp: filter_none)
qed

lemma erases_here:
  assumes lr: "avl l" "avl r" "\<bar>height l - height r\<bar> \<le> 1"
    and s: "sorted_entries cmp (inorder (Node nk np l r h))"
    and v: "\<forall>x \<in> set (inorder (Node nk np l r h)). valid (fst x)" "valid k"
    and IH: "\<And>k p. valid k \<Longrightarrow> erases r k p"
    and here: "same_entry cmp (k, p) (nk, np)"
  shows "erases (Node nk np l r h) k p"
proof -
  note sN = sorted_Node [OF s]
  have flt: "filter (\<lambda>x. \<not> same_entry cmp (k, p) x) (inorder (Node nk np l r h)) = inorder l @ inorder r"
    using filter_same_entry [of "(k, p)" "(nk, np)" "inorder l" "inorder r"] v sN here by auto
  have "\<exists>t'. avl_erase cmp (Node nk np l r h) k p = Inr t' \<and> inorder t' = inorder l @ inorder r"
  proof (cases "l = Leaf \<or> r = Leaf")
    case True
    then show ?thesis using here by (auto simp: same_entry_def three_way_def)
  next
    case False
    then obtain xs where xs: "inorder r = leftmost r # xs" using leftmost_inorder by blast
    define nx where "nx = leftmost r"
    have vx: "valid (fst nx)" "\<forall>x \<in> set xs. valid (fst x)" using v xs by (auto simp: nx_def)
    have sx: "\<forall>y \<in> set xs. entry_less cmp nx y"
      using sN(2) xs by (simp add: sorted_entries_def nx_def)
    have same: "same_entry cmp nx nx" using vx refl by (simp add: same_entry_def)
    then have "\<exists>x \<in> set (inorder r). same_entry cmp (fst nx, snd nx) x" using xs nx_def by auto
    then obtain r' where r': "avl_erase cmp r (fst nx) (snd nx) = Inr r'"
        "inorder r' = filter (\<lambda>x. \<not> same_entry cmp nx x) (inorder r)"
      using IH [OF vx(1), of "snd nx"] by (auto simp: erases_def)
    have "inorder r' = xs"
      using filter_same_entry [of nx nx "[]" xs] r'(2) xs vx sx same by (simp add: nx_def)
    moreover have "inorder (balance (node (fst nx) (snd nx) l r')) = inorder l @ nx # inorder r'"
      using avl_erase_avl [OF lr(2) r'(1)] lr balance_node(2) [of l r' "fst nx" "snd nx"] by auto
    ultimately show ?thesis
      using False here r'(1) xs by (auto simp: same_entry_def three_way_def nx_def Let_def)
  qed
  then show ?thesis
    using here flt by (auto simp: erases_def)
qed

lemma erase_result:
  assumes "avl t" and "sorted_entries cmp (inorder t)" and "\<forall>x \<in> set (inorder t). valid (fst x)"
    and "valid k"
  shows "erases t k p"
  using assms
proof (induction t arbitrary: k p)
  case Leaf
  then show ?case by (simp add: erases_def)
next
  case (Node nk np l r h k p)
  note s = sorted_Node [OF Node.prems(2)]
  have v: "valid nk" "\<forall>x \<in> set (inorder l). valid (fst x)" "\<forall>x \<in> set (inorder r). valid (fst x)"
    and lr: "avl l" "avl r" "\<bar>height l - height r\<bar> \<le> 1"
    using Node.prems by auto
  consider (lt) "entry_less cmp (k, p) (nk, np)" | (here) "same_entry cmp (k, p) (nk, np)"
    | (gt) "entry_less cmp (nk, np) (k, p)"
    using entry_cases [of "(k, p)" "(nk, np)"] v Node.prems(4) by auto
  then show ?case
  proof cases
    case lt
    have "\<not> same_entry cmp (k, p) x" if x: "x \<in> set ((nk, np) # inorder r)" for x
    proof -
      have "valid (fst x)" "entry_less cmp (k, p) x"
        using x lt s(4) [of x] v Node.prems(4) entry_less_trans [of "(k, p)" "(nk, np)" x] by auto
      then show ?thesis using same_entry_less [of "(k, p)" x] Node.prems(4) by auto
    qed
    then show ?thesis
      using erases_left [OF lr Node.IH(1) lt] lr s v Node.prems(4) by blast
  next
    case here
    then show ?thesis
      using erases_here [OF lr Node.prems(2,3,4) Node.IH(2) here] lr s v by blast
  next
    case gt
    have "\<not> same_entry cmp (k, p) x" if x: "x \<in> set (inorder l @ [(nk, np)])" for x
    proof -
      have "valid (fst x)" "entry_less cmp x (k, p)"
        using x gt s(3) [of x] v Node.prems(4) entry_less_trans [of x "(nk, np)" "(k, p)"] by auto
      then show ?thesis using same_entry_less [of "(k, p)" x] Node.prems(4) by auto
    qed
    then show ?thesis
      using erases_right [OF lr Node.IH(2) Node.prems(4) v(1) gt] lr s v Node.prems(4) by blast
  qed
qed

lemma equal_walk_filter:
  assumes "sorted_entries cmp (inorder t)" and "\<forall>x \<in> set (inorder t). valid (fst x)" and "valid k"
  shows "equal_walk cmp k t = map snd (filter (\<lambda>x. cmp k (fst x) = 0) (inorder t))"
  using assms
proof (induction t)
  case Leaf
  then show ?case by simp
next
  case (Node nk np l r h)
  note s = sorted_Node [OF Node.prems(1)]
  have v: "valid nk" "\<forall>x \<in> set (inorder l). valid (fst x)" "\<forall>x \<in> set (inorder r). valid (fst x)"
    using Node.prems by auto
  have r: "cmp k (fst x) < 0" if "x \<in> set (inorder r)" "cmp k nk < 0" for x
    using trans_less [of k nk "fst x"] s(4) [OF that(1)] that v Node.prems(3)
    by (auto simp: entry_less_def Let_def split: if_splits)
  have l: "cmp k (fst x) > 0" if "x \<in> set (inorder l)" "cmp k nk > 0" for x
    using trans_less' [of "fst x" nk k] anti [of k "fst x"] anti [of k nk] s(3) [OF that(1)] that v
      Node.prems(3) by (auto simp: entry_less_def Let_def split: if_splits)
  have "filter (\<lambda>x. cmp k (fst x) = 0) (inorder r) = []" if "cmp k nk < 0"
    using r that by (fastforce simp: filter_empty_conv)
  moreover have "filter (\<lambda>x. cmp k (fst x) = 0) (inorder l) = []" if "cmp k nk > 0"
    using l that by (fastforce simp: filter_empty_conv)
  ultimately show ?case
    using Node.IH s v Node.prems(3) by (auto simp: Let_def)
qed

end

end
