(* ===== verification/Key_Columns.thy ===== *)
theory Key_Columns
  imports Ordered_Keys
begin

text \<open>
  The key comparison of src/ordered_index.cpp is a total preorder on validated
  keys, for NULLs and every mix of directions, whenever the add-ons order their
  values: the interpretation of the key order the tree relies on.
\<close>

section \<open>Key columns are ordered\<close>

text \<open>
  The documented contract of \<open>TypeAddon::compare\<close>: a total preorder on the
  values the add-on accepts. \<open>value_ok\<close> is the check every stored value has
  passed.
\<close>

definition value_ok :: "TypeAddon \<Rightarrow> Type \<Rightarrow> Value \<Rightarrow> bool" where
  "value_ok a t v \<longleftrightarrow> check_value a t v = Inr ()"

definition addon_ordered :: "TypeAddon \<Rightarrow> Type \<Rightarrow> bool" where
  "addon_ordered a t \<longleftrightarrow>
     (\<exists>f. addon_compare a = Some f \<and>
       (\<forall>x y z. \<not> is_null x \<and> \<not> is_null y \<and> \<not> is_null z
           \<and> value_ok a t x \<and> value_ok a t y \<and> value_ok a t z \<longrightarrow>
         sgn (f (type_parameters t) y x) = - sgn (f (type_parameters t) x y)
         \<and> (f (type_parameters t) x y \<le> 0 \<and> f (type_parameters t) y z \<le> 0
             \<longrightarrow> f (type_parameters t) x z \<le> 0)))"

definition columns_ordered :: "KeyColumn list \<Rightarrow> bool" where
  "columns_ordered cs \<longleftrightarrow> (\<forall>(a, t, _) \<in> set cs. addon_ordered a t)"

definition valid_key :: "KeyColumn list \<Rightarrow> Row \<Rightarrow> bool" where
  "valid_key cs k \<longleftrightarrow> list_all2 (\<lambda>(a, t, _) v. value_ok a t v) cs k"

lemma valid_key_simps [simp]:
  "valid_key [] k \<longleftrightarrow> k = []"
  "valid_key ((a, t, d) # cs) (v # k) \<longleftrightarrow> value_ok a t v \<and> valid_key cs k"
  "\<not> valid_key (c # cs) []"
  by (simp_all add: valid_key_def)

lemma valid_key_Cons:
  "valid_key ((a, t, d) # cs) k \<longleftrightarrow> (\<exists>v k'. k = v # k' \<and> value_ok a t v \<and> valid_key cs k')"
  by (cases k) auto

lemma columns_ordered_simps [simp]:
  "columns_ordered []"
  "columns_ordered ((a, t, d) # cs) \<longleftrightarrow> addon_ordered a t \<and> columns_ordered cs"
  by (auto simp: columns_ordered_def)

lemma cell_anti:
  assumes "addon_ordered a t" "value_ok a t x" "value_ok a t y"
  shows "sgn (compare_cell a t y x) = - sgn (compare_cell a t x y)"
proof (cases "is_null x \<or> is_null y")
  case True
  then show ?thesis by (auto simp: compare_cell_def null_order_def)
next
  case False
  obtain f where f: "addon_compare a = Some f"
    and "\<And>u v w. \<not> is_null u \<and> \<not> is_null v \<and> \<not> is_null w
       \<and> value_ok a t u \<and> value_ok a t v \<and> value_ok a t w \<Longrightarrow>
         sgn (f (type_parameters t) v u) = - sgn (f (type_parameters t) u v)"
    using assms(1) unfolding addon_ordered_def by blast
  from this(2) [of x y x] show ?thesis
    using assms False by (simp add: compare_cell_def f)
qed

lemma cell_trans:
  assumes "addon_ordered a t" "value_ok a t x" "value_ok a t y" "value_ok a t z"
    and "compare_cell a t x y \<le> 0" "compare_cell a t y z \<le> 0"
  shows "compare_cell a t x z \<le> 0"
proof -
  obtain f where f: "addon_compare a = Some f" using assms(1) by (auto simp: addon_ordered_def)
  show ?thesis
  proof (cases "is_null x \<or> is_null y \<or> is_null z")
    case True
    then show ?thesis
      using assms(5,6) by (auto simp: compare_cell_def null_order_def f split: if_splits)
  next
    case False
    have "f (type_parameters t) x z \<le> 0"
      if "f (type_parameters t) x y \<le> 0" "f (type_parameters t) y z \<le> 0"
      using assms(1-4) f False that unfolding addon_ordered_def by (metis option.inject)
    then show ?thesis
      using assms(5,6) False by (simp add: compare_cell_def f)
  qed
qed

lemma cell_neg:
  assumes "addon_ordered a t" "value_ok a t x" "value_ok a t y"
  shows "0 < compare_cell a t y x \<longleftrightarrow> compare_cell a t x y < 0"
    and "0 \<le> compare_cell a t y x \<longleftrightarrow> compare_cell a t x y \<le> 0"
    and "compare_cell a t y x = 0 \<longleftrightarrow> compare_cell a t x y = 0"
  using cell_anti [OF assms] by (auto simp: sgn_if split: if_splits)

lemma cell_less_le:
  assumes "addon_ordered a t" "value_ok a t x" "value_ok a t y" "value_ok a t z"
    and "compare_cell a t x y < 0" "compare_cell a t y z \<le> 0"
  shows "compare_cell a t x z < 0"
  using assms cell_trans [of a t y z x] cell_neg [of a t x z] cell_neg [of a t x y]
  by (metis linorder_not_le)

lemma cell_le_less:
  assumes "addon_ordered a t" "value_ok a t x" "value_ok a t y" "value_ok a t z"
    and "compare_cell a t x y \<le> 0" "compare_cell a t y z < 0"
  shows "compare_cell a t x z < 0"
  using assms cell_trans [of a t z x y] cell_neg [of a t x z] cell_neg [of a t y z]
  by (metis linorder_not_le)

lemma cell_eq_null:
  assumes "compare_cell a t x y = 0" shows "is_null x = is_null y"
  using assms by (auto simp: compare_cell_def null_order_def split: if_splits)

text \<open>The comparison of one column in its index direction.\<close>

definition directed :: "KeyColumn \<Rightarrow> Value \<Rightarrow> Value \<Rightarrow> int" where
  "directed c x y = (case c of (a, t, d) \<Rightarrow>
     if d then - sgn (compare_cell a t x y) else sgn (compare_cell a t x y))"

lemma compare_columns_Cons:
  "compare_columns (c # cs) (x # xs) (y # ys) =
     (if directed c x y \<noteq> 0 then directed c x y else compare_columns cs xs ys)"
  by (cases c) (auto simp: directed_def Let_def)

lemma directed_anti:
  assumes "addon_ordered a t" "value_ok a t x" "value_ok a t y"
  shows "directed (a, t, d) y x = - directed (a, t, d) x y"
  using cell_anti [OF assms] by (simp add: directed_def)

lemma directed_sign:
  assumes "addon_ordered a t" "value_ok a t x" "value_ok a t y"
  shows "directed (a, t, d) x y \<le> 0 \<longleftrightarrow> (if d then compare_cell a t y x \<le> 0 else compare_cell a t x y \<le> 0)"
    and "directed (a, t, d) x y < 0 \<longleftrightarrow> (if d then compare_cell a t y x < 0 else compare_cell a t x y < 0)"
  using cell_anti [OF assms] by (auto simp: directed_def sgn_if split: if_splits)

lemma directed_less_le:
  assumes "addon_ordered a t" "value_ok a t x" "value_ok a t y" "value_ok a t z"
    and "directed (a, t, d) x y < 0" "directed (a, t, d) y z \<le> 0"
  shows "directed (a, t, d) x z < 0"
  using assms cell_less_le [of a t x y z] cell_le_less [of a t z y x]
  by (cases d) (simp_all add: directed_sign)

lemma directed_le_less:
  assumes "addon_ordered a t" "value_ok a t x" "value_ok a t y" "value_ok a t z"
    and "directed (a, t, d) x y \<le> 0" "directed (a, t, d) y z < 0"
  shows "directed (a, t, d) x z < 0"
  using assms cell_le_less [of a t x y z] cell_less_le [of a t z y x]
  by (cases d) (simp_all add: directed_sign)

lemma directed_trans:
  assumes "addon_ordered a t" "value_ok a t x" "value_ok a t y" "value_ok a t z"
    and "directed (a, t, d) x y \<le> 0" "directed (a, t, d) y z \<le> 0"
  shows "directed (a, t, d) x z \<le> 0"
  using assms cell_trans [of a t x y z] cell_trans [of a t z y x]
  by (cases d) (simp_all add: directed_sign)

lemma compare_columns_anti:
  assumes "columns_ordered cs" "valid_key cs x" "valid_key cs y"
  shows "compare_columns cs y x = - compare_columns cs x y"
  using assms
proof (induction cs arbitrary: x y)
  case (Cons c cs)
  obtain a t d where c: "c = (a, t, d)" by (cases c)
  obtain x1 xs y1 ys where k: "x = x1 # xs" "y = y1 # ys"
    and v: "value_ok a t x1" "value_ok a t y1" "valid_key cs xs" "valid_key cs ys"
    using Cons.prems by (auto simp: c valid_key_Cons)
  have o: "addon_ordered a t" "columns_ordered cs" using Cons.prems(1) by (simp_all add: c)
  have "directed c y1 x1 = - directed c x1 y1" "compare_columns cs ys xs = - compare_columns cs xs ys"
    using directed_anti [OF o(1) v(1,2)] Cons.IH [OF o(2) v(3,4)] by (simp_all add: c)
  then show ?case
    unfolding k compare_columns_Cons by simp
qed simp

lemma compare_columns_trans:
  assumes "columns_ordered cs" "valid_key cs x" "valid_key cs y" "valid_key cs z"
    and "compare_columns cs x y \<le> 0" "compare_columns cs y z \<le> 0"
  shows "compare_columns cs x z \<le> 0"
  using assms
proof (induction cs arbitrary: x y z)
  case (Cons c cs)
  obtain a t d where c: "c = (a, t, d)" by (cases c)
  obtain x1 xs y1 ys z1 zs where k: "x = x1 # xs" "y = y1 # ys" "z = z1 # zs"
    and v: "value_ok a t x1" "value_ok a t y1" "value_ok a t z1"
    and vs: "valid_key cs xs" "valid_key cs ys" "valid_key cs zs"
    using Cons.prems by (auto simp: c valid_key_Cons)
  have o: "addon_ordered a t" "columns_ordered cs" using Cons.prems(1) by (auto simp: c)
  have le: "directed c x1 y1 \<le> 0" "directed c y1 z1 \<le> 0"
    using Cons.prems(5,6) k by (auto simp: compare_columns_Cons simp del: compare_columns.simps(1) split: if_splits)
  then have le': "directed c x1 z1 \<le> 0" using directed_trans [OF o(1) v, of d] by (simp add: c)
  show ?case
  proof (cases "directed c x1 z1 = 0")
    case True
    then have "directed c x1 y1 = 0" "directed c y1 z1 = 0"
      using le directed_less_le [OF o(1) v, of d] directed_le_less [OF o(1) v, of d]
      unfolding c by linarith+
    then show ?thesis
      using Cons.IH [OF o(2) vs] Cons.prems(5,6) True k
      by (simp add: compare_columns_Cons del: compare_columns.simps(1))
  next
    case False
    then show ?thesis
      using le' k by (simp add: compare_columns_Cons del: compare_columns.simps(1))
  qed
qed simp

lemma compare_columns_nulls:
  assumes "valid_key cs x" "valid_key cs y" "compare_columns cs x y = 0"
  shows "any_null x = any_null y"
  using assms
proof (induction cs arbitrary: x y)
  case (Cons c cs)
  obtain a t d where c: "c = (a, t, d)" by (cases c)
  obtain x1 xs y1 ys where k: "x = x1 # xs" "y = y1 # ys"
    and v: "valid_key cs xs" "valid_key cs ys"
    using Cons.prems by (auto simp: c valid_key_Cons)
  have "compare_cell a t x1 y1 = 0" "compare_columns cs xs ys = 0"
    using Cons.prems(3) k by (auto simp: c Let_def sgn_if split: if_splits)
  then show ?case
    using Cons.IH [OF v] cell_eq_null [of a t x1 y1] k by (simp add: any_null_def)
qed simp

interpretation key: key_order "compare_columns cs" "\<lambda>k. columns_ordered cs \<and> valid_key cs k" for cs
proof
  show "compare_columns cs b a = - compare_columns cs a b"
    if "columns_ordered cs \<and> valid_key cs a" "columns_ordered cs \<and> valid_key cs b" for a b
    using compare_columns_anti that by blast
  show "compare_columns cs a c \<le> 0"
    if "columns_ordered cs \<and> valid_key cs a" "columns_ordered cs \<and> valid_key cs b"
      "columns_ordered cs \<and> valid_key cs c" "compare_columns cs a b \<le> 0" "compare_columns cs b c \<le> 0"
    for a b c
    using compare_columns_trans that by blast
  show "any_null a = any_null b"
    if "columns_ordered cs \<and> valid_key cs a" "columns_ordered cs \<and> valid_key cs b"
      "compare_columns cs a b = 0" for a b
    using compare_columns_nulls that by blast
qed

text \<open>The scalar add-ons meet the contract.\<close>

lemma addon_orderedI:
  fixes g :: "Value \<Rightarrow> 'a::linorder"
  assumes "addon_compare a \<noteq> None"
    and "\<And>x y. \<not> is_null x \<Longrightarrow> \<not> is_null y \<Longrightarrow> value_ok a t x \<Longrightarrow> value_ok a t y \<Longrightarrow>
      the (addon_compare a) (type_parameters t) x y = three_way (g y < g x) (g x < g y)"
  shows "addon_ordered a t"
  unfolding addon_ordered_def
proof (rule exI [of _ "the (addon_compare a)"], intro conjI allI impI, goal_cases)
  case 1
  show ?case using assms(1) by simp
next
  case (2 x y z)
  then show ?case using assms(2) [of x y] assms(2) [of y x] by (auto simp: three_way_def)
next
  case (3 x y z)
  then show ?case using assms(2) [of x y] assms(2) [of y z] assms(2) [of x z]
    by (auto simp: three_way_def of_bool_def split: if_splits)
qed

lemma scalar_integer_ordered: "addon_ordered (scalar_integer h) integer_type"
  by (rule addon_orderedI [where g = "\<lambda>v. case v of VInt x \<Rightarrow> sint x | _ \<Rightarrow> 0"])
    (auto simp: value_ok_def check_value_def holds_layout_def scalar_integer_def split: Value.splits)

lemma scalar_text_ordered: "addon_ordered (scalar_text h) text_type"
  by (rule addon_orderedI [where g = "\<lambda>v. case v of VText x \<Rightarrow> x | _ \<Rightarrow> []"])
    (auto simp: value_ok_def check_value_def holds_layout_def scalar_text_def split: Value.splits)

lemma f64_lt_finite:
  "f64_isfinite x \<Longrightarrow> f64_isfinite y \<Longrightarrow> f64_lt x y \<longleftrightarrow> f64_key x < f64_key y"
  by (auto simp: f64_lt_def f64_isfinite_def f64_isnan_def)

lemma scalar_real_ordered: "addon_ordered (scalar_real h) real_type"
  by (rule addon_orderedI [where g = "\<lambda>v. case v of VReal x \<Rightarrow> f64_key x | _ \<Rightarrow> 0"])
    (auto simp: value_ok_def check_value_def holds_layout_def scalar_real_def f64_lt_finite ensure_def
      split: Value.splits if_splits)

end
