(* ===== verification/Index_Bounds.thy ===== *)
theory Index_Bounds
  imports Key_Columns
begin

text \<open>
  Bounded lookups of src/ordered_index.cpp: the position of a key against an
  equality prefix and an inclusive range grows along the index order, and the
  walk of \<open>prefix_range\<close> returns the rows within the bounds.
\<close>

section \<open>Bounds\<close>

text \<open>
  The rows a bounded lookup means: the prefix columns equal the prefix, and the
  next column lies between the inclusive bounds. A NULL lies below every value.
\<close>

definition in_bounds ::
    "KeyColumn list \<Rightarrow> Row \<Rightarrow> Value option \<Rightarrow> Value option \<Rightarrow> Row \<Rightarrow> bool" where
  "in_bounds cs ps lo hi k \<longleftrightarrow>
     (\<forall>i < length ps. case cs ! i of (a, t, _) \<Rightarrow> compare_cell a t (k ! i) (ps ! i) = 0)
     \<and> (case lo of None \<Rightarrow> True | Some v \<Rightarrow>
          (case cs ! length ps of (a, t, _) \<Rightarrow> compare_cell a t (k ! length ps) v \<ge> 0))
     \<and> (case hi of None \<Rightarrow> True | Some v \<Rightarrow>
          (case cs ! length ps of (a, t, _) \<Rightarrow> compare_cell a t (k ! length ps) v \<le> 0))"

fun bounds_ok :: "KeyColumn list \<Rightarrow> Row \<Rightarrow> Value option \<Rightarrow> Value option \<Rightarrow> bool" where
  "bounds_ok ((a, t, _) # cs) (p # ps) lo hi \<longleftrightarrow>
     \<not> is_null p \<and> value_ok a t p \<and> bounds_ok cs ps lo hi"
| "bounds_ok ((a, t, _) # cs) [] lo hi \<longleftrightarrow>
     (case lo of None \<Rightarrow> True | Some v \<Rightarrow> \<not> is_null v \<and> value_ok a t v)
     \<and> (case hi of None \<Rightarrow> True | Some v \<Rightarrow> \<not> is_null v \<and> value_ok a t v)"
| "bounds_ok [] ps lo hi \<longleftrightarrow> ps = [] \<and> lo = None \<and> hi = None"

lemma key_cell_cell: "\<not> is_null v \<Longrightarrow> key_cell a t k v = compare_cell a t k v"
  by (simp add: key_cell_def compare_cell_def null_order_def)

lemma in_bounds_Cons:
  "in_bounds ((a, t, d) # cs) (p # ps) lo hi (k # ks) \<longleftrightarrow>
     compare_cell a t k p = 0 \<and> in_bounds cs ps lo hi ks"
  by (auto simp: in_bounds_def All_less_Suc2 split: option.splits)

lemma in_bounds_Nil:
  "in_bounds cs [] lo hi k \<longleftrightarrow>
     (case lo of None \<Rightarrow> True | Some v \<Rightarrow> (case cs ! 0 of (a, t, _) \<Rightarrow> compare_cell a t (k ! 0) v \<ge> 0))
     \<and> (case hi of None \<Rightarrow> True | Some v \<Rightarrow> (case cs ! 0 of (a, t, _) \<Rightarrow> compare_cell a t (k ! 0) v \<le> 0))"
  by (auto simp: in_bounds_def split: option.splits)

lemma bounds_ok_drop: "bounds_ok cs ps lo hi \<Longrightarrow> bounds_ok cs ps lo None \<and> bounds_ok cs ps None hi"
  by (induction cs ps lo hi rule: bounds_ok.induct) auto

lemma in_bounds_position:
  assumes "bounds_ok cs ps lo hi" "valid_key cs k"
  shows "in_bounds cs ps lo hi k \<longleftrightarrow> bounds_position cs ps lo hi k = 0"
  using assms
proof (induction cs ps lo hi arbitrary: k rule: bounds_ok.induct)
  case (1 a t d cs p ps lo hi)
  then show ?case
    by (auto simp: valid_key_Cons in_bounds_Cons key_cell_cell Let_def sgn_if split: if_splits)
next
  case (2 a t d cs lo hi)
  then show ?case
    by (auto simp: valid_key_Cons in_bounds_Nil key_cell_cell not_less not_le split: option.splits)
next
  case (3 ps lo hi)
  then show ?case by (simp add: in_bounds_Nil)
qed

text \<open>Positions grow along the index order.\<close>

lemma cell_mono:
  assumes "addon_ordered a t" "value_ok a t x" "value_ok a t y" "value_ok a t v"
    and "compare_cell a t x y \<le> 0"
  shows "sgn (compare_cell a t x v) \<le> sgn (compare_cell a t y v)"
  using cell_trans [OF assms(1,2,3,4,5)] cell_le_less [OF assms(1,2,3,4,5)]
  by (cases "compare_cell a t y v" "0::int" rule: linorder_cases) (auto simp: sgn_if)

lemma directed_mono:
  assumes "addon_ordered a t" "value_ok a t x" "value_ok a t y" "value_ok a t v"
    and "directed (a, t, d) x y \<le> 0"
  shows "directed (a, t, d) x v \<le> directed (a, t, d) y v"
proof (cases d)
  case True
  then have "compare_cell a t y x \<le> 0" using assms directed_sign [of a t x y d] by simp
  then show ?thesis using cell_mono [OF assms(1,3,2,4)] True by (simp add: directed_def)
next
  case False
  then have "compare_cell a t x y \<le> 0" using assms directed_sign [of a t x y d] by simp
  then show ?thesis using cell_mono [OF assms(1,2,3,4)] False by (simp add: directed_def)
qed

lemma bounds_position_Cons:
  assumes "\<not> is_null p"
  shows "bounds_position ((a, t, d) # cs) (p # ps) lo hi (k # ks) =
     (if directed (a, t, d) k p \<noteq> 0 then directed (a, t, d) k p else bounds_position cs ps lo hi ks)"
  using assms by (auto simp: directed_def key_cell_cell Let_def sgn_if)

lemma bounds_position_range: "bounds_position cs ps lo hi k \<in> {- 1, 0, 1}"
  by (induction cs ps lo hi k rule: bounds_position.induct) (auto simp: Let_def sgn_if)

lemma directed_range: "directed c x y \<in> {- 1, 0, 1}"
  by (auto simp: directed_def sgn_if split: prod.splits)

lemma bounds_position_Nil_mono:
  assumes "addon_ordered a t" "value_ok a t x" "value_ok a t y" "directed (a, t, d) x y \<le> 0"
    and "bounds_ok ((a, t, d) # cs) [] lo hi"
  shows "bounds_position ((a, t, d) # cs) [] lo hi (x # xs)
       \<le> bounds_position ((a, t, d) # cs) [] lo hi (y # ys)"
proof -
  have s: "sgn c \<le> sgn c' \<Longrightarrow> (0 < c \<longrightarrow> 0 < c') \<and> (c' < 0 \<longrightarrow> c < 0)" for c c' :: int
    by (auto simp: sgn_if split: if_splits)
  have m: "(0 < compare_cell a t u v \<longrightarrow> 0 < compare_cell a t w v)
       \<and> (compare_cell a t w v < 0 \<longrightarrow> compare_cell a t u v < 0)"
    if "value_ok a t v" "if d then u = y \<and> w = x else u = x \<and> w = y" for u v w
    using directed_mono [OF assms(1-3) that(1) assms(4)] that(2)
    by (intro s) (simp add: directed_def split: if_splits)
  show ?thesis
    using assms(5) m [of _ "if d then y else x" "if d then x else y"]
    by (cases d; cases lo; cases hi) (auto simp: key_cell_cell)
qed

lemma bounds_position_mono:
  assumes "columns_ordered cs" "bounds_ok cs ps lo hi" "valid_key cs x" "valid_key cs y"
    and "compare_columns cs x y \<le> 0"
  shows "bounds_position cs ps lo hi x \<le> bounds_position cs ps lo hi y"
  using assms
proof (induction cs ps lo hi arbitrary: x y rule: bounds_ok.induct)
  case (1 a t d cs p ps lo hi)
  obtain x1 xs y1 ys where k: "x = x1 # xs" "y = y1 # ys"
    and v: "value_ok a t x1" "value_ok a t y1" "valid_key cs xs" "valid_key cs ys"
    using "1.prems" by (auto simp: valid_key_Cons)
  have o: "addon_ordered a t" "columns_ordered cs" and p: "\<not> is_null p" "value_ok a t p"
    and b: "bounds_ok cs ps lo hi"
    using "1.prems" by simp_all
  let ?D = "directed (a, t, d)" and ?B = "bounds_position cs ps lo hi"
  have le: "?D x1 y1 \<le> 0" and tl: "?D x1 y1 = 0 \<Longrightarrow> compare_columns cs xs ys \<le> 0"
    using "1.prems"(5) unfolding k compare_columns_Cons by (auto split: if_splits)
  have m: "?D x1 p \<le> ?D y1 p" using directed_mono [OF o(1) v(1,2) p(2) le] .
  have "?B xs \<le> ?B ys" if z: "?D x1 p = 0" "?D y1 p = 0"
  proof -
    have "\<not> ?D x1 y1 < 0"
      using directed_less_le [OF o(1) v(1,2) p(2), of d] z by auto
    then show ?thesis using "1.IH" [OF o(2) b v(3,4)] le tl by simp
  qed
  then show ?case
    using m directed_range [of "(a, t, d)" x1 p] directed_range [of "(a, t, d)" y1 p]
      bounds_position_range [of cs ps lo hi xs] bounds_position_range [of cs ps lo hi ys]
    unfolding k bounds_position_Cons [OF p(1)] by fastforce
next
  case (2 a t d cs lo hi)
  obtain x1 xs y1 ys where k: "x = x1 # xs" "y = y1 # ys"
    and v: "value_ok a t x1" "value_ok a t y1"
    using "2.prems" by (auto simp: valid_key_Cons)
  have "directed (a, t, d) x1 y1 \<le> 0"
    using "2.prems"(5) unfolding k compare_columns_Cons by (auto split: if_splits)
  then show ?case
    using bounds_position_Nil_mono [OF _ v] "2.prems"(1,2) unfolding k by simp
next
  case (3 ps lo hi)
  then show ?case by simp
qed

section \<open>Bounded lookups\<close>

lemma filter_false: "(\<And>x. x \<in> set xs \<Longrightarrow> \<not> P x) \<Longrightarrow> filter P xs = []"
  by (simp add: filter_empty_conv)

text \<open>The lower and the upper bound alone decide which subtrees \<open>prefix_range\<close> visits.\<close>

lemma prefix_position:
  assumes "bounds_ok cs ps lo hi" "valid_key cs k"
  shows "compare_columns (take (length ps) cs) k ps \<noteq> 0 \<Longrightarrow>
      bounds_position cs ps lo hi k = compare_columns (take (length ps) cs) k ps"
    and "compare_columns (take (length ps) cs) k ps = 0 \<Longrightarrow>
      bounds_position cs ps lo hi k = bounds_position (drop (length ps) cs) [] lo hi (drop (length ps) k)"
  using assms
proof (induction cs ps lo hi arbitrary: k rule: bounds_ok.induct)
  case (1 a t d cs p ps lo hi)
  case 1
  with "1.IH" show ?case
    by (auto simp: valid_key_Cons bounds_position_Cons compare_columns_Cons
      simp del: bounds_position.simps compare_columns.simps(1) split: if_splits)
next
  case (1 a t d cs p ps lo hi)
  case 2
  with "1.IH" show ?case
    by (auto simp: valid_key_Cons bounds_position_Cons compare_columns_Cons
      simp del: bounds_position.simps compare_columns.simps(1) split: if_splits)
qed auto

lemma bounds_ok_tail:
  "bounds_ok cs ps lo hi \<Longrightarrow> length ps \<le> length cs \<and> bounds_ok (drop (length ps) cs) [] lo hi"
  by (induction cs ps lo hi rule: bounds_ok.induct) auto

lemma valid_key_length: "valid_key cs k \<Longrightarrow> length k = length cs"
  by (simp add: valid_key_def list_all2_lengthD)

lemma prefix_range_walk_Node:
  assumes "bounds_ok cs ps lo hi" "valid_key cs k"
  defines "L \<equiv> bounds_position cs ps lo None k" and "U \<equiv> bounds_position cs ps None hi k"
  shows "prefix_range_walk cs ps lo hi (Node k p l r h) =
     (if 0 \<le> L \<and> 0 \<le> U then prefix_range_walk cs ps lo hi l else [])
     @ (if L = 0 \<and> U = 0 then [p] else [])
     @ (if L \<le> 0 \<and> U \<le> 0 then prefix_range_walk cs ps lo hi r else [])"
proof -
  let ?c = "compare_columns (take (length ps) cs) k ps"
  note b = bounds_ok_drop [OF assms(1)]
  note P = prefix_position [OF b [THEN conjunct1] assms(2)] prefix_position [OF b [THEN conjunct2] assms(2)]
  show ?thesis
  proof (cases "?c = 0")
    case False
    then have "L = ?c" "U = ?c" using P by (auto simp: L_def U_def)
    then show ?thesis using False by (auto simp: Let_def)
  next
    case True
    let ?i = "length ps"
    have len: "length k = length cs" using assms(2) by (rule valid_key_length)
    show ?thesis
    proof (cases "?i < length cs")
      case False
      then have "lo = None" "hi = None" "drop ?i cs = []" using bounds_ok_tail [OF assms(1)] by auto
      then show ?thesis
        using True False P by (simp add: L_def U_def bound_lower_def bound_upper_def)
    next
      case i: True
      obtain a t d where c: "cs ! ?i = (a, t, d)" by (cases "cs ! ?i")
      have d: "drop ?i cs = (a, t, d) # drop (Suc ?i) cs" "drop ?i k = k ! ?i # drop (Suc ?i) k"
        using i len c Cons_nth_drop_Suc [of ?i cs] Cons_nth_drop_Suc [of ?i k] by simp_all
      have ok: "bounds_ok ((a, t, d) # drop (Suc ?i) cs) [] lo hi"
        using bounds_ok_tail [OF assms(1)] d(1) by simp
      have "L = bounds_position ((a, t, d) # drop (Suc ?i) cs) [] lo None (k ! ?i # drop (Suc ?i) k)"
        "U = bounds_position ((a, t, d) # drop (Suc ?i) cs) [] None hi (k ! ?i # drop (Suc ?i) k)"
        using P(2,4) True d by (simp_all add: L_def U_def)
      then show ?thesis
        using True ok i c
        by (cases lo; cases hi; cases d) (simp_all add: bound_lower_def bound_upper_def key_cell_cell not_le not_less)
    qed
  qed
qed

lemma prefix_range_walk_filter:
  assumes "columns_ordered cs" "bounds_ok cs ps lo hi"
    and "sorted_entries (compare_columns cs) (inorder t)" "\<forall>x \<in> set (inorder t). valid_key cs (fst x)"
  shows "prefix_range_walk cs ps lo hi t =
    map snd (filter (\<lambda>x. in_bounds cs ps lo hi (fst x)) (inorder t))"
  using assms(3,4)
proof (induction t)
  case Leaf
  then show ?case by simp
next
  case (Node k p l r h)
  note s = key.sorted_Node [OF Node.prems(1)]
  have v: "valid_key cs k" "\<forall>x \<in> set (inorder l). valid_key cs (fst x)"
    "\<forall>x \<in> set (inorder r). valid_key cs (fst x)"
    using Node.prems by auto
  note b = bounds_ok_drop [OF assms(2)]
  let ?L = "bounds_position cs ps lo None" and ?U = "bounds_position cs ps None hi"
  have split: "in_bounds cs ps lo hi x \<longleftrightarrow> ?L x = 0 \<and> ?U x = 0" if "valid_key cs x" for x
    using in_bounds_position [of cs ps lo None x] in_bounds_position [of cs ps None hi x] b that
    by (auto simp: in_bounds_def)
  have key_le: "compare_columns cs x y \<le> 0" if "entry_less (compare_columns cs) (x, p1) (y, p2)" for x y p1 p2
    using that by (auto simp: entry_less_def Let_def split: if_splits)
  have right: "?L k \<le> ?L (fst x)" "?U k \<le> ?U (fst x)" if "x \<in> set (inorder r)" for x
    using bounds_position_mono [OF assms(1) b [THEN conjunct1] v(1)]
      bounds_position_mono [OF assms(1) b [THEN conjunct2] v(1)] s(4) [OF that] v(3) that
      key_le [of k p "fst x" "snd x"] by auto
  have left: "?L (fst x) \<le> ?L k" "?U (fst x) \<le> ?U k" if "x \<in> set (inorder l)" for x
    using bounds_position_mono [OF assms(1) b [THEN conjunct1] _ v(1)]
      bounds_position_mono [OF assms(1) b [THEN conjunct2] _ v(1)] s(3) [OF that] v(2) that
      key_le [of "fst x" "snd x" k p] by auto
  have "filter (\<lambda>x. in_bounds cs ps lo hi (fst x)) (inorder l) = []" if "\<not> (0 \<le> ?L k \<and> 0 \<le> ?U k)"
    using that left split v(2) by (intro filter_false) fastforce
  moreover have "filter (\<lambda>x. in_bounds cs ps lo hi (fst x)) (inorder r) = []" if "\<not> (?L k \<le> 0 \<and> ?U k \<le> 0)"
    using that right split v(3) by (intro filter_false) fastforce
  ultimately show ?case
    using Node.IH s v split [OF v(1)]
    unfolding prefix_range_walk_Node [OF assms(2) v(1)] by auto
qed

end
