(* ===== verification/Index_Cursor.thy ===== *)
theory Index_Cursor
  imports Index_Bounds
begin

text \<open>
  The cursor \<open>OrderedIndex::Walk\<close> visits the entries within its bounds in
  index order or in reverse; \<open>range\<close> is a bounded lookup; \<open>validate\<close> accepts
  exactly the balanced sorted trees.
\<close>

section \<open>The cursor\<close>

text \<open>The entries a cursor still has to visit, in the order it visits them.\<close>

fun pending :: "bool \<Rightarrow> Link list \<Rightarrow> (Row \<times> RowLocation) list" where
  "pending rv [] = []"
| "pending rv (n # st) =
     (node_key n, node_location n)
       # (if rv then rev (inorder (node_left n)) else inorder (node_right n)) @ pending rv st"

definition directed_entries :: "bool \<Rightarrow> (Row \<times> RowLocation) list \<Rightarrow> (Row \<times> RowLocation) list" where
  "directed_entries rv es = (if rv then rev es else es)"

fun walk_take :: "nat \<Rightarrow> Walk \<Rightarrow> (Row \<times> RowLocation) list" where
  "walk_take 0 w = []"
| "walk_take (Suc n) w =
     (case next_entry w of
        (None, _) \<Rightarrow> []
      | (Some e, w') \<Rightarrow> e # walk_take n w')"

lemma pending_descend:
  "pending rv (walk_descend rv t st) = directed_entries rv (inorder t) @ pending rv st"
  by (induction rv t st rule: walk_descend.induct) (auto simp: directed_entries_def)

lemma walk_take_pending:
  "walk_take n w =
     take n (takeWhile (\<lambda>e. walk_position (walk_columns w) (walk_bounds w) (fst e) = 0)
       (pending (walk_reverse w) (walk_stack w)))"
proof (induction n arbitrary: w)
  case (Suc n)
  show ?case
  proof (cases "walk_stack w")
    case Nil
    then show ?thesis by (simp add: next_entry_def)
  next
    case (Cons m st)
    then show ?thesis
      by (simp add: next_entry_def Suc pending_descend directed_entries_def)
  qed
qed simp

lemma pending_seek:
  assumes "sorted_wrt (\<lambda>x y. pos (fst x) \<le> (pos (fst y) :: int)) (inorder t)"
  shows "pending rv (walk_seek pos rv t st) =
    directed_entries rv (filter (\<lambda>e. if rv then pos (fst e) \<le> 0 else 0 \<le> pos (fst e)) (inorder t))
      @ pending rv st"
  using assms
proof (induction t arbitrary: st)
  case (Node k p l r h)
  have s: "sorted_wrt (\<lambda>x y. pos (fst x) \<le> pos (fst y)) (inorder l)"
    "sorted_wrt (\<lambda>x y. pos (fst x) \<le> pos (fst y)) (inorder r)"
    and l: "\<And>x. x \<in> set (inorder l) \<Longrightarrow> pos (fst x) \<le> pos k"
    and r: "\<And>x. x \<in> set (inorder r) \<Longrightarrow> pos k \<le> pos (fst x)"
    using Node.prems by (auto simp: sorted_wrt_append)
  have f: "pos k < 0 \<Longrightarrow> filter (\<lambda>e. 0 \<le> pos (fst e)) (inorder l) = []"
    "0 \<le> pos k \<Longrightarrow> filter (\<lambda>e. 0 \<le> pos (fst e)) (inorder r) = inorder r"
    "0 < pos k \<Longrightarrow> filter (\<lambda>e. pos (fst e) \<le> 0) (inorder r) = []"
    "pos k \<le> 0 \<Longrightarrow> filter (\<lambda>e. pos (fst e) \<le> 0) (inorder l) = inorder l"
    using l r by (fastforce simp: filter_empty_conv filter_id_conv)+
  show ?case
    using Node.IH(1) [OF s(1)] Node.IH(2) [OF s(2)] f
    by (auto simp: Let_def directed_entries_def)
qed (simp add: directed_entries_def)

lemma takeWhile_filter_mono:
  assumes "sorted_wrt (\<lambda>x y. pos x \<le> (pos y :: int)) xs"
  shows "takeWhile (\<lambda>e. pos e = 0) (filter (\<lambda>e. 0 \<le> pos e) xs) = filter (\<lambda>e. pos e = 0) xs"
  using assms
proof (induction xs)
  case (Cons x xs)
  have "filter (\<lambda>e. pos e = 0) xs = []" if "0 < pos x"
    using that Cons.prems by (fastforce simp: filter_empty_conv)
  then show ?case using Cons by auto
qed simp

lemma takeWhile_rev_filter_mono:
  assumes "sorted_wrt (\<lambda>x y. pos x \<le> (pos y :: int)) xs"
  shows "takeWhile (\<lambda>e. pos e = 0) (rev (filter (\<lambda>e. pos e \<le> 0) xs)) = rev (filter (\<lambda>e. pos e = 0) xs)"
proof -
  have "sorted_wrt (\<lambda>x y. - pos x \<le> - pos y) (rev xs)"
    using assms by (simp add: sorted_wrt_rev)
  from takeWhile_filter_mono [OF this] show ?thesis by (simp add: rev_filter)
qed

lemma walk_position_mono:
  assumes "columns_ordered cs" "valid_key cs x" "valid_key cs y" "compare_columns cs x y \<le> 0"
    and "case b of None \<Rightarrow> True
      | Some b \<Rightarrow> bounds_ok cs (bounds_prefix b) (bounds_lower b) (bounds_upper b)"
  shows "walk_position cs b x \<le> walk_position cs b y"
  using assms bounds_position_mono by (cases b) (auto simp: walk_position_def)

lemma entry_less_le: "entry_less cmp x y \<Longrightarrow> cmp (fst x) (fst y) \<le> 0"
  by (auto simp: entry_less_def Let_def split: if_splits)

lemma walk_new_entries:
  assumes "columns_ordered cs" and cs: "cs = oi_key_columns x"
    and "sorted_entries (compare_columns cs) (inorder (oi_root x))"
    and "\<forall>e \<in> set (inorder (oi_root x)). valid_key cs (fst e)"
    and "case b of None \<Rightarrow> True
      | Some b \<Rightarrow> bounds_ok cs (bounds_prefix b) (bounds_lower b) (bounds_upper b)"
  shows "walk_take n (walk_new x rv b) =
    take n (directed_entries rv (filter (\<lambda>e. walk_position cs b (fst e) = 0) (inorder (oi_root x))))"
proof -
  let ?pos = "walk_position cs b"
  have s: "sorted_wrt (\<lambda>x y. ?pos (fst x) \<le> ?pos (fst y)) (inorder (oi_root x))"
    using assms(3) unfolding sorted_entries_def
    by (rule sorted_wrt_mono_rel [rotated])
      (use walk_position_mono [OF assms(1)] assms(4,5) entry_less_le in blast)
  show ?thesis
    using pending_seek [OF s, of rv "[]"] takeWhile_filter_mono [of "\<lambda>e. ?pos (fst e)", OF s]
      takeWhile_rev_filter_mono [of "\<lambda>e. ?pos (fst e)", OF s]
    by (simp add: walk_take_pending walk_new_def cs directed_entries_def)
qed

text \<open>\<open>range\<close> is the prefix lookup with an empty prefix.\<close>

lemma range_walk_prefix:
  assumes "cs \<noteq> []"
  shows "range_walk (hd cs) lo hi t = prefix_range_walk cs [] (Some lo) (Some hi) t"
proof -
  obtain a u d cs' where cs: "cs = (a, u, d) # cs'" using assms by (cases cs) auto
  show ?thesis
    by (induction t; cases d) (simp_all add: cs bound_lower_def bound_upper_def Let_def)
qed

context key_order
begin

lemma sorted_Node_iff:
  assumes "valid k" "\<forall>x \<in> set (inorder l). valid (fst x)" "\<forall>x \<in> set (inorder r). valid (fst x)"
  shows "sorted_entries cmp (inorder (Node k p l r h)) \<longleftrightarrow>
      sorted_entries cmp (inorder l) \<and> sorted_entries cmp (inorder r)
      \<and> (\<forall>x \<in> set (inorder l). entry_less cmp x (k, p)) \<and> (\<forall>x \<in> set (inorder r). entry_less cmp (k, p) x)"
proof -
  have "entry_less cmp x y" if "x \<in> set (inorder l)" "y \<in> set (inorder r)"
      "entry_less cmp x (k, p)" "entry_less cmp (k, p) y" for x y
    using entry_less_trans [of x "(k, p)" y] that assms by simp
  then show ?thesis
    by (auto simp: sorted_entries_def sorted_wrt_append)
qed

lemma validate_walk_iff:
  assumes "\<forall>x \<in> set (inorder t). valid (fst x)"
    and "\<forall>x \<in> set_option lo \<union> set_option hi. valid (fst x)"
  shows "validate_walk cmp w t lo hi = Inr n \<longleftrightarrow>
    avl t \<and> sorted_entries cmp (inorder t) \<and> n = length (inorder t)
    \<and> (\<forall>x \<in> set (inorder t). length (fst x) = w
        \<and> (\<forall>a \<in> set_option lo. entry_less cmp a x) \<and> (\<forall>b \<in> set_option hi. entry_less cmp x b))"
  using assms
proof (induction t arbitrary: lo hi n)
  case Leaf
  then show ?case by (auto simp: sorted_entries_def)
next
  case (Node k p l r h)
  have v: "valid k" "\<forall>x \<in> set (inorder l). valid (fst x)" "\<forall>x \<in> set (inorder r). valid (fst x)"
    using Node.prems by auto
  have IHl: "validate_walk cmp w l lo (Some (k, p)) = Inr m \<longleftrightarrow>
      avl l \<and> sorted_entries cmp (inorder l) \<and> m = length (inorder l)
    \<and> (\<forall>x \<in> set (inorder l). length (fst x) = w
        \<and> (\<forall>a \<in> set_option lo. entry_less cmp a x) \<and> entry_less cmp x (k, p))" for m
    using Node.IH(1) [OF v(2), of lo "Some (k, p)" m] Node.prems(2) v(1) by simp
  have IHr: "validate_walk cmp w r (Some (k, p)) hi = Inr m \<longleftrightarrow>
      avl r \<and> sorted_entries cmp (inorder r) \<and> m = length (inorder r)
    \<and> (\<forall>x \<in> set (inorder r). length (fst x) = w
        \<and> entry_less cmp (k, p) x \<and> (\<forall>b \<in> set_option hi. entry_less cmp x b))" for m
    using Node.IH(2) [OF v(3), of "Some (k, p)" hi m] Node.prems(2) v(1) by simp
  have lo_r: "entry_less cmp a x" if "a \<in> set_option lo" "entry_less cmp a (k, p)" "x \<in> set (inorder r)"
      "entry_less cmp (k, p) x" for a x
    using entry_less_trans [of a "(k, p)" x] that v Node.prems(2) by simp
  have hi_l: "entry_less cmp x b" if "b \<in> set_option hi" "entry_less cmp (k, p) b" "x \<in> set (inorder l)"
      "entry_less cmp x (k, p)" for b x
    using entry_less_trans [of x "(k, p)" b] that v Node.prems(2) by simp
  have step: "validate_walk cmp w (Node k p l r h) lo hi = Inr n \<longleftrightarrow>
      length k = w \<and> (\<forall>a \<in> set_option lo. entry_less cmp a (k, p))
      \<and> (\<forall>b \<in> set_option hi. entry_less cmp (k, p) b)
      \<and> h = 1 + max (height l) (height r) \<and> \<bar>height l - height r\<bar> \<le> 1
      \<and> (\<exists>a b. validate_walk cmp w l lo (Some (k, p)) = Inr a
           \<and> validate_walk cmp w r (Some (k, p)) hi = Inr b \<and> n = 1 + a + b)"
    by (cases lo; cases hi) (auto simp: bindE_Inr_iff not_less split: if_splits)
  show ?case (is "?A \<longleftrightarrow> ?B")
  proof
    assume ?A
    then show ?B
      unfolding step IHl IHr sorted_Node_iff [OF v] using lo_r hi_l by auto
  next
    assume ?B
    then show ?A
      unfolding step IHl IHr sorted_Node_iff [OF v] by auto
  qed
qed

end

end
