(* ===== verification/Ordered_Index_Spec.thy ===== *)
theory Ordered_Index_Spec
  imports Index_Cursor
begin

text \<open>
  The contract of the ordered index object of src/ordered_index.cpp: what each
  operation does to the sorted list of its entries, on every branch.
\<close>

section \<open>The index invariant\<close>

definition oi_entries :: "OrderedIndex \<Rightarrow> (Row \<times> RowLocation) list" where
  "oi_entries x = inorder (oi_root x)"

definition unique_entries ::
    "(Row \<Rightarrow> Row \<Rightarrow> int) \<Rightarrow> bool \<Rightarrow> (Row \<times> RowLocation) list \<Rightarrow> bool" where
  "unique_entries cmp u es \<longleftrightarrow>
     (u \<longrightarrow> sorted_wrt (\<lambda>a b. any_null (fst a) \<or> cmp (fst a) (fst b) \<noteq> 0) es)"

definition oi_inv :: "OrderedIndex \<Rightarrow> bool" where
  "oi_inv x \<longleftrightarrow>
     length (oi_key_columns x) = length (oi_columns x)
     \<and> avl (oi_root x)
     \<and> sorted_entries (oi_compare x) (oi_entries x)
     \<and> list_all (\<lambda>e. valid_key (oi_key_columns x) (fst e)) (oi_entries x)
     \<and> unique_entries (oi_compare x) (index_is_unique (oi_definition x)) (oi_entries x)"

context key_order
begin

lemma unique_insert_entry:
  assumes "unique_entries cmp u es" "\<forall>x \<in> set es. valid (fst x)" "valid (fst e)"
    and "\<not> duplicate_key cmp u (fst e) es"
  shows "unique_entries cmp u (insert_entry cmp e es)"
proof (cases u)
  case True
  let ?R = "\<lambda>a b. any_null (fst a) \<or> cmp (fst a) (fst b) \<noteq> 0"
  let ?t = "takeWhile (\<lambda>x. entry_less cmp x e) es" and ?d = "dropWhile (\<lambda>x. entry_less cmp x e) es"
  have "sorted_wrt ?R (?t @ ?d)" using assms(1) True by (simp add: unique_entries_def)
  then have "sorted_wrt ?R ?t \<and> sorted_wrt ?R ?d \<and> (\<forall>x \<in> set ?t. \<forall>y \<in> set ?d. ?R x y)"
    unfolding sorted_wrt_append .
  moreover have "?R e x \<and> ?R x e" if "x \<in> set es" for x
    using assms(2-4) that True nulls [of "fst x" "fst e"] anti [of "fst x" "fst e"]
    by (auto simp: duplicate_key_def)
  moreover have "set ?t \<subseteq> set es" "set ?d \<subseteq> set es"
    by (auto dest: set_takeWhileD set_dropWhileD)
  ultimately show ?thesis
    by (auto simp: unique_entries_def insert_entry_def sorted_wrt_append True)
qed (simp add: unique_entries_def)

end

lemma unique_filter: "unique_entries cmp u es \<Longrightarrow> unique_entries cmp u (filter P es)"
  by (simp add: unique_entries_def sorted_wrt_filter)

lemma sorted_filter: "sorted_entries cmp es \<Longrightarrow> sorted_entries cmp (filter P es)"
  by (simp add: sorted_entries_def sorted_wrt_filter)

lemma oi_root_update [simp]:
  "oi_key_columns (x\<lparr>oi_root := t\<rparr>) = oi_key_columns x"
  "oi_compare (x\<lparr>oi_root := t\<rparr>) = oi_compare x"
  "oi_entries (x\<lparr>oi_root := t\<rparr>) = inorder t"
  by (simp_all add: oi_key_columns_def oi_compare_def oi_descending_def oi_entries_def Let_def)

lemma oi_invD:
  assumes "oi_inv x"
  shows "avl (oi_root x)" "sorted_entries (compare_columns (oi_key_columns x)) (inorder (oi_root x))"
    "\<forall>e \<in> set (inorder (oi_root x)). valid_key (oi_key_columns x) (fst e)"
    "length (oi_key_columns x) = length (oi_columns x)"
  using assms by (auto simp: oi_inv_def oi_compare_def oi_entries_def list_all_iff)

section \<open>Operations\<close>

text \<open>
  C3. Inserting a row into an ordered index puts its key and location at their
  place in the sorted entries and keeps the index balanced, sorted and unique.
  The insertion is refused exactly when a unique index already holds the same
  key without NULLs (constraint error), or the very entry is already there
  (state error).
\<close>

theorem oi_insert_correct:
  assumes "columns_ordered (oi_key_columns x)" and "oi_inv x"
    and "valid_key (oi_key_columns x) (oi_key x row)"
  shows "case oi_insert x row p of
      Inr x' \<Rightarrow> oi_inv x'
        \<and> oi_entries x' = insert_entry (oi_compare x) (oi_key x row, p) (oi_entries x)
        \<and> \<not> duplicate_key (oi_compare x) (index_is_unique (oi_definition x)) (oi_key x row) (oi_entries x)
    | Inl e \<Rightarrow>
        if duplicate_key (oi_compare x) (index_is_unique (oi_definition x)) (oi_key x row) (oi_entries x)
        then e = E_constraint
        else e = E_state \<and> (\<exists>y \<in> set (oi_entries x). same_entry (oi_compare x) (oi_key x row, p) y)"
proof -
  let ?cs = "oi_key_columns x" and ?u = "index_is_unique (oi_definition x)" and ?k = "oi_key x row"
  note I = oi_invD [OF assms(2)]
  have v: "\<forall>e \<in> set (inorder (oi_root x)). columns_ordered ?cs \<and> valid_key ?cs (fst e)"
    "columns_ordered ?cs \<and> valid_key ?cs ?k"
    using I(3) assms by auto
  note R = key.insert_result [OF I(2) v, of ?u p]
  show ?thesis
  proof (cases "avl_insert (compare_columns ?cs) ?u (oi_root x) ?k p")
    case (Inl e)
    show ?thesis
      using R [THEN iffD1, OF Inl] Inl by (simp add: oi_insert_def oi_compare_def oi_entries_def)
  next
    case (Inr t)
    then have dup: "\<not> duplicate_key (compare_columns ?cs) ?u ?k (inorder (oi_root x))"
      and new: "\<forall>y \<in> set (inorder (oi_root x)). \<not> same_entry (compare_columns ?cs) (?k, p) y"
      using R [of E_constraint] R [of E_state] by (auto split: if_splits)
    have ino: "inorder t = insert_entry (compare_columns ?cs) (?k, p) (inorder (oi_root x))"
      by (rule key.inorder_insert [OF I(1,2) v Inr])
    have "oi_inv (x\<lparr>oi_root := t\<rparr>)"
      using assms(2) avl_insert_avl [OF I(1) Inr] key.sorted_insert_entry [OF I(2) v(1) _ new]
        key.unique_insert_entry [of ?cs ?u "inorder (oi_root x)" "(?k, p)"] v dup
      by (auto simp: oi_inv_def ino oi_compare_def oi_entries_def list_all_iff key.set_insert_entry)
    then show ?thesis
      using Inr dup ino by (simp add: oi_insert_def oi_compare_def oi_entries_def)
  qed
qed

text \<open>
  C11. Erasing a row removes exactly the entry with its key and location and
  keeps the index invariant; it fails with a state error exactly when the
  index holds no such entry.
\<close>

theorem oi_erase_correct:
  assumes "columns_ordered (oi_key_columns x)" and "oi_inv x"
    and "valid_key (oi_key_columns x) (oi_key x row)"
  shows "case oi_erase x row p of
      Inr x' \<Rightarrow> oi_inv x'
        \<and> oi_entries x' = filter (\<lambda>y. \<not> same_entry (oi_compare x) (oi_key x row, p) y) (oi_entries x)
        \<and> (\<exists>y \<in> set (oi_entries x). same_entry (oi_compare x) (oi_key x row, p) y)
    | Inl e \<Rightarrow> e = E_state
        \<and> (\<forall>y \<in> set (oi_entries x). \<not> same_entry (oi_compare x) (oi_key x row, p) y)"
proof -
  let ?cs = "oi_key_columns x" and ?k = "oi_key x row"
  note I = oi_invD [OF assms(2)]
  have v: "\<forall>e \<in> set (inorder (oi_root x)). columns_ordered ?cs \<and> valid_key ?cs (fst e)"
    "columns_ordered ?cs \<and> valid_key ?cs ?k"
    using I(3) assms by auto
  note R = key.erase_result [OF I(1,2) v, of p, unfolded key.erases_def]
  show ?thesis
  proof (cases "\<exists>y \<in> set (inorder (oi_root x)). same_entry (compare_columns ?cs) (?k, p) y")
    case True
    then obtain t where t: "avl_erase (compare_columns ?cs) (oi_root x) ?k p = Inr t"
        "inorder t = filter (\<lambda>y. \<not> same_entry (compare_columns ?cs) (?k, p) y) (inorder (oi_root x))"
      using R by auto
    have "oi_inv (x\<lparr>oi_root := t\<rparr>)"
      using assms(2) avl_erase_avl [OF I(1) t(1)]
      by (auto simp: oi_inv_def t(2) oi_compare_def oi_entries_def list_all_iff sorted_filter unique_filter)
    then show ?thesis
      using True t by (simp add: oi_erase_def oi_compare_def oi_entries_def)
  next
    case False
    then show ?thesis
      using R by (simp add: oi_erase_def oi_compare_def oi_entries_def)
  qed
qed

text \<open>
  C12. An equality lookup returns, in index order, the locations of exactly the
  entries whose key compares equal; a key of the wrong width is a schema error.
\<close>

theorem oi_equal_correct:
  assumes "columns_ordered (oi_key_columns x)" and "oi_inv x"
    and "valid_key (oi_key_columns x) k"
  shows "oi_equal x k = Inr (map snd (filter (\<lambda>y. oi_compare x k (fst y) = 0) (oi_entries x)))
    \<and> (length k' \<noteq> length (oi_columns x) \<longrightarrow> oi_equal x k' = Inl E_schema)"
proof -
  note I = oi_invD [OF assms(2)]
  have "equal_walk (compare_columns (oi_key_columns x)) k (oi_root x) =
      map snd (filter (\<lambda>y. compare_columns (oi_key_columns x) k (fst y) = 0) (inorder (oi_root x)))"
    using key.equal_walk_filter [OF I(2), of k] I(3) assms by simp
  then show ?thesis
    using I(4) valid_key_length [OF assms(3)]
    by (simp add: oi_equal_def oi_compare_def oi_entries_def ensure_def)
qed

text \<open>
  C13. A bounded lookup, \<open>prefix_range\<close> and for the leading column \<open>range\<close>,
  returns in index order the locations of exactly the entries whose leading
  columns equal the prefix and whose next column lies within the inclusive
  bounds, for ascending and descending columns alike.
\<close>

theorem oi_prefix_range_correct:
  assumes "columns_ordered (oi_key_columns x)" and "oi_inv x"
    and "bounds_ok (oi_key_columns x) prefix lo hi"
  shows "oi_prefix_range x prefix lo hi =
      Inr (map snd (filter (\<lambda>y. in_bounds (oi_key_columns x) prefix lo hi (fst y)) (oi_entries x)))
    \<and> (prefix = [] \<and> lo = Some v \<and> hi = Some w \<and> oi_columns x \<noteq> [] \<longrightarrow>
        oi_range x v w =
        map snd (filter (\<lambda>y. in_bounds (oi_key_columns x) [] (Some v) (Some w) (fst y)) (oi_entries x)))"
proof -
  note I = oi_invD [OF assms(2)]
  note F = prefix_range_walk_filter [OF assms(1,3) I(2,3)]
  have "length prefix \<le> length (oi_columns x)"
    "length prefix = length (oi_columns x) \<Longrightarrow> lo = None \<and> hi = None"
    using bounds_ok_tail [OF assms(3)] I(4) by auto
  then have "oi_prefix_range x prefix lo hi =
      Inr (map snd (filter (\<lambda>y. in_bounds (oi_key_columns x) prefix lo hi (fst y)) (oi_entries x)))"
    using F by (auto simp: oi_prefix_range_def oi_entries_def ensure_def)
  moreover have "oi_columns x \<noteq> [] \<Longrightarrow> oi_key_columns x \<noteq> []"
    using I(4) by auto
  ultimately show ?thesis
    using F range_walk_prefix [of "oi_key_columns x" v w "oi_root x"]
    by (auto simp: oi_range_def oi_entries_def)
qed

text \<open>
  C14. A cursor opened on an ordered index returns, call by call, the entries
  within its bounds in index order, or in the opposite order when it is a
  reverse cursor; after the last one it returns nothing.
\<close>

theorem oi_walk_correct:
  assumes "columns_ordered (oi_key_columns x)" and "oi_inv x"
    and "bounds_ok (oi_key_columns x) (bounds_prefix b) (bounds_lower b) (bounds_upper b)"
  shows "walk_take n (walk_new x rv (Some b)) =
    take n (directed_entries rv
      (filter (\<lambda>y. in_bounds (oi_key_columns x) (bounds_prefix b) (bounds_lower b) (bounds_upper b) (fst y))
        (oi_entries x)))
    \<and> walk_take n (walk_new x rv None) = take n (directed_entries rv (oi_entries x))"
proof -
  note I = oi_invD [OF assms(2)]
  have "filter (\<lambda>e. walk_position (oi_key_columns x) (Some b) (fst e) = 0) (inorder (oi_root x)) =
    filter (\<lambda>y. in_bounds (oi_key_columns x) (bounds_prefix b) (bounds_lower b) (bounds_upper b) (fst y))
      (inorder (oi_root x))"
    using in_bounds_position [OF assms(3)] I(3) by (auto simp: walk_position_def intro: filter_cong)
  then show ?thesis
    using walk_new_entries [OF assms(1) refl I(2,3), of "Some b" n rv]
      walk_new_entries [OF assms(1) refl I(2,3), of None n rv] assms(3)
    by (simp add: oi_entries_def walk_position_def)
qed

text \<open>
  C15. \<open>validate\<close> accepts an index exactly when its tree is height-balanced
  with correct stored heights and its entries are strictly sorted, and then
  returns the number of entries.
\<close>

theorem oi_validate_exact:
  assumes "columns_ordered (oi_key_columns x)"
    and "length (oi_key_columns x) = length (oi_columns x)"
    and "list_all (\<lambda>e. valid_key (oi_key_columns x) (fst e)) (oi_entries x)"
  shows "oi_validate x = Inr n \<longleftrightarrow>
    avl (oi_root x) \<and> sorted_entries (oi_compare x) (oi_entries x) \<and> n = length (oi_entries x)"
proof -
  have v: "\<forall>e \<in> set (inorder (oi_root x)). columns_ordered (oi_key_columns x)
      \<and> valid_key (oi_key_columns x) (fst e)"
    using assms by (auto simp: oi_entries_def list_all_iff)
  then have "\<forall>e \<in> set (inorder (oi_root x)). length (fst e) = length (oi_columns x)"
    using assms(2) valid_key_length by fastforce
  then show ?thesis
    using key.validate_walk_iff [OF v, of None None "length (oi_columns x)" n]
    by (auto simp: oi_validate_def oi_compare_def oi_entries_def)
qed

section \<open>A sample index\<close>

text \<open>A unique descending index on one INTEGER column, with two rows.\<close>

definition sample_index :: OrderedIndex where
  "sample_index =
     \<lparr>oi_root = node [VInt 9] (RowLocation 0 1) Leaf (node [VInt 5] (RowLocation 0 0) Leaf Leaf),
      oi_addons = [scalar_integer (\<lambda>_. 0)], oi_types = [integer_type],
      oi_definition = \<lparr>index_name = ''i'', index_columns = [''a''], index_is_unique = True,
        index_descending = [True], index_constraint_owned = False\<rparr>,
      oi_columns = [0]\<rparr>"

lemma sample_columns:
  "oi_key_columns sample_index = [(scalar_integer (\<lambda>_. 0), integer_type, True)]"
  by (simp add: sample_index_def oi_key_columns_def oi_descending_def)

lemma sample_ordered: "columns_ordered (oi_key_columns sample_index)"
  by (simp add: sample_columns scalar_integer_ordered)

lemma sample_value: "value_ok (scalar_integer (\<lambda>_. 0)) integer_type (VInt v)"
  by (simp add: value_ok_def check_value_def holds_layout_def scalar_integer_def is_null_def)

lemma sample_entries:
  "oi_entries sample_index = [([VInt 9], RowLocation 0 1), ([VInt 5], RowLocation 0 0)]"
  by (simp add: sample_index_def oi_entries_def)

lemma sample_compare:
  "oi_compare sample_index [VInt a] [VInt b] = three_way (sint a < sint b) (sint b < sint a)"
  by (simp add: oi_compare_def sample_columns compare_cell_def is_null_def scalar_integer_def
      three_way_def Let_def)

lemma sample_sel:
  "oi_columns sample_index = [0]" "index_is_unique (oi_definition sample_index)"
  "avl (oi_root sample_index)" "oi_key sample_index [v] = [v]"
  by (simp_all add: sample_index_def node_def oi_key_def)

lemma sample_inv: "oi_inv sample_index"
  unfolding oi_inv_def sample_entries
  by (simp add: sample_columns sample_sel sample_value sorted_entries_def unique_entries_def
      entry_less_def sample_compare three_way_def any_null_def is_null_def)

lemma sample_key: "valid_key (oi_key_columns sample_index) [VInt v]"
  by (simp add: sample_columns sample_value)

lemmas sample_facts = sample_ordered sample_inv sample_entries sample_sel sample_compare sample_key

theorem oi_insert_correct_witness:
  "(\<exists>x'. oi_insert sample_index [VInt 7] (RowLocation 1 0) = Inr x' \<and> oi_inv x'
      \<and> map snd (oi_entries x') = [RowLocation 0 1, RowLocation 1 0, RowLocation 0 0])
   \<and> oi_insert sample_index [VInt 5] (RowLocation 1 0) = Inl E_constraint"
proof -
  have v: "valid_key (oi_key_columns sample_index) (oi_key sample_index [VInt a])" for a
    by (simp add: sample_sel sample_key)
  note ok = oi_insert_correct [OF sample_ordered sample_inv v, of _ "RowLocation 1 0"]
  have "\<not> duplicate_key (oi_compare sample_index) True [VInt 7] (oi_entries sample_index)"
    "\<not> (\<exists>y \<in> set (oi_entries sample_index). same_entry (oi_compare sample_index) ([VInt 7], RowLocation 1 0) y)"
    "duplicate_key (oi_compare sample_index) True [VInt 5] (oi_entries sample_index)"
    by (simp_all add: duplicate_key_def same_entry_def sample_facts three_way_def any_null_def is_null_def)
  then show ?thesis
    using ok [of 7] ok [of 5]
    by (auto simp: sample_facts insert_entry_def entry_less_def three_way_def split: sum.splits)
qed

theorem oi_erase_correct_witness:
  "(\<exists>x'. oi_erase sample_index [VInt 9] (RowLocation 0 1) = Inr x' \<and> oi_inv x'
      \<and> oi_entries x' = [([VInt 5], RowLocation 0 0)])
   \<and> oi_erase sample_index [VInt 7] (RowLocation 0 1) = Inl E_state"
proof -
  have v: "valid_key (oi_key_columns sample_index) (oi_key sample_index [VInt a])" for a
    by (simp add: sample_sel sample_key)
  note ok = oi_erase_correct [OF sample_ordered sample_inv v, of _ "RowLocation 0 1"]
  show ?thesis
    using ok [of 9] ok [of 7]
    by (auto simp: sample_facts same_entry_def three_way_def split: sum.splits)
qed

theorem oi_equal_correct_witness:
  "oi_equal sample_index [VInt 9] = Inr [RowLocation 0 1] \<and> oi_equal sample_index [] = Inl E_schema"
  using oi_equal_correct [OF sample_ordered sample_inv sample_key, of 9 "[]"]
  by (simp add: sample_facts three_way_def)

lemma sample_cell:
  "compare_cell (scalar_integer (\<lambda>_. 0)) integer_type (VInt a) (VInt b) =
     three_way (sint b < sint a) (sint a < sint b)"
  by (simp add: compare_cell_def is_null_def scalar_integer_def)

theorem oi_prefix_range_correct_witness:
  "oi_prefix_range sample_index [] (Some (VInt 4)) (Some (VInt 6)) = Inr [RowLocation 0 0]
   \<and> oi_range sample_index (VInt 4) (VInt 6) = [RowLocation 0 0]"
proof -
  have b: "bounds_ok (oi_key_columns sample_index) [] (Some (VInt 4)) (Some (VInt 6))"
    by (simp add: sample_columns sample_value is_null_def)
  show ?thesis
    using oi_prefix_range_correct [OF sample_ordered sample_inv b, of "VInt 4" "VInt 6"]
    by (simp add: sample_facts sample_columns in_bounds_def sample_cell three_way_def)
qed

theorem oi_walk_correct_witness:
  "walk_take 5 (walk_new sample_index True
      (Some \<lparr>bounds_prefix = [], bounds_lower = Some (VInt 6), bounds_upper = None\<rparr>)) =
     [([VInt 9], RowLocation 0 1)]
   \<and> map snd (walk_take 5 (walk_new sample_index True None)) = [RowLocation 0 0, RowLocation 0 1]"
proof -
  let ?b = "\<lparr>bounds_prefix = [], bounds_lower = Some (VInt 6), bounds_upper = None\<rparr>"
  have b: "bounds_ok (oi_key_columns sample_index) (bounds_prefix ?b) (bounds_lower ?b) (bounds_upper ?b)"
    by (simp add: sample_columns sample_value is_null_def)
  show ?thesis
    using oi_walk_correct [OF sample_ordered sample_inv b, of 5 True]
    by (simp add: sample_facts sample_columns in_bounds_def sample_cell three_way_def directed_entries_def)
qed

theorem oi_validate_exact_witness: "oi_validate sample_index = Inr 2"
  using oi_validate_exact [OF sample_ordered, of 2] sample_inv
  by (simp add: oi_inv_def sample_entries)

end
