(* ===== verification/Sorted_Keys.thy ===== *)
theory Sorted_Keys
  imports Prelude
begin

text \<open>
  Lists and association lists sorted by a key: the effect of inserting,
  updating and removing at the position a binary search returns.
\<close>

definition insert_at :: "nat \<Rightarrow> 'a \<Rightarrow> 'a list \<Rightarrow> 'a list" where
  "insert_at i x xs = take i xs @ x # drop i xs"

definition remove_at :: "nat \<Rightarrow> 'a list \<Rightarrow> 'a list" where
  "remove_at i xs = take i xs @ drop (Suc i) xs"


section \<open>Sorted keys and lower bounds\<close>

lemma insert_at_props:
  assumes "i \<le> length xs"
  shows "set (insert_at i x xs) = insert x (set xs)" "length (insert_at i x xs) = Suc (length xs)"
proof -
  have "set (take i xs) \<union> set (drop i xs) = set xs" by (metis append_take_drop_id set_append)
  then show "set (insert_at i x xs) = insert x (set xs)" by (auto simp: insert_at_def)
  show "length (insert_at i x xs) = Suc (length xs)" using assms by (simp add: insert_at_def)
qed

lemma map_insert_at: "map f (insert_at i x xs) = insert_at i (f x) (map f xs)"
  by (simp add: insert_at_def take_map drop_map)

lemma map_remove_at: "map f (remove_at i xs) = remove_at i (map f xs)"
  by (simp add: remove_at_def take_map drop_map)

lemma lower_bound_split:
  fixes f :: "'a \<Rightarrow> 'k::linorder"
  assumes "sorted_wrt (\<lambda>x y. f x < f y) xs"
    and i_def: "i = lower_bound (\<lambda>x. f x < k) xs"
  shows "i \<le> length xs" "\<And>x. x \<in> set (take i xs) \<Longrightarrow> f x < k" "\<And>x. x \<in> set (drop i xs) \<Longrightarrow> k \<le> f x"
proof -
  show "i \<le> length xs" by (simp add: i_def lower_bound_le)
  have t: "take i xs = takeWhile (\<lambda>x. f x < k) xs"
    unfolding i_def lower_bound_def by (rule takeWhile_eq_take [symmetric])
  then show "\<And>x. x \<in> set (take i xs) \<Longrightarrow> f x < k" by (auto dest: set_takeWhileD)
  have "drop i xs = dropWhile (\<lambda>x. f x < k) xs"
    unfolding i_def lower_bound_def by (rule dropWhile_eq_drop [symmetric])
  moreover have "k \<le> f x" if "x \<in> set (dropWhile (\<lambda>x. f x < k) xs)" for x
    using assms(1) that by (induction xs) (fastforce split: if_splits)+
  ultimately show "\<And>x. x \<in> set (drop i xs) \<Longrightarrow> k \<le> f x" by simp
qed

lemma lower_bound_absent:
  fixes f :: "'a \<Rightarrow> 'k::linorder"
  assumes "sorted_wrt (\<lambda>x y. f x < f y) xs"
    and "i = lower_bound (\<lambda>x. f x < k) xs" and "i = length xs \<or> f (xs ! i) \<noteq> k"
  shows "k \<notin> f ` set xs"
proof
  note L = lower_bound_split [OF assms(1,2)]
  assume "k \<in> f ` set xs"
  then obtain x where x: "x \<in> set xs" "f x = k" by auto
  then have "x \<in> set (drop i xs)"
    using L(2) [of x] by (metis Un_iff append_take_drop_id less_irrefl set_append)
  then obtain j where j: "i + j < length xs" "xs ! (i + j) = x"
    by (fastforce simp: in_set_conv_nth add.commute less_diff_conv)
  have "j = 0"
  proof (rule ccontr)
    assume "j \<noteq> 0"
    then have "f (xs ! i) < f (xs ! (i + j))" using assms(1) j by (auto simp: sorted_wrt_iff_nth_less)
    moreover have "k \<le> f (xs ! i)" using L(3) [of "xs ! i"] j by (metis Cons_nth_drop_Suc add_lessD1 list.set_intros(1))
    ultimately show False using x j by simp
  qed
  then show False using assms(3) j x by auto
qed

lemma sorted_insert_at:
  fixes f :: "'a \<Rightarrow> 'k::linorder"
  assumes "sorted_wrt (\<lambda>x y. f x < f y) xs"
    and "i = lower_bound (\<lambda>y. f y < f x) xs" and "f x \<notin> f ` set xs"
  shows "sorted_wrt (\<lambda>x y. f x < f y) (insert_at i x xs)"
proof -
  note L = lower_bound_split [OF assms(1,2)]
  have "sorted_wrt (\<lambda>x y. f x < f y) (take i xs @ drop i xs)" using assms(1) by simp
  then have "sorted_wrt (\<lambda>x y. f x < f y) (take i xs) \<and> sorted_wrt (\<lambda>x y. f x < f y) (drop i xs)
      \<and> (\<forall>a \<in> set (take i xs). \<forall>b \<in> set (drop i xs). f a < f b)"
    unfolding sorted_wrt_append .
  moreover have "f x < f y" if "y \<in> set (drop i xs)" for y
    using L(3) [OF that] assms(3) that by (metis image_eqI in_set_dropD nless_le)
  ultimately show ?thesis
    using L(2) by (auto simp: insert_at_def sorted_wrt_append)
qed

lemma sorted_update:
  fixes f :: "'a \<Rightarrow> 'k::linorder"
  assumes "sorted_wrt (\<lambda>x y. f x < f y) xs" "i < length xs" "f x = f (xs ! i)"
  shows "sorted_wrt (\<lambda>x y. f x < f y) (xs[i := x])"
  using assms by (auto simp: sorted_wrt_iff_nth_less nth_list_update)

lemma sorted_remove_at:
  fixes f :: "'a \<Rightarrow> 'k::linorder"
  assumes "sorted_wrt (\<lambda>x y. f x < f y) xs"
  shows "sorted_wrt (\<lambda>x y. f x < f y) (remove_at i xs)"
proof -
  have "sorted_wrt (\<lambda>x y. f x < f y) (take i xs @ drop i xs)" using assms by simp
  then have "sorted_wrt (\<lambda>x y. f x < f y) (take i xs) \<and> sorted_wrt (\<lambda>x y. f x < f y) (drop i xs)
      \<and> (\<forall>a \<in> set (take i xs). \<forall>b \<in> set (drop i xs). f a < f b)"
    unfolding sorted_wrt_append .
  moreover have "drop (Suc i) xs = tl (drop i xs)" by (simp add: drop_Suc tl_drop)
  ultimately show ?thesis
    by (cases "drop i xs") (auto simp: remove_at_def sorted_wrt_append)
qed

text \<open>Association lists sorted by key.\<close>

definition sorted_keys :: "('k::linorder \<times> 'v) list \<Rightarrow> bool" where
  "sorted_keys es = sorted_wrt (\<lambda>x y. fst x < fst y) es"

lemma sorted_keys_distinct: "sorted_keys es \<Longrightarrow> distinct (map fst es)"
  by (induction es) (auto simp: sorted_keys_def)

lemma map_of_insert_at:
  assumes "fst e \<notin> fst ` set es"
  shows "map_of (insert_at i e es) = (map_of es)(fst e \<mapsto> snd e)"
proof
  fix k
  have es: "map_of es k = (map_of (drop i es) ++ map_of (take i es)) k"
    by (simp add: map_of_append [symmetric])
  have n: "map_of (take i es) (fst e) = None"
    using assms by (auto simp: map_of_eq_None_iff dest: in_set_takeD)
  show "map_of (insert_at i e es) k = ((map_of es)(fst e \<mapsto> snd e)) k"
    by (cases e; cases "map_of (take i es) k")
      (use n es in \<open>auto simp: insert_at_def map_of_append map_add_def\<close>)
qed

lemma map_of_update:
  assumes "distinct (map fst es)" "i < length es" "fst (es ! i) = fst e"
  shows "map_of (es[i := e]) = (map_of es)(fst e \<mapsto> snd e)"
proof
  fix k
  have d: "distinct (map fst (es[i := e]))"
    using assms by (metis length_map list_update_id map_update nth_map)
  show "map_of (es[i := e]) k = ((map_of es)(fst e \<mapsto> snd e)) k"
  proof (cases "k = fst e")
    case True
    have "(fst e, snd e) \<in> set (es[i := e])" using assms(2) by (simp add: set_update_memI)
    then show ?thesis using True map_of_eq_Some_iff [OF d] by simp
  next
    case False
    have "(k, v) \<in> set (es[i := e]) \<longleftrightarrow> (k, v) \<in> set es" for v
      using assms False by (auto simp: in_set_conv_nth nth_list_update) (metis fst_conv)+
    then show ?thesis
      using False map_of_eq_Some_iff [OF d] map_of_eq_Some_iff [OF assms(1)]
      by (metis fun_upd_other not_Some_eq)
  qed
qed

lemma remove_at_filter:
  assumes "distinct (map fst es)" "i < length es"
  shows "remove_at i es = filter (\<lambda>e. fst e \<noteq> fst (es ! i)) es"
  using assms
proof (induction es arbitrary: i)
  case (Cons e es)
  show ?case
  proof (cases i)
    case 0
    have "\<forall>x \<in> set es. fst x \<noteq> fst e"
      using Cons.prems(1) by (metis distinct.simps(2) image_eqI list.simps(9) set_map)
    then have "filter (\<lambda>x. fst x \<noteq> fst e) es = es" by (simp add: filter_id_conv)
    then show ?thesis using 0 by (simp add: remove_at_def)
  next
    case (Suc j)
    then have "es ! j \<in> set es" using Cons.prems(2) by simp
    then have "fst e \<noteq> fst (es ! j)"
      using Cons.prems(1) by (metis distinct.simps(2) image_eqI list.simps(9) set_map)
    then show ?thesis using Suc Cons.IH [of j] Cons.prems by (simp add: remove_at_def)
  qed
qed simp

lemma map_of_filter_key: "map_of (filter (\<lambda>e. fst e \<noteq> k) es) = (map_of es)(k := None)"
  by (induction es) (auto simp: fun_eq_iff)

end
