(* ===== verification/Chunk_Map.thy ===== *)
theory Chunk_Map
  imports Rows Sorted_Keys
begin

text \<open>
  The copy-on-write chunk directory of src/chunk_map.hpp and src/chunk_map.cpp.

  Blocks live in a heap with the reference counts of their shared pointers, so
  that sharing between the directories of several snapshots, and the identity
  test of \<open>changes_from\<close>, are those of the code. The type variable stands for a
  non-null \<open>ChunkRef\<close>; a null reference is \<open>None\<close>. The size cache holds
  \<open>None\<close> for \<open>unknown_size\<close>. Sizes are natural numbers.
\<close>

section \<open>Blocks and the heap\<close>

record 'c Block =
  block_number :: u64
  block_entries :: "(u64 \<times> 'c option) list"
  block_encoded :: "nat option"

record 'c Heap =
  heap_next :: nat
  heap_block :: "nat \<Rightarrow> 'c Block"
  heap_count :: "nat \<Rightarrow> nat"

record ChunkMap =
  cm_blocks :: "nat list"
  cm_size :: nat

definition block_size :: u64 where
  "block_size = 64"

definition new_block :: "u64 \<Rightarrow> 'c Block" where
  "new_block n = \<lparr>block_number = n, block_entries = [], block_encoded = None\<rparr>"

definition copy_block :: "'c Block \<Rightarrow> 'c Block" where
  "copy_block b = (new_block (block_number b))\<lparr>block_entries := block_entries b\<rparr>"

definition make_shared :: "'c Block \<Rightarrow> 'c Heap \<Rightarrow> nat \<times> 'c Heap" where
  "make_shared b h =
     (heap_next h,
      h\<lparr>heap_next := Suc (heap_next h),
        heap_block := (heap_block h)(heap_next h := b),
        heap_count := (heap_count h)(heap_next h := 1)\<rparr>)"

definition release :: "nat \<Rightarrow> 'c Heap \<Rightarrow> 'c Heap" where
  "release a h = h\<lparr>heap_count := (heap_count h)(a := heap_count h a - 1)\<rparr>"

definition modify :: "nat \<Rightarrow> ('c Block \<Rightarrow> 'c Block) \<Rightarrow> 'c Heap \<Rightarrow> 'c Heap" where
  "modify a f h = h\<lparr>heap_block := (heap_block h)(a := f (heap_block h a))\<rparr>"

definition empty_map :: ChunkMap where
  "empty_map = \<lparr>cm_blocks = [], cm_size = 0\<rparr>"

text \<open>Copying a directory copies its pointers.\<close>

definition cm_copy :: "'c Heap \<Rightarrow> ChunkMap \<Rightarrow> 'c Heap \<times> ChunkMap" where
  "cm_copy h m =
     (fold (\<lambda>a h. h\<lparr>heap_count := (heap_count h)(a := heap_count h a + 1)\<rparr>) (cm_blocks m) h, m)"

section \<open>Operations\<close>

definition position_of :: "'c Heap \<Rightarrow> ChunkMap \<Rightarrow> u64 \<Rightarrow> nat" where
  "position_of h m cid =
     lower_bound (\<lambda>a. block_number (heap_block h a) < cid div block_size) (cm_blocks m)"

definition entry_position :: "'c Block \<Rightarrow> u64 \<Rightarrow> nat" where
  "entry_position b cid = lower_bound (\<lambda>e. fst e < cid) (block_entries b)"

definition block_at :: "'c Heap \<Rightarrow> ChunkMap \<Rightarrow> nat \<Rightarrow> 'c Block" where
  "block_at h m i = heap_block h (cm_blocks m ! i)"

definition forget_size :: "'c Block \<Rightarrow> 'c Block" where
  "forget_size b = b\<lparr>block_encoded := None\<rparr>"

definition cm_writable :: "'c Heap \<Rightarrow> ChunkMap \<Rightarrow> nat \<Rightarrow> 'c Heap \<times> ChunkMap" where
  "cm_writable h m i =
     (let a = cm_blocks m ! i;
          (h, m) = (if heap_count h a \<noteq> 1 then
                      (case make_shared (copy_block (heap_block h a)) h of
                         (a', h) \<Rightarrow> (release a h, m\<lparr>cm_blocks := (cm_blocks m)[i := a']\<rparr>))
                    else (h, m))
      in (modify (cm_blocks m ! i) forget_size h, m))"

definition cm_find :: "'c Heap \<Rightarrow> ChunkMap \<Rightarrow> u64 \<Rightarrow> (nat \<times> nat) option" where
  "cm_find h m cid =
     (let b = position_of h m cid in
      if b = length (cm_blocks m) \<or> block_number (block_at h m b) \<noteq> cid div block_size then None
      else
        let es = block_entries (block_at h m b); i = entry_position (block_at h m b) cid
        in if i \<noteq> length es \<and> fst (es ! i) = cid then Some (b, i) else None)"

definition cm_contains :: "'c Heap \<Rightarrow> ChunkMap \<Rightarrow> u64 \<Rightarrow> bool" where
  "cm_contains h m cid = (cm_find h m cid \<noteq> None)"

definition cm_get :: "'c Heap \<Rightarrow> ChunkMap \<Rightarrow> u64 \<Rightarrow> 'c option option" where
  "cm_get h m cid = map_option (\<lambda>(b, i). snd (block_entries (block_at h m b) ! i)) (cm_find h m cid)"

definition reserve_insert :: "'c Heap \<Rightarrow> ChunkMap \<Rightarrow> u64 \<Rightarrow> 'c Heap \<times> ChunkMap" where
  "reserve_insert h m cid =
     (let b = position_of h m cid in
      if b = length (cm_blocks m) \<or> block_number (block_at h m b) \<noteq> cid div block_size then
        (case make_shared (new_block (cid div block_size)) h of
           (a, h) \<Rightarrow> (h, m\<lparr>cm_blocks := insert_at b a (cm_blocks m)\<rparr>))
      else cm_writable h m b)"

text \<open>
  \<open>operator[]\<close> returns the entry's place (block position and entry position);
  \<open>cm_set\<close> is an assignment through the returned reference.
\<close>

definition cm_at :: "'c Heap \<Rightarrow> ChunkMap \<Rightarrow> u64 \<Rightarrow> ('c Heap \<times> ChunkMap) \<times> nat \<times> nat" where
  "cm_at h m cid =
     (case reserve_insert h m cid of (h, m) \<Rightarrow>
      let b = position_of h m cid;
          es = block_entries (block_at h m b);
          i = entry_position (block_at h m b) cid in
      if i = length es \<or> fst (es ! i) \<noteq> cid then
        ((modify (cm_blocks m ! b) (\<lambda>x. x\<lparr>block_entries := insert_at i (cid, None) es\<rparr>) h,
          m\<lparr>cm_size := cm_size m + 1\<rparr>), b, i)
      else ((h, m), b, i))"

definition cm_set :: "'c Heap \<Rightarrow> ChunkMap \<Rightarrow> u64 \<Rightarrow> 'c option \<Rightarrow> 'c Heap \<times> ChunkMap" where
  "cm_set h m cid c =
     (case cm_at h m cid of ((h, m), b, i) \<Rightarrow>
       (modify (cm_blocks m ! b) (\<lambda>x. x\<lparr>block_entries := (block_entries x)[i := (cid, c)]\<rparr>) h, m))"

definition cm_emplace :: "'c Heap \<Rightarrow> ChunkMap \<Rightarrow> u64 \<Rightarrow> 'c option \<Rightarrow> 'c Heap \<times> ChunkMap" where
  "cm_emplace h m cid c = (if cm_contains h m cid then (h, m) else cm_set h m cid c)"

definition cm_erase :: "'c Heap \<Rightarrow> ChunkMap \<Rightarrow> u64 \<Rightarrow> nat \<times> 'c Heap \<times> ChunkMap" where
  "cm_erase h m cid =
     (if \<not> cm_contains h m cid then (0, h, m)
      else
        let b = position_of h m cid in
        (case cm_writable h m b of (h, m) \<Rightarrow>
          let a = cm_blocks m ! b;
              h = modify a (\<lambda>x. x\<lparr>block_entries := remove_at (entry_position x cid) (block_entries x)\<rparr>) h;
              m = m\<lparr>cm_size := cm_size m - 1\<rparr>
          in if block_entries (heap_block h a) = [] then
               (1, release a h, m\<lparr>cm_blocks := remove_at b (cm_blocks m)\<rparr>)
             else (1, h, m)))"

definition null_entry :: "u64 \<times> 'c option \<Rightarrow> bool" where
  "null_entry e = (snd e = None)"

definition remove_empty_block :: "nat \<Rightarrow> 'c Heap \<times> ChunkMap \<Rightarrow> 'c Heap \<times> ChunkMap" where
  "remove_empty_block b hm =
     (case hm of (h, m) \<Rightarrow>
       if list_ex null_entry (block_entries (block_at h m b)) then
         (case cm_writable h m b of (h, m) \<Rightarrow>
           let es = block_entries (block_at h m b) in
           (modify (cm_blocks m ! b) (\<lambda>x. x\<lparr>block_entries := filter (\<lambda>e. \<not> null_entry e) es\<rparr>) h,
            m\<lparr>cm_size := cm_size m - length (filter null_entry es)\<rparr>))
       else (h, m))"

definition remove_empty :: "'c Heap \<Rightarrow> ChunkMap \<Rightarrow> 'c Heap \<times> ChunkMap" where
  "remove_empty h m =
     (case fold remove_empty_block [0..<length (cm_blocks m)] (h, m) of (h, m) \<Rightarrow>
       (fold release (filter (\<lambda>a. block_entries (heap_block h a) = []) (cm_blocks m)) h,
        m\<lparr>cm_blocks := filter (\<lambda>a. block_entries (heap_block h a) \<noteq> []) (cm_blocks m)\<rparr>))"

text \<open>The total encoded size, with the size cached in each block.\<close>

definition block_bytes :: "('c \<Rightarrow> nat) \<Rightarrow> 'c Block \<Rightarrow> nat" where
  "block_bytes f b = sum_list (map (\<lambda>e. case snd e of Some c \<Rightarrow> f c | None \<Rightarrow> 0) (block_entries b))"

fun encoded_blocks :: "('c \<Rightarrow> nat) \<Rightarrow> nat list \<Rightarrow> 'c Heap \<Rightarrow> nat \<times> 'c Heap" where
  "encoded_blocks f [] h = (0, h)"
| "encoded_blocks f (a # as) h =
     (let (bytes, h) =
        (case block_encoded (heap_block h a) of
           Some n \<Rightarrow> (n, h)
         | None \<Rightarrow>
             let n = block_bytes f (heap_block h a)
             in (n, modify a (\<lambda>b. b\<lparr>block_encoded := Some n\<rparr>) h));
        (total, h) = encoded_blocks f as h
      in (bytes + total, h))"

definition cm_encoded_bytes :: "('c \<Rightarrow> nat) \<Rightarrow> 'c Heap \<Rightarrow> ChunkMap \<Rightarrow> nat \<times> 'c Heap" where
  "cm_encoded_bytes f h m = encoded_blocks f (cm_blocks m) h"

text \<open>The difference of two directories, block by block.\<close>

fun changes_entries ::
    "(u64 \<times> 'c option) list \<Rightarrow> (u64 \<times> 'c option) list \<Rightarrow> (u64 \<times> 'c option) list" where
  "changes_entries [] [] = []"
| "changes_entries (x # xs) [] = x # changes_entries xs []"
| "changes_entries [] (y # ys) = (fst y, None) # changes_entries [] ys"
| "changes_entries (x # xs) (y # ys) =
     (if fst x < fst y then x # changes_entries xs (y # ys)
      else if fst y < fst x then (fst y, None) # changes_entries (x # xs) ys
      else (if snd x \<noteq> snd y then [x] else []) @ changes_entries xs ys)"

fun changes_blocks :: "'c Heap \<Rightarrow> nat list \<Rightarrow> nat list \<Rightarrow> (u64 \<times> 'c option) list" where
  "changes_blocks h [] [] = []"
| "changes_blocks h (a # as) [] =
     changes_entries (block_entries (heap_block h a)) [] @ changes_blocks h as []"
| "changes_blocks h [] (b # bs) =
     changes_entries [] (block_entries (heap_block h b)) @ changes_blocks h [] bs"
| "changes_blocks h (a # as) (b # bs) =
     (if block_number (heap_block h a) < block_number (heap_block h b) then
        changes_entries (block_entries (heap_block h a)) [] @ changes_blocks h as (b # bs)
      else if block_number (heap_block h b) < block_number (heap_block h a) then
        changes_entries [] (block_entries (heap_block h b)) @ changes_blocks h (a # as) bs
      else
        (if a = b then []
         else changes_entries (block_entries (heap_block h a)) (block_entries (heap_block h b)))
        @ changes_blocks h as bs)"

definition changes_from :: "'c Heap \<Rightarrow> ChunkMap \<Rightarrow> ChunkMap \<Rightarrow> (u64 \<times> 'c option) list" where
  "changes_from h m previous = changes_blocks h (cm_blocks m) (cm_blocks previous)"

text \<open>The iterator: a block and an entry position; past the end is the number of blocks.\<close>

fun skip_empty :: "'c Block list \<Rightarrow> nat" where
  "skip_empty [] = 0"
| "skip_empty (b # bs) = (if block_entries b = [] then Suc (skip_empty bs) else 0)"

definition cm_iterator :: "'c Heap \<Rightarrow> ChunkMap \<Rightarrow> nat \<Rightarrow> nat \<Rightarrow> nat \<times> nat" where
  "cm_iterator h m b i = (b + skip_empty (map (heap_block h) (drop b (cm_blocks m))), i)"

definition cm_begin :: "'c Heap \<Rightarrow> ChunkMap \<Rightarrow> nat \<times> nat" where
  "cm_begin h m = cm_iterator h m 0 0"

definition cm_end :: "'c Heap \<Rightarrow> ChunkMap \<Rightarrow> nat \<times> nat" where
  "cm_end h m = cm_iterator h m (length (cm_blocks m)) 0"

definition iterator_next :: "'c Heap \<Rightarrow> ChunkMap \<Rightarrow> nat \<times> nat \<Rightarrow> nat \<times> nat" where
  "iterator_next h m it =
     (case it of (b, i) \<Rightarrow>
       if Suc i = length (block_entries (block_at h m b)) then cm_iterator h m (Suc b) 0
       else (b, Suc i))"

fun back_block :: "'c Heap \<Rightarrow> ChunkMap \<Rightarrow> nat \<Rightarrow> nat" where
  "back_block h m 0 = 0"
| "back_block h m (Suc b) = (if block_entries (block_at h m b) = [] then back_block h m b else b)"

definition iterator_prev :: "'c Heap \<Rightarrow> ChunkMap \<Rightarrow> nat \<times> nat \<Rightarrow> nat \<times> nat" where
  "iterator_prev h m it =
     (case it of (b, i) \<Rightarrow>
       if i = 0 then
         let b = back_block h m b in (b, length (block_entries (block_at h m b)) - 1)
       else (b, i - 1))"

end
