(* ===== verification/Chunk_Blocks.thy ===== *)
theory Chunk_Blocks
  imports Chunk_Map
begin

text \<open>
  Block lists and ownership for src/chunk_map.hpp: a directory as the list of
  its blocks, and the effect of the heap operations on the owning directory and
  on every other one.
\<close>

section \<open>Block lists\<close>

definition block_ok :: "'c Block \<Rightarrow> bool" where
  "block_ok b \<longleftrightarrow> sorted_keys (block_entries b)
     \<and> (\<forall>e \<in> set (block_entries b). fst e div block_size = block_number b)"

definition blocks_ok :: "'c Block list \<Rightarrow> bool" where
  "blocks_ok bs \<longleftrightarrow> sorted_wrt (\<lambda>a b. block_number a < block_number b) bs \<and> (\<forall>b \<in> set bs. block_ok b)"

definition flat :: "'c Block list \<Rightarrow> (u64 \<times> 'c option) list" where
  "flat bs = concat (map block_entries bs)"

lemma flat_simps [simp]: "flat [] = []" "flat (b # bs) = block_entries b @ flat bs"
  "flat (bs @ cs) = flat bs @ flat cs"
  by (simp_all add: flat_def)

lemma blocks_ok_simps [simp]:
  "blocks_ok []"
  "blocks_ok (b # bs) \<longleftrightarrow> block_ok b \<and> blocks_ok bs \<and> (\<forall>c \<in> set bs. block_number b < block_number c)"
  by (auto simp: blocks_ok_def)

lemma div_less_less: "(a::u64) div block_size < b div block_size \<Longrightarrow> a < b"
  using div_le_mono [of "unat b" "unat a" "unat block_size"]
  by (auto simp: word_less_nat_alt unat_div not_less intro: ccontr)

lemma sorted_flat: "blocks_ok bs \<Longrightarrow> sorted_keys (flat bs)"
proof (induction bs)
  case (Cons b bs)
  have "fst x < fst y" if x: "x \<in> set (block_entries b)" and y: "y \<in> set (flat bs)" for x y
  proof -
    obtain c where "c \<in> set bs" "y \<in> set (block_entries c)" using y by (auto simp: flat_def)
    then have "fst y div block_size = block_number c" "block_number b < block_number c"
      using Cons.prems by (auto simp: blocks_ok_def block_ok_def)
    moreover have "fst x div block_size = block_number b" using x Cons.prems by (auto simp: block_ok_def)
    ultimately show ?thesis by (simp add: div_less_less)
  qed
  then show ?case
    using Cons by (auto simp: sorted_keys_def sorted_wrt_append block_ok_def)
qed (simp add: sorted_keys_def)

lemma block_absent:
  "block_ok b \<Longrightarrow> block_number b \<noteq> k div block_size \<Longrightarrow> k \<notin> fst ` set (block_entries b)"
  by (auto simp: block_ok_def)

lemma flat_absent:
  assumes "blocks_ok bs" "\<forall>b \<in> set bs. block_number b \<noteq> k div block_size"
  shows "map_of (flat bs) k = None"
  using assms block_absent by (fastforce simp: flat_def map_of_eq_None_iff blocks_ok_def)

lemma flat_lookup:
  assumes "blocks_ok bs" "b \<in> set bs" "block_number b = k div block_size"
  shows "map_of (flat bs) k = map_of (block_entries b) k"
  using assms
proof (induction bs)
  case (Cons c bs)
  show ?case
  proof (cases "b = c")
    case True
    then have "\<forall>d \<in> set bs. block_number d \<noteq> k div block_size" using Cons.prems by auto
    then have "map_of (flat bs) k = None" using flat_absent Cons.prems(1) by auto
    then show ?thesis using True by (auto simp: map_of_append map_add_def split: option.splits)
  next
    case False
    then have b: "b \<in> set bs" using Cons.prems(2) by simp
    then have "block_number c \<noteq> k div block_size" using Cons.prems by auto
    then have "map_of (block_entries c) k = None"
      using block_absent [of c k] Cons.prems(1) by (simp add: map_of_eq_None_iff)
    then show ?thesis
      using Cons.IH b Cons.prems by (auto simp: map_of_append map_add_def split: option.splits)
  qed
qed simp

lemma flat_update:
  assumes "blocks_ok bs" "i < length bs" "block_ok b" "block_number b = block_number (bs ! i)"
  shows "blocks_ok (bs[i := b])"
    and "map_of (flat (bs[i := b])) k =
      (if k div block_size = block_number b then map_of (block_entries b) k else map_of (flat bs) k)"
proof -
  show ok: "blocks_ok (bs[i := b])"
    using assms sorted_update [of block_number bs i b] set_update_subset_insert [of bs i b]
    by (auto simp: blocks_ok_def)
  have mem: "b \<in> set (bs[i := b])" using assms(2) by (rule set_update_memI)
  have eq: "c \<in> set (bs[i := b]) \<longleftrightarrow> c \<in> set bs" if "block_number c \<noteq> block_number b" for c
    using that assms(2,4) by (auto simp: in_set_conv_nth nth_list_update)
  show "map_of (flat (bs[i := b])) k =
      (if k div block_size = block_number b then map_of (block_entries b) k else map_of (flat bs) k)"
  proof (cases "k div block_size = block_number b")
    case True
    then show ?thesis using flat_lookup [OF ok mem] by simp
  next
    case False
    show ?thesis
    proof (cases "\<exists>c \<in> set bs. block_number c = k div block_size")
      case True
      then show ?thesis using flat_lookup [OF ok] flat_lookup [OF assms(1)] eq False by metis
    next
      case none: False
      then have "\<forall>c \<in> set (bs[i := b]). block_number c \<noteq> k div block_size" using eq False by metis
      then show ?thesis using flat_absent [OF ok] flat_absent [OF assms(1)] none False by auto
    qed
  qed
qed

lemma flat_insert_empty:
  assumes "blocks_ok bs" "i = lower_bound (\<lambda>b. block_number b < n) bs"
    and "i = length bs \<or> block_number (bs ! i) \<noteq> n"
  shows "blocks_ok (insert_at i (new_block n) bs)" "flat (insert_at i (new_block n) bs) = flat bs"
proof -
  have i: "i \<le> length bs" using assms(2) by (simp add: lower_bound_le)
  have "n \<notin> block_number ` set bs"
    using assms by (intro lower_bound_absent [of block_number]) (auto simp: blocks_ok_def)
  then have "sorted_wrt (\<lambda>a b. block_number a < block_number b) (insert_at i (new_block n) bs)"
    using assms by (intro sorted_insert_at) (auto simp: blocks_ok_def new_block_def)
  then show "blocks_ok (insert_at i (new_block n) bs)"
    using assms(1) insert_at_props(1) [OF i, of "new_block n"]
    by (auto simp: blocks_ok_def block_ok_def new_block_def sorted_keys_def)
  have "flat (take i bs @ drop i bs) = flat bs" by simp
  then show "flat (insert_at i (new_block n) bs) = flat bs"
    by (simp only: insert_at_def flat_simps) (simp add: new_block_def)
qed

lemma flat_length_update:
  assumes "i < length bs"
  shows "length (flat (bs[i := b])) + length (block_entries (bs ! i)) =
    length (flat bs) + length (block_entries b)"
  using assms
proof (induction bs arbitrary: i)
  case (Cons c bs)
  then show ?case by (cases i) auto
qed simp

section \<open>Ownership\<close>

definition cm_view :: "'c Heap \<Rightarrow> ChunkMap \<Rightarrow> 'c Block list" where
  "cm_view h m = map (heap_block h) (cm_blocks m)"

text \<open>
  The live directories \<open>ms\<close> own the heap: reference counts are the numbers of
  pointers to a block, and every pointer is allocated.
\<close>

definition heap_ok :: "'c Heap \<Rightarrow> ChunkMap list \<Rightarrow> bool" where
  "heap_ok h ms \<longleftrightarrow>
     (\<forall>a. heap_count h a = count_list (concat (map cm_blocks ms)) a)
     \<and> (\<forall>m \<in> set ms. \<forall>a \<in> set (cm_blocks m). a < heap_next h)"

lemma cm_view_nth [simp]: "i < length (cm_blocks m) \<Longrightarrow> cm_view h m ! i = heap_block h (cm_blocks m ! i)"
  by (simp add: cm_view_def)

lemma cm_view_length [simp]: "length (cm_view h m) = length (cm_blocks m)"
  by (simp add: cm_view_def)

lemma count_list_update:
  assumes "i < length xs"
  shows "count_list (xs[i := y]) a + of_bool (xs ! i = a) = count_list xs a + of_bool (y = a)"
  using assms
proof (induction xs arbitrary: i)
  case (Cons x xs)
  then show ?case by (cases i) auto
qed simp

lemma count_list_once:
  assumes "count_list xs a \<le> 1" "i < length xs" "j < length xs" "xs ! i = a" "xs ! j = a"
  shows "i = j"
  using assms
proof (induction xs arbitrary: i j)
  case (Cons x xs)
  have "a \<notin> set xs" if "x = a" using Cons.prems(1) that by (simp add: count_list_0_iff)
  then show ?case using Cons by (cases i; cases j) (auto split: if_splits)
qed simp

lemma count_list_fresh: "a \<notin> set xs \<Longrightarrow> count_list xs a = 0"
  by (simp add: count_list_0_iff)

text \<open>A block with one owner can be changed in place.\<close>

lemma modify_owned:
  assumes ok: "heap_ok h (m # ms)" and i: "i < length (cm_blocks m)"
    and own: "heap_count h (cm_blocks m ! i) = 1"
  shows "heap_ok (modify (cm_blocks m ! i) f h) (m # ms)"
    and "cm_view (modify (cm_blocks m ! i) f h) m = (cm_view h m)[i := f (cm_view h m ! i)]"
    and "\<And>m'. m' \<in> set ms \<Longrightarrow> cm_view (modify (cm_blocks m ! i) f h) m' = cm_view h m'"
proof -
  let ?a = "cm_blocks m ! i"
  have one: "count_list (cm_blocks m) ?a + count_list (concat (map cm_blocks ms)) ?a = 1"
    using ok own by (simp add: heap_ok_def)
  moreover have "0 < count_list (cm_blocks m) ?a"
    using i by (metis count_list_0_iff gr0I nth_mem)
  ultimately have c: "count_list (cm_blocks m) ?a = 1" "count_list (concat (map cm_blocks ms)) ?a = 0"
    by auto
  show "heap_ok (modify ?a f h) (m # ms)" using ok by (simp add: heap_ok_def modify_def)
  show "cm_view (modify ?a f h) m = (cm_view h m)[i := f (cm_view h m ! i)]"
    using count_list_once [of "cm_blocks m" ?a] c(1) i
    by (auto simp: cm_view_def modify_def list_eq_iff_nth_eq nth_list_update)
  show "cm_view (modify ?a f h) m' = cm_view h m'" if "m' \<in> set ms" for m'
    using c(2) that by (auto simp: cm_view_def modify_def count_list_0_iff)
qed

lemma copy_block_forget: "copy_block b = forget_size b"
  by (simp add: copy_block_def new_block_def forget_size_def)

lemma forget_size_idem [simp]: "forget_size (forget_size b) = forget_size b"
  by (simp add: forget_size_def)

lemma share_fresh:
  assumes "heap_ok h ms"
  shows "count_list (concat (map cm_blocks ms)) (heap_next h) = 0"
    and "\<And>m. m \<in> set ms \<Longrightarrow> heap_next h \<notin> set (cm_blocks m)"
  using assms by (auto simp: heap_ok_def count_list_0_iff)

text \<open>\<open>writable\<close> detaches a shared block and leaves every other directory as it was.\<close>

lemma cm_writable_spec:
  assumes ok: "heap_ok h (m # ms)" and i: "i < length (cm_blocks m)"
    and w: "cm_writable h m i = (h', m')"
  shows "heap_ok h' (m' # ms)" "heap_count h' (cm_blocks m' ! i) = 1"
    and "length (cm_blocks m') = length (cm_blocks m)" "cm_size m' = cm_size m"
    and "cm_view h' m' = (cm_view h m)[i := forget_size (cm_view h m ! i)]"
    and "\<And>x. x \<in> set ms \<Longrightarrow> cm_view h' x = cm_view h x"
proof -
  let ?a = "cm_blocks m ! i" and ?n = "heap_next h"
  have "heap_ok h' (m' # ms) \<and> heap_count h' (cm_blocks m' ! i) = 1
    \<and> length (cm_blocks m') = length (cm_blocks m) \<and> cm_size m' = cm_size m
    \<and> cm_view h' m' = (cm_view h m)[i := forget_size (cm_view h m ! i)]
    \<and> (\<forall>x \<in> set ms. cm_view h' x = cm_view h x)"
  proof (cases "heap_count h ?a = 1")
    case True
    then have "h' = modify ?a forget_size h" "m' = m" using w by (auto simp: cm_writable_def)
    then show ?thesis
      using modify_owned [OF ok i True, where f = forget_size] True by (simp add: modify_def)
  next
    case False
    let ?h1 = "release ?a (snd (make_shared (copy_block (heap_block h ?a)) h))"
    let ?m1 = "m\<lparr>cm_blocks := (cm_blocks m)[i := ?n]\<rparr>"
    have h': "h' = modify ?n forget_size ?h1" and m': "m' = ?m1"
      using w False i by (auto simp: cm_writable_def make_shared_def Let_def)
    note fr = share_fresh [OF ok]
    have an: "?a \<noteq> ?n" using fr(2) [of m] i by (metis list.set_intros(1) nth_mem)
    have cnt: "heap_count ?h1 b = count_list (concat (map cm_blocks (?m1 # ms))) b" for b
      using count_list_update [OF i, of ?n b] ok an fr(1)
      by (auto simp: heap_ok_def release_def make_shared_def of_bool_def split: if_splits)
    have ok1: "heap_ok ?h1 (?m1 # ms)"
      using ok cnt set_update_subset_insert [of "cm_blocks m" i ?n]
      by (auto simp: heap_ok_def release_def make_shared_def less_Suc_eq)
    have own: "heap_count ?h1 (cm_blocks ?m1 ! i) = 1"
      using i an by (simp add: release_def make_shared_def)
    have v1: "cm_view ?h1 ?m1 = (cm_view h m)[i := forget_size (cm_view h m ! i)]"
      using fr(2) [of m] i
      by (auto simp: cm_view_def release_def make_shared_def copy_block_forget map_update
        list_eq_iff_nth_eq nth_list_update)
    have o1: "cm_view ?h1 x = cm_view h x" if "x \<in> set ms" for x
      using fr(2) [of x] that by (auto simp: cm_view_def release_def make_shared_def)
    have i1: "i < length (cm_blocks ?m1)" and a1: "cm_blocks ?m1 ! i = ?n" using i by simp_all
    note M = modify_owned [OF ok1 i1 own, where f = forget_size, unfolded a1]
    show ?thesis
      unfolding h' m' using M v1 o1 own i by (simp add: modify_def)
  qed
  then show "heap_ok h' (m' # ms)" "heap_count h' (cm_blocks m' ! i) = 1"
    "length (cm_blocks m') = length (cm_blocks m)" "cm_size m' = cm_size m"
    "cm_view h' m' = (cm_view h m)[i := forget_size (cm_view h m ! i)]"
    "\<And>x. x \<in> set ms \<Longrightarrow> cm_view h' x = cm_view h x"
    by auto
qed

end
