(* ===== verification/Chunk_Directory.thy ===== *)
theory Chunk_Directory
  imports Chunk_Blocks
begin

text \<open>
  The operations of the chunk directory of src/chunk_map.hpp against a finite
  map from chunk ids to chunk references.
\<close>

section \<open>The directory invariant\<close>

definition cache_ok :: "('c \<Rightarrow> nat) \<Rightarrow> 'c Block \<Rightarrow> bool" where
  "cache_ok f b \<longleftrightarrow> block_encoded b = None \<or> block_encoded b = Some (block_bytes f b)"

definition map_ok :: "('c \<Rightarrow> nat) \<Rightarrow> 'c Heap \<Rightarrow> ChunkMap \<Rightarrow> bool" where
  "map_ok f h m \<longleftrightarrow> blocks_ok (cm_view h m) \<and> cm_size m = length (flat (cm_view h m))
     \<and> (\<forall>b \<in> set (cm_view h m). cache_ok f b)"

definition world_ok :: "('c \<Rightarrow> nat) \<Rightarrow> 'c Heap \<Rightarrow> ChunkMap list \<Rightarrow> bool" where
  "world_ok f h ms \<longleftrightarrow> heap_ok h ms \<and> (\<forall>m \<in> set ms. map_ok f h m)"

definition cm_entries :: "'c Heap \<Rightarrow> ChunkMap \<Rightarrow> (u64 \<times> 'c option) list" where
  "cm_entries h m = flat (cm_view h m)"

definition cm_lookup :: "'c Heap \<Rightarrow> ChunkMap \<Rightarrow> u64 \<rightharpoonup> 'c option" where
  "cm_lookup h m = map_of (cm_entries h m)"

lemma map_ok_view: "cm_view h' m' = cm_view h m \<Longrightarrow> cm_size m' = cm_size m \<Longrightarrow> map_ok f h' m' = map_ok f h m"
  by (simp add: map_ok_def)

lemma lower_bound_map: "lower_bound P (map g xs) = lower_bound (\<lambda>x. P (g x)) xs"
  by (simp add: lower_bound_def takeWhile_map comp_def)

lemma position_of_view:
  "position_of h m k = lower_bound (\<lambda>b. block_number b < k div block_size) (cm_view h m)"
  by (simp add: position_of_def cm_view_def lower_bound_map)

lemma lower_bound_insert_at:
  assumes "i = lower_bound P xs" "\<not> P x"
  shows "lower_bound P (insert_at i x xs) = i"
proof -
  have "take i xs = takeWhile P xs"
    unfolding assms(1) lower_bound_def by (rule takeWhile_eq_take [symmetric])
  moreover have "lower_bound P (takeWhile P xs @ x # ys) = length (takeWhile P xs)" for ys
    using assms(2) by (induction xs) (auto simp: lower_bound_def)
  ultimately show ?thesis
    using assms(1) by (simp add: insert_at_def lower_bound_def)
qed

lemma lower_bound_numbers:
  assumes "map block_number bs = map block_number cs"
  shows "lower_bound (\<lambda>b. block_number b < n) bs = lower_bound (\<lambda>b. block_number b < n) cs"
  using lower_bound_map [of "\<lambda>x. x < n" block_number bs] lower_bound_map [of "\<lambda>x. x < n" block_number cs]
    assms by simp

lemma new_block_simps [simp]: "block_number (new_block n) = n" "block_entries (new_block n) = []"
  "cache_ok f (new_block n)" "block_encoded (new_block n) = None"
  by (simp_all add: new_block_def cache_ok_def)

lemma forget_size_simps [simp]: "block_number (forget_size b) = block_number b"
  "block_entries (forget_size b) = block_entries b" "cache_ok f (forget_size b)"
  "block_encoded (forget_size b) = None" "block_ok (forget_size b) = block_ok b"
  by (simp_all add: forget_size_def cache_ok_def block_ok_def)

lemma blocks_ok_forget: "blocks_ok bs \<Longrightarrow> i < length bs \<Longrightarrow> blocks_ok (bs[i := forget_size (bs ! i)])"
  by (rule flat_update(1)) (auto simp: blocks_ok_def)

text \<open>A directory block reserved for a key: it is private and its cached size forgotten.\<close>

definition reserved :: "'c Heap \<Rightarrow> ChunkMap \<Rightarrow> u64 \<Rightarrow> bool" where
  "reserved h m k \<longleftrightarrow>
     (let b = position_of h m k in
      b < length (cm_blocks m) \<and> block_number (block_at h m b) = k div block_size
      \<and> heap_count h (cm_blocks m ! b) = 1 \<and> block_encoded (block_at h m b) = None)"

lemma make_shared_insert:
  assumes ok: "heap_ok h (m # ms)" and b: "b \<le> length (cm_blocks m)"
    and s: "make_shared x h = (a, h')"
  shows "heap_ok h' (m\<lparr>cm_blocks := insert_at b a (cm_blocks m)\<rparr> # ms)"
    and "cm_view h' (m\<lparr>cm_blocks := insert_at b a (cm_blocks m)\<rparr>) = insert_at b x (cm_view h m)"
    and "heap_count h' a = 1" "\<And>m'. m' \<in> set ms \<Longrightarrow> cm_view h' m' = cm_view h m'"
proof -
  have a: "a = heap_next h" and h': "h' = h\<lparr>heap_next := Suc (heap_next h),
        heap_block := (heap_block h)(heap_next h := x), heap_count := (heap_count h)(heap_next h := 1)\<rparr>"
    using s by (auto simp: make_shared_def)
  note fr = share_fresh [OF ok]
  have cnt: "count_list (insert_at b a xs) y = count_list xs y + of_bool (a = y)" for xs y
    using count_list_append [of "take b xs" "drop b xs" y] by (simp add: insert_at_def)
  show "heap_ok h' (m\<lparr>cm_blocks := insert_at b a (cm_blocks m)\<rparr> # ms)"
    using ok fr(1) insert_at_props(1) [OF b, of a]
    by (auto simp: heap_ok_def h' a [symmetric] cnt less_Suc_eq)
  have same: "cm_view h' m' = cm_view h m'" if "m' \<in> set (m # ms)" for m'
    using fr(2) [OF that] by (auto simp: h' cm_view_def)
  have "heap_block h' a = x" by (simp add: h' a)
  then show "cm_view h' (m\<lparr>cm_blocks := insert_at b a (cm_blocks m)\<rparr>) = insert_at b x (cm_view h m)"
    using same [of m] by (simp add: cm_view_def map_insert_at del: map_eq_conv)
  show "\<And>m'. m' \<in> set ms \<Longrightarrow> cm_view h' m' = cm_view h m'" using same by simp
  show "heap_count h' a = 1" by (simp add: h' a)
qed

lemma position_le: "position_of h m k \<le> length (cm_blocks m)"
  by (simp add: position_of_def lower_bound_le)

lemma reserve_insert_spec:
  assumes ok: "heap_ok h (m # ms)" and map: "map_ok f h m" and r: "reserve_insert h m k = (h', m')"
  shows "heap_ok h' (m' # ms)" "map_ok f h' m'" "reserved h' m' k"
    and "cm_entries h' m' = cm_entries h m" "cm_size m' = cm_size m"
    and "\<And>x. x \<in> set ms \<Longrightarrow> cm_view h' x = cm_view h x"
proof -
  let ?b = "position_of h m k" and ?n = "k div block_size"
  have pos: "?b = lower_bound (\<lambda>b. block_number b < ?n) (cm_view h m)" by (rule position_of_view)
  have "heap_ok h' (m' # ms) \<and> map_ok f h' m' \<and> reserved h' m' k
    \<and> cm_entries h' m' = cm_entries h m \<and> cm_size m' = cm_size m
    \<and> (\<forall>x \<in> set ms. cm_view h' x = cm_view h x)"
  proof (cases "?b = length (cm_blocks m) \<or> block_number (block_at h m ?b) \<noteq> ?n")
    case True
    obtain a h1 where s: "make_shared (new_block ?n) h = (a, h1)" by (cases "make_shared (new_block ?n) h")
    have h': "h' = h1" and m': "m' = m\<lparr>cm_blocks := insert_at ?b a (cm_blocks m)\<rparr>"
      using r True s by (auto simp: reserve_insert_def Let_def)
    note S = make_shared_insert [OF ok position_le [of h m k] s, folded h' m']
    have absent: "?b = length (cm_view h m) \<or> block_number (cm_view h m ! ?b) \<noteq> ?n"
      using True position_le [of h m k] by (auto simp: block_at_def)
    have F: "blocks_ok (cm_view h' m')" "cm_entries h' m' = cm_entries h m"
      using flat_insert_empty [OF _ pos absent] map S(2) by (simp_all add: map_ok_def cm_entries_def)
    have p': "position_of h' m' k = ?b"
      using lower_bound_insert_at [OF pos, of "new_block ?n"] S(2) by (simp add: position_of_view)
    have a: "cm_blocks m' ! ?b = a" "?b < length (cm_blocks m')"
      using position_le [of h m k] by (simp_all add: m' insert_at_def nth_append)
    moreover have "heap_block h' a = new_block ?n"
      using s h' by (auto simp: make_shared_def)
    ultimately have "reserved h' m' k" using S(3) p' by (simp add: reserved_def block_at_def)
    moreover have "map_ok f h' m'"
      using map F S(2) insert_at_props(1) [of ?b "cm_view h m" "new_block ?n"] position_le [of h m k] m'
      by (auto simp: map_ok_def cm_entries_def)
    ultimately show ?thesis using S F m' by simp
  next
    case False
    then have b: "?b < length (cm_blocks m)" and n: "block_number (cm_view h m ! ?b) = ?n"
      using position_le [of h m k] by (auto simp: block_at_def)
    have w: "cm_writable h m ?b = (h', m')" using r False by (simp add: reserve_insert_def Let_def)
    note W = cm_writable_spec [OF ok b w]
    have nums: "map block_number (cm_view h' m') = map block_number (cm_view h m)"
      using b by (simp add: W(5) map_update list_update_same_conv)
    have p': "position_of h' m' k = ?b"
      using lower_bound_numbers [OF nums] by (simp add: position_of_view)
    have ent: "map block_entries (cm_view h' m') = map block_entries (cm_view h m)"
      using b by (simp add: W(5) map_update list_update_same_conv)
    then have e: "cm_entries h' m' = cm_entries h m" by (simp add: cm_entries_def flat_def)
    have "blocks_ok (cm_view h' m')"
      using blocks_ok_forget [of "cm_view h m" ?b] map b W(5) by (simp add: map_ok_def)
    then have "map_ok f h' m'"
      using map e W(4,5) set_update_subset_insert [of "cm_view h m" ?b "forget_size (cm_view h m ! ?b)"]
      by (auto simp: map_ok_def cm_entries_def)
    moreover have "block_at h' m' ?b = forget_size (cm_view h m ! ?b)"
      using W(3,5) b by (metis block_at_def cm_view_length cm_view_nth nth_list_update_eq)
    ultimately show ?thesis using W e p' b n by (simp add: reserved_def Let_def)
  qed
  then show "heap_ok h' (m' # ms)" "map_ok f h' m'" "reserved h' m' k"
    "cm_entries h' m' = cm_entries h m" "cm_size m' = cm_size m"
    "\<And>x. x \<in> set ms \<Longrightarrow> cm_view h' x = cm_view h x" by auto
qed

section \<open>Lookups and updates\<close>

lemma find_block:
  assumes "map_ok f h m" "b = position_of h m k"
    and "b < length (cm_blocks m)" "block_number (block_at h m b) = k div block_size"
  shows "cm_lookup h m k = map_of (block_entries (block_at h m b)) k"
    and "sorted_keys (block_entries (block_at h m b))"
proof -
  have "block_at h m b \<in> set (cm_view h m)" using assms(3) by (simp add: block_at_def cm_view_def)
  then show "cm_lookup h m k = map_of (block_entries (block_at h m b)) k"
    "sorted_keys (block_entries (block_at h m b))"
    using assms flat_lookup [of "cm_view h m" "block_at h m b" k]
    by (simp_all add: map_ok_def cm_lookup_def cm_entries_def blocks_ok_def block_ok_def)
qed

lemma find_no_block:
  assumes "map_ok f h m" "b = position_of h m k"
    and "b = length (cm_blocks m) \<or> block_number (block_at h m b) \<noteq> k div block_size"
  shows "cm_lookup h m k = None"
proof -
  have "b = length (cm_view h m) \<or> block_number (cm_view h m ! b) \<noteq> k div block_size"
    using assms(2,3) position_le [of h m k] by (auto simp: block_at_def)
  then have "k div block_size \<notin> block_number ` set (cm_view h m)"
    using assms(1,2) by (intro lower_bound_absent [of block_number])
      (auto simp: map_ok_def blocks_ok_def position_of_view)
  then have "\<forall>b \<in> set (cm_view h m). block_number b \<noteq> k div block_size" by (metis imageI)
  then show ?thesis
    using flat_absent [of "cm_view h m" k] assms(1)
    by (simp add: cm_lookup_def cm_entries_def map_ok_def)
qed

lemma entry_position_found:
  assumes "sorted_keys (block_entries b)" "i = entry_position b k"
  shows "i \<noteq> length (block_entries b) \<and> fst (block_entries b ! i) = k \<Longrightarrow>
      i < length (block_entries b) \<and> map_of (block_entries b) k = Some (snd (block_entries b ! i))"
    and "i = length (block_entries b) \<or> fst (block_entries b ! i) \<noteq> k \<Longrightarrow>
      k \<notin> fst ` set (block_entries b)"
proof -
  assume a: "i \<noteq> length (block_entries b) \<and> fst (block_entries b ! i) = k"
  then have i: "i < length (block_entries b)"
    using assms(2) lower_bound_le [of "\<lambda>e. fst e < k" "block_entries b"] by (simp add: entry_position_def)
  then have "(k, snd (block_entries b ! i)) \<in> set (block_entries b)"
    using a by (metis nth_mem prod.collapse)
  then show "i < length (block_entries b) \<and> map_of (block_entries b) k = Some (snd (block_entries b ! i))"
    using i sorted_keys_distinct [OF assms(1)] by simp
next
  assume "i = length (block_entries b) \<or> fst (block_entries b ! i) \<noteq> k"
  then show "k \<notin> fst ` set (block_entries b)"
    using assms lower_bound_absent [of fst "block_entries b" i k]
    by (simp add: sorted_keys_def entry_position_def)
qed

lemma cm_get_lookup:
  assumes "map_ok f h m" shows "cm_get h m k = cm_lookup h m k"
proof -
  let ?b = "position_of h m k"
  show ?thesis
  proof (cases "?b = length (cm_blocks m) \<or> block_number (block_at h m ?b) \<noteq> k div block_size")
    case True
    then show ?thesis
      using find_no_block [OF assms refl True] by (auto simp: cm_get_def cm_find_def Let_def)
  next
    case False
    then have b: "?b < length (cm_blocks m)" "block_number (block_at h m ?b) = k div block_size"
      using position_le [of h m k] by auto
    note L = find_block [OF assms refl b]
    note E = entry_position_found [OF L(2) refl, of k]
    show ?thesis
    proof (cases "entry_position (block_at h m ?b) k = length (block_entries (block_at h m ?b))
        \<or> fst (block_entries (block_at h m ?b) ! entry_position (block_at h m ?b) k) \<noteq> k")
      case True
      then have "map_of (block_entries (block_at h m ?b)) k = None"
        using E(2) by (simp add: map_of_eq_None_iff)
      then show ?thesis using True False L(1) by (auto simp: cm_get_def cm_find_def Let_def)
    next
      case found: False
      then show ?thesis using E(1) False L(1) by (auto simp: cm_get_def cm_find_def Let_def)
    qed
  qed
qed

lemma cm_contains_lookup: "map_ok f h m \<Longrightarrow> cm_contains h m k \<longleftrightarrow> cm_lookup h m k \<noteq> None"
  using cm_get_lookup [of f h m k, symmetric] by (simp add: cm_contains_def cm_get_def)

text \<open>Replacing the entries of a reserved block.\<close>

lemma reserved_modify:
  assumes ok: "heap_ok h (m # ms)" and map: "map_ok f h m" and res: "reserved h m k"
    and g: "\<And>x. block_number (g x) = block_number x" "\<And>x. block_encoded (g x) = block_encoded x"
    and b: "b = position_of h m k" and ok': "block_ok (g (block_at h m b))"
    and size: "sz + length (block_entries (block_at h m b)) = cm_size m + length (block_entries (g (block_at h m b)))"
  defines "h' \<equiv> modify (cm_blocks m ! b) g h" and "m' \<equiv> m\<lparr>cm_size := sz\<rparr>"
  shows "heap_ok h' (m' # ms)" "map_ok f h' m'" "reserved h' m' k"
    and "\<And>x. x \<in> set ms \<Longrightarrow> cm_view h' x = cm_view h x"
    and "cm_lookup h' m' j = (if j div block_size = k div block_size
       then map_of (block_entries (g (block_at h m b))) j else cm_lookup h m j)"
    and "cm_view h' m' = (cm_view h m)[b := g (block_at h m b)]"
proof -
  have bl: "b < length (cm_blocks m)" and num: "block_number (block_at h m b) = k div block_size"
    and own: "heap_count h (cm_blocks m ! b) = 1" and enc: "block_encoded (block_at h m b) = None"
    using res by (simp_all add: reserved_def b Let_def)
  note M = modify_owned [OF ok bl own, where f = g, folded h'_def]
  have at: "cm_view h m ! b = block_at h m b" using bl by (simp add: block_at_def)
  show v: "cm_view h' m' = (cm_view h m)[b := g (block_at h m b)]"
    using M(2) by (simp add: m'_def cm_view_def [of _ "m\<lparr>cm_size := sz\<rparr>"] cm_view_def [of _ m, symmetric] at)
  show "heap_ok h' (m' # ms)" using M(1) by (simp add: m'_def heap_ok_def)
  show "\<And>x. x \<in> set ms \<Longrightarrow> cm_view h' x = cm_view h x" by (rule M(3))
  note F = flat_update [of "cm_view h m" b "g (block_at h m b)", folded v]
  have bok: "blocks_ok (cm_view h m)" using map by (simp add: map_ok_def)
  have len: "cm_size m' = length (flat (cm_view h' m'))"
    using flat_length_update [of b "cm_view h m" "g (block_at h m b)"] map size bl at
    unfolding v by (simp add: m'_def map_ok_def)
  show "map_ok f h' m'"
    using F(1) [OF bok] bl ok' g(1) at len map set_update_subset_insert [of "cm_view h m" b "g (block_at h m b)"]
      g(2) enc
    by (auto simp: map_ok_def v cache_ok_def)
  show "cm_lookup h' m' j = (if j div block_size = k div block_size
       then map_of (block_entries (g (block_at h m b))) j else cm_lookup h m j)"
    using F(2) [OF bok, of j] bl ok' g(1) at num by (simp add: cm_lookup_def cm_entries_def)
  have "map block_number (cm_view h' m') = map block_number (cm_view h m)"
    using bl g(1) at by (simp add: v map_update list_update_same_conv)
  then have "position_of h' m' k = b"
    using lower_bound_numbers by (simp add: position_of_view b)
  moreover have "block_at h' m' b = g (block_at h m b)"
    by (simp add: h'_def m'_def block_at_def modify_def)
  ultimately show "reserved h' m' k"
    using bl num own enc g by (simp add: reserved_def Let_def h'_def m'_def modify_def)
qed

lemma modify_modify: "modify a g (modify a f h) = modify a (\<lambda>x. g (f x)) h"
  by (simp add: modify_def)

lemma modify_at:
  assumes "f (heap_block h a) = g (heap_block h a)"
  shows "modify a f h = modify a g h"
  using assms by (simp add: modify_def)

lemma reserved_block:
  assumes "map_ok f h m" "reserved h m k" "b = position_of h m k" "es = block_entries (block_at h m b)"
  shows "b < length (cm_blocks m)" "sorted_keys es"
    and "\<forall>e \<in> set es. fst e div block_size = k div block_size"
    and "j div block_size = k div block_size \<Longrightarrow> cm_lookup h m j = map_of es j"
proof -
  show b: "b < length (cm_blocks m)"
    using assms(2,3) by (simp add: reserved_def Let_def)
  have num: "block_number (block_at h m b) = k div block_size"
    using assms(2,3) by (simp add: reserved_def Let_def)
  have "block_at h m b \<in> set (cm_view h m)" using b by (simp add: block_at_def cm_view_def)
  then have ok: "block_ok (block_at h m b)" using assms(1) by (simp add: map_ok_def blocks_ok_def)
  then show "sorted_keys es" "\<forall>e \<in> set es. fst e div block_size = k div block_size"
    using num assms(4) by (simp_all add: block_ok_def)
  show "cm_lookup h m j = map_of es j" if "j div block_size = k div block_size"
    using find_block(1) [OF assms(1), of b j] that b num assms(3,4) by (simp add: position_of_def)
qed

definition put_entry :: "u64 \<Rightarrow> 'c option \<Rightarrow> (u64 \<times> 'c option) list \<Rightarrow> (u64 \<times> 'c option) list" where
  "put_entry k c es =
     (let i = lower_bound (\<lambda>e. fst e < k) es in
      if i = length es \<or> fst (es ! i) \<noteq> k then insert_at i (k, c) es else es[i := (k, c)])"

lemma insert_at_update: "i \<le> length xs \<Longrightarrow> (insert_at i x xs)[i := y] = insert_at i y xs"
  by (simp add: insert_at_def list_update_append)

lemma put_entry_spec:
  assumes "sorted_keys es"
  shows "sorted_keys (put_entry k c es)" "map_of (put_entry k c es) = (map_of es)(k \<mapsto> c)"
    "fst ` set (put_entry k c es) = insert k (fst ` set es)"
    "length (put_entry k c es) = length es + of_bool (k \<notin> fst ` set es)"
proof -
  let ?i = "lower_bound (\<lambda>e. fst e < k) es"
  have le: "?i \<le> length es" by (rule lower_bound_le)
  note d = sorted_keys_distinct [OF assms]
  have "sorted_keys (put_entry k c es) \<and> map_of (put_entry k c es) = (map_of es)(k \<mapsto> c)
    \<and> fst ` set (put_entry k c es) = insert k (fst ` set es)
    \<and> length (put_entry k c es) = length es + of_bool (k \<notin> fst ` set es)"
  proof (cases "?i = length es \<or> fst (es ! ?i) \<noteq> k")
    case True
    then have n: "k \<notin> fst ` set es"
      using lower_bound_absent [of fst es ?i k] assms by (simp add: sorted_keys_def)
    then show ?thesis
      using sorted_insert_at [of fst es ?i "(k, c)"] assms True map_of_insert_at [of "(k, c)" es ?i]
        insert_at_props [OF le, of "(k, c)"]
      by (auto simp: put_entry_def sorted_keys_def Let_def)
  next
    case False
    then have i: "?i < length es" "fst (es ! ?i) = k" using le by auto
    then have "k \<in> fst ` set es" by (metis image_eqI nth_mem)
    moreover have "map fst (es[?i := (k, c)]) = map fst es"
      using i by (simp add: map_update list_update_same_conv)
    then have "fst ` set (es[?i := (k, c)]) = fst ` set es" by (metis set_map)
    ultimately show ?thesis
      using sorted_update [of fst es ?i "(k, c)"] assms i map_of_update [OF d i(1), of "(k, c)"]
      by (auto simp: put_entry_def sorted_keys_def Let_def)
  qed
  then show "sorted_keys (put_entry k c es)" "map_of (put_entry k c es) = (map_of es)(k \<mapsto> c)"
    "fst ` set (put_entry k c es) = insert k (fst ` set es)"
    "length (put_entry k c es) = length es + of_bool (k \<notin> fst ` set es)"
    by auto
qed

text \<open>Assignment through \<open>operator[]\<close> on a reserved block.\<close>

lemma cm_set_reserved:
  assumes "reserve_insert h m k = (h1, m1)"
  defines "b \<equiv> position_of h1 m1 k"
  defines "es \<equiv> block_entries (block_at h1 m1 b)"
  shows "cm_set h m k c =
    (modify (cm_blocks m1 ! b) (\<lambda>x. x\<lparr>block_entries := put_entry k c es\<rparr>) h1,
     m1\<lparr>cm_size := cm_size m1 + (length (put_entry k c es) - length es)\<rparr>)"
proof -
  let ?i = "lower_bound (\<lambda>e. fst e < k) es"
  have i: "entry_position (block_at h1 m1 b) k = ?i" by (simp add: entry_position_def es_def)
  have le: "?i \<le> length es" by (rule lower_bound_le)
  show ?thesis
  proof (cases "?i = length es \<or> fst (es ! ?i) \<noteq> k")
    case True
    then show ?thesis
      using assms(1) i le insert_at_props(2) [OF le, of "(k, c)"]
      by (auto simp: cm_set_def cm_at_def Let_def b_def [symmetric] es_def [symmetric] modify_modify
        put_entry_def insert_at_update)
  next
    case False
    have "modify (cm_blocks m1 ! b) (\<lambda>x. x\<lparr>block_entries := (block_entries x)[?i := (k, c)]\<rparr>) h1 =
        modify (cm_blocks m1 ! b) (\<lambda>x. x\<lparr>block_entries := es[?i := (k, c)]\<rparr>) h1"
      by (rule modify_at) (simp add: es_def block_at_def)
    then show ?thesis
      using assms(1) i False
      by (auto simp: cm_set_def cm_at_def Let_def b_def [symmetric] es_def [symmetric] put_entry_def)
  qed
qed

lemma map_ok_others:
  "\<forall>x \<in> set ms. map_ok f h x \<Longrightarrow> (\<And>x. x \<in> set ms \<Longrightarrow> cm_view h' x = cm_view h x) \<Longrightarrow>
   \<forall>x \<in> set ms. map_ok f h' x"
  by (simp add: map_ok_def)

lemma cm_set_spec:
  assumes ok: "heap_ok h (m # ms)" and map: "map_ok f h m" and s: "cm_set h m k c = (h', m')"
  shows "heap_ok h' (m' # ms)" "map_ok f h' m'" "cm_lookup h' m' = (cm_lookup h m)(k \<mapsto> c)"
    and "\<And>x. x \<in> set ms \<Longrightarrow> cm_view h' x = cm_view h x"
proof -
  obtain h1 m1 where r: "reserve_insert h m k = (h1, m1)" by (cases "reserve_insert h m k")
  note R = reserve_insert_spec [OF ok map r]
  define b where "b = position_of h1 m1 k"
  define es where "es = block_entries (block_at h1 m1 b)"
  note B = reserved_block [OF R(2,3) b_def es_def]
  note P = put_entry_spec [OF B(2), of k c]
  let ?g = "\<lambda>x. x\<lparr>block_entries := put_entry k c es\<rparr>"
  have st: "h' = modify (cm_blocks m1 ! b) ?g h1"
    "m' = m1\<lparr>cm_size := cm_size m1 + (length (put_entry k c es) - length es)\<rparr>"
    using cm_set_reserved [OF r, of c] s by (simp_all add: b_def es_def)
  have num: "block_number (block_at h1 m1 b) = k div block_size"
    using R(3) by (simp add: reserved_def Let_def b_def)
  have "\<forall>e \<in> set (put_entry k c es). fst e div block_size = k div block_size"
    using P(3) B(3) by (metis (no_types, lifting) image_iff insert_iff)
  then have bo: "block_ok (?g (block_at h1 m1 b))"
    using P(1) num by (simp add: block_ok_def)
  have sz: "cm_size m1 + (length (put_entry k c es) - length es) + length es
      = cm_size m1 + length (put_entry k c es)"
    using P(4) by simp
  note M = reserved_modify [OF R(1,2,3), where g = ?g and b = b and
      sz = "cm_size m1 + (length (put_entry k c es) - length es)", folded st]
  show "heap_ok h' (m' # ms)" "map_ok f h' m'"
    using M(1,2) bo sz by (simp_all add: b_def es_def)
  show "cm_view h' x = cm_view h x" if "x \<in> set ms" for x
    using M(4) [OF _ _ _ _ _ that] R(6) [OF that] bo sz by (simp add: b_def es_def)
  have "cm_lookup h' m' j = (if j div block_size = k div block_size
      then ((map_of es)(k \<mapsto> c)) j else cm_lookup h m j)" for j
    using M(5) [of j] bo sz P(2) R(4) by (simp add: b_def es_def cm_lookup_def)
  moreover have "cm_lookup h m j = map_of es j" if "j div block_size = k div block_size" for j
    using B(4) [OF that] R(4) by (simp add: cm_lookup_def)
  ultimately show "cm_lookup h' m' = (cm_lookup h m)(k \<mapsto> c)"
    by (auto simp: fun_eq_iff)
qed

section \<open>Removal\<close>

lemma count_list_remove_at:
  assumes "i < length xs"
  shows "count_list (remove_at i xs) a + of_bool (xs ! i = a) = count_list xs a"
proof -
  have "xs = take i xs @ xs ! i # drop (Suc i) xs" using assms by (simp add: id_take_nth_drop)
  then have "count_list xs a = count_list (take i xs @ xs ! i # drop (Suc i) xs) a" by simp
  then show ?thesis by (simp add: remove_at_def)
qed

lemma set_remove_at: "set (remove_at i xs) \<subseteq> set xs"
  by (auto simp: remove_at_def dest: in_set_takeD in_set_dropD)

text \<open>Dropping the pointer to one block.\<close>

lemma release_spec:
  assumes "heap_ok h (m # ms)" "b < length (cm_blocks m)"
  shows "heap_ok (release (cm_blocks m ! b) h) (m\<lparr>cm_blocks := remove_at b (cm_blocks m)\<rparr> # ms)"
    and "cm_view (release a h) x = cm_view h x"
proof -
  have "heap_count (release (cm_blocks m ! b) h) a =
      count_list (concat (map cm_blocks (m\<lparr>cm_blocks := remove_at b (cm_blocks m)\<rparr> # ms))) a" for a
    using assms(1) count_list_remove_at [OF assms(2), of a]
    by (auto simp: heap_ok_def release_def of_bool_def split: if_splits)
  then show "heap_ok (release (cm_blocks m ! b) h) (m\<lparr>cm_blocks := remove_at b (cm_blocks m)\<rparr> # ms)"
    using assms(1) set_remove_at [of b "cm_blocks m"]
    unfolding heap_ok_def by (intro conjI allI) (auto simp: release_def)
  show "cm_view (release a h) x = cm_view h x" by (simp add: cm_view_def release_def)
qed

lemma flat_remove_empty:
  assumes "b < length bs" "block_entries (bs ! b) = []"
  shows "flat (remove_at b bs) = flat bs" "blocks_ok bs \<Longrightarrow> blocks_ok (remove_at b bs)"
proof -
  have "bs = take b bs @ bs ! b # drop (Suc b) bs" using assms(1) by (simp add: id_take_nth_drop)
  then have "flat bs = flat (take b bs @ bs ! b # drop (Suc b) bs)" by simp
  then show "flat (remove_at b bs) = flat bs" using assms(2) by (simp add: remove_at_def)
  show "blocks_ok bs \<Longrightarrow> blocks_ok (remove_at b bs)"
    using sorted_remove_at [of block_number bs b] set_remove_at [of b bs] by (auto simp: blocks_ok_def)
qed

lemma found_reserved:
  assumes ok: "heap_ok h (m # ms)" and map: "map_ok f h m" and c: "cm_contains h m k"
    and w: "cm_writable h m (position_of h m k) = (h', m')"
  shows "reserve_insert h m k = (h', m')" "position_of h' m' k = position_of h m k"
proof -
  have c': "cm_find h m k \<noteq> None" using c by (simp add: cm_contains_def)
  have F: "\<not> (position_of h m k = length (cm_blocks m)
      \<or> block_number (block_at h m (position_of h m k)) \<noteq> k div block_size)"
    using c' by (auto simp: cm_find_def Let_def split: if_splits)
  then have b: "position_of h m k < length (cm_blocks m)" using position_le [of h m k] by auto
  show "reserve_insert h m k = (h', m')" using F w by (simp add: reserve_insert_def Let_def)
  note W = cm_writable_spec [OF ok b w]
  have "map block_number (cm_view h' m') = map block_number (cm_view h m)"
    using b by (simp add: W(5) map_update list_update_same_conv)
  then show "position_of h' m' k = position_of h m k"
    using lower_bound_numbers by (simp add: position_of_view)
qed

lemma cm_erase_spec:
  assumes ok: "heap_ok h (m # ms)" and map: "map_ok f h m" and e: "cm_erase h m k = (n, h', m')"
  shows "heap_ok h' (m' # ms)" "map_ok f h' m'" "cm_lookup h' m' = (cm_lookup h m)(k := None)"
    and "n = of_bool (cm_lookup h m k \<noteq> None)"
    and "\<And>x. x \<in> set ms \<Longrightarrow> cm_view h' x = cm_view h x"
proof -
  have "heap_ok h' (m' # ms) \<and> map_ok f h' m' \<and> cm_lookup h' m' = (cm_lookup h m)(k := None)
    \<and> n = of_bool (cm_lookup h m k \<noteq> None) \<and> (\<forall>x \<in> set ms. cm_view h' x = cm_view h x)"
  proof (cases "cm_contains h m k")
    case False
    then have "cm_lookup h m k = None" using cm_contains_lookup [OF map] by simp
    then show ?thesis using e ok map False by (auto simp: cm_erase_def)
  next
    case True
    let ?b = "position_of h m k"
    obtain h1 m1 where w: "cm_writable h m ?b = (h1, m1)" by (cases "cm_writable h m ?b")
    note fr = found_reserved [OF ok map True w]
    note R = reserve_insert_spec [OF ok map fr(1)]
    define es where "es = block_entries (block_at h1 m1 ?b)"
    note B = reserved_block [OF R(2,3) fr(2) [symmetric] es_def]
    define i where "i = lower_bound (\<lambda>e. fst e < k) es"
    have "cm_lookup h1 m1 k \<noteq> None"
      using True cm_contains_lookup [OF map] R(4) by (simp add: cm_lookup_def)
    then have "k \<in> fst ` set es" using B(4) [of k] by (simp add: map_of_eq_None_iff)
    then have "\<not> (i = length es \<or> fst (es ! i) \<noteq> k)"
      using lower_bound_absent [of fst es i k] B(2) by (auto simp: sorted_keys_def i_def)
    then have i: "i < length es" "fst (es ! i) = k"
      using lower_bound_le [of "\<lambda>e. fst e < k" es] by (auto simp: i_def)
    let ?es = "remove_at i es" and ?g = "\<lambda>x. x\<lparr>block_entries := remove_at i es\<rparr>"
    have flt: "?es = filter (\<lambda>e. fst e \<noteq> k) es"
      using remove_at_filter [OF sorted_keys_distinct [OF B(2)] i(1)] i(2) by simp
    have len: "length ?es + 1 = length es" using i(1) by (simp add: remove_at_def)
    let ?h2 = "modify (cm_blocks m1 ! ?b) ?g h1" and ?m2 = "m1\<lparr>cm_size := cm_size m1 - 1\<rparr>"
    have step: "modify (cm_blocks m1 ! ?b)
        (\<lambda>x. x\<lparr>block_entries := remove_at (entry_position x k) (block_entries x)\<rparr>) h1 = ?h2"
      by (rule modify_at) (simp add: es_def i_def block_at_def entry_position_def)
    have pos: "1 \<le> cm_size m1"
    proof -
      have "(k, snd (es ! i)) \<in> set es" using i by (metis nth_mem prod.collapse)
      moreover have "block_at h1 m1 ?b \<in> set (cm_view h1 m1)" using B(1) by (simp add: block_at_def cm_view_def)
      ultimately have "flat (cm_view h1 m1) \<noteq> []" by (force simp: flat_def es_def)
      then show ?thesis using R(2) by (cases "flat (cm_view h1 m1)") (auto simp: map_ok_def)
    qed
    have num: "block_number (block_at h1 m1 ?b) = k div block_size"
      using R(3) fr(2) by (simp add: reserved_def Let_def)
    have bo: "block_ok (?g (block_at h1 m1 ?b))"
      using sorted_remove_at [of fst es i] B(2,3) set_remove_at [of i es] num
      by (auto simp: block_ok_def sorted_keys_def)
    have sz: "cm_size m1 - 1 + length es = cm_size m1 + length ?es" using len pos by simp
    have g: "\<And>x. block_number (?g x) = block_number x" "\<And>x. block_encoded (?g x) = block_encoded x"
      by simp_all
    have sz': "cm_size m1 - 1 + length (block_entries (block_at h1 m1 ?b)) =
        cm_size m1 + length (block_entries (?g (block_at h1 m1 ?b)))"
      using sz by (simp add: es_def)
    note M = reserved_modify [OF R(1,2,3) g fr(2) [symmetric] bo sz']
    have M2: "heap_ok ?h2 (?m2 # ms)" "map_ok f ?h2 ?m2"
      "cm_view ?h2 ?m2 = (cm_view h1 m1)[?b := ?g (block_at h1 m1 ?b)]"
      using M(1,2,6) by simp_all
    have o2: "\<forall>x \<in> set ms. cm_view ?h2 x = cm_view h x"
      using M(4) R(6) by simp
    have look: "cm_lookup ?h2 ?m2 = (cm_lookup h m)(k := None)"
    proof
      fix j
      have "cm_lookup ?h2 ?m2 j = (if j div block_size = k div block_size
          then ((map_of es)(k := None)) j else cm_lookup h m j)"
        using M(5) [of j] R(4) flt by (simp add: cm_lookup_def map_of_filter_key)
      moreover have "cm_lookup h m j = map_of es j" if "j div block_size = k div block_size"
        using B(4) [OF that] R(4) by (simp add: cm_lookup_def)
      ultimately show "cm_lookup ?h2 ?m2 j = ((cm_lookup h m)(k := None)) j" by auto
    qed
    have n: "cm_lookup h m k \<noteq> None" using True cm_contains_lookup [OF map] by simp
    have ent: "block_entries (heap_block ?h2 (cm_blocks m1 ! ?b)) = ?es" by (simp add: modify_def)
    show ?thesis
    proof (cases "?es = []")
      case False
      then have "cm_erase h m k = (1, ?h2, ?m2)"
        using True w step ent by (simp add: cm_erase_def Let_def)
      then have "n = 1" "h' = ?h2" "m' = ?m2" using e by simp_all
      then show ?thesis using M2 o2 look n by simp
    next
      case empty: True
      let ?m3 = "?m2\<lparr>cm_blocks := remove_at ?b (cm_blocks ?m2)\<rparr>"
      have "cm_erase h m k = (1, release (cm_blocks m1 ! ?b) ?h2, ?m3)"
        using True w step ent empty by (simp add: cm_erase_def Let_def)
      then have eq: "n = 1" "h' = release (cm_blocks m1 ! ?b) ?h2" "m' = ?m3" using e by simp_all
      have b2: "?b < length (cm_blocks ?m2)" using B(1) by simp
      note S = release_spec [OF M2(1) b2]
      have v3: "cm_view (release (cm_blocks m1 ! ?b) ?h2) ?m3 = remove_at ?b (cm_view ?h2 ?m2)"
        by (simp add: S(2)) (simp add: cm_view_def map_remove_at)
      have "block_entries (cm_view ?h2 ?m2 ! ?b) = []"
        using B(1) empty by (simp add: modify_def)
      then have F: "flat (remove_at ?b (cm_view ?h2 ?m2)) = flat (cm_view ?h2 ?m2)"
        "blocks_ok (remove_at ?b (cm_view ?h2 ?m2))"
        using flat_remove_empty [of ?b "cm_view ?h2 ?m2"] b2 M2(2) by (simp_all add: map_ok_def)
      have "map_ok f h' m'"
        using eq v3 F M2(2) set_remove_at [of ?b "cm_view ?h2 ?m2"] by (auto simp: map_ok_def)
      moreover have "cm_lookup h' m' = (cm_lookup h m)(k := None)"
        using eq v3 F(1) look by (simp add: cm_lookup_def cm_entries_def)
      ultimately show ?thesis using eq S o2 n by simp
    qed
  qed
  then show "heap_ok h' (m' # ms)" "map_ok f h' m'" "cm_lookup h' m' = (cm_lookup h m)(k := None)"
    "n = of_bool (cm_lookup h m k \<noteq> None)" "\<And>x. x \<in> set ms \<Longrightarrow> cm_view h' x = cm_view h x" by auto
qed

end
