(* ===== verification/Chunk_Changes.thy ===== *)
theory Chunk_Changes
  imports Chunk_Directory
begin

text \<open>
  Copies, cached sizes, differences and iteration of the chunk directory of
  src/chunk_map.hpp and src/chunk_map.cpp.
\<close>

section \<open>Copies, sizes and differences\<close>

lemma cm_copy_spec:
  fixes h :: "'c Heap"
  assumes "heap_ok h (m # ms)" "cm_copy h m = (h', m')"
  shows "m' = m" "heap_ok h' (m' # m # ms)" "cm_view h' x = cm_view h x"
proof -
  let ?f = "\<lambda>a h. h\<lparr>heap_count := (heap_count h)(a := heap_count h a + 1)\<rparr>"
  have c: "heap_count (fold ?f as g) a = heap_count g a + count_list as a"
    "heap_block (fold ?f as g) = heap_block g" "heap_next (fold ?f as g) = heap_next g" for as a and g :: "'c Heap"
    by (induction as arbitrary: g) auto
  show "m' = m" using assms(2) by (simp add: cm_copy_def)
  then show "heap_ok h' (m' # m # ms)" "cm_view h' x = cm_view h x"
    using assms c by (auto simp: cm_copy_def heap_ok_def cm_view_def)
qed

lemma block_bytes_flat: "sum_list (map (block_bytes f) bs) =
    sum_list (map (\<lambda>e. case snd e of Some c \<Rightarrow> f c | None \<Rightarrow> 0) (flat bs))"
  by (induction bs) (simp_all add: block_bytes_def)

lemma encoded_blocks_spec:
  assumes "\<forall>a \<in> set as. cache_ok f (heap_block h a)" "encoded_blocks f as h = (n, h')"
  shows "n = sum_list (map (block_bytes f) (map (heap_block h) as))"
    and "heap_count h' = heap_count h" "heap_next h' = heap_next h"
    and "block_number (heap_block h' a) = block_number (heap_block h a)"
    and "block_entries (heap_block h' a) = block_entries (heap_block h a)"
    and "cache_ok f (heap_block h a) \<Longrightarrow> cache_ok f (heap_block h' a)"
proof -
  have "n = sum_list (map (block_bytes f) (map (heap_block h) as))
    \<and> heap_count h' = heap_count h \<and> heap_next h' = heap_next h
    \<and> (\<forall>a. block_number (heap_block h' a) = block_number (heap_block h a)
         \<and> block_entries (heap_block h' a) = block_entries (heap_block h a)
         \<and> (cache_ok f (heap_block h a) \<longrightarrow> cache_ok f (heap_block h' a)))"
    using assms
  proof (induction as arbitrary: h n h')
    case (Cons a as)
    let ?B = "heap_block h a"
    define h1 where "h1 = (case block_encoded ?B of Some n \<Rightarrow> h
        | None \<Rightarrow> modify a (\<lambda>b. b\<lparr>block_encoded := Some (block_bytes f ?B)\<rparr>) h)"
    obtain t h2 where r: "encoded_blocks f as h1 = (t, h2)" by (cases "encoded_blocks f as h1")
    have st: "n = block_bytes f ?B + t" "h' = h2"
      using Cons.prems r by (auto simp: Let_def cache_ok_def h1_def split: option.splits)
    have H: "heap_count h1 = heap_count h" "heap_next h1 = heap_next h"
      "block_number (heap_block h1 x) = block_number (heap_block h x)"
      "block_entries (heap_block h1 x) = block_entries (heap_block h x)"
      "block_bytes f (heap_block h1 x) = block_bytes f (heap_block h x)"
      "cache_ok f (heap_block h x) \<Longrightarrow> cache_ok f (heap_block h1 x)" for x
      by (auto simp: h1_def modify_def cache_ok_def block_bytes_def split: option.splits)
    have "\<forall>x \<in> set as. cache_ok f (heap_block h1 x)" using Cons.prems(1) H(6) by simp
    note IH = Cons.IH [OF this r]
    show ?case using IH st H by (simp add: comp_def)
  qed simp
  then show "n = sum_list (map (block_bytes f) (map (heap_block h) as))"
    "heap_count h' = heap_count h" "heap_next h' = heap_next h"
    "block_number (heap_block h' a) = block_number (heap_block h a)"
    "block_entries (heap_block h' a) = block_entries (heap_block h a)"
    "cache_ok f (heap_block h a) \<Longrightarrow> cache_ok f (heap_block h' a)" by auto
qed

lemma cm_encoded_spec:
  assumes ok: "world_ok f h (m # ms)" and e: "cm_encoded_bytes f h m = (n, h')"
  shows "n = sum_list (map (\<lambda>e. case snd e of Some c \<Rightarrow> f c | None \<Rightarrow> 0) (cm_entries h m))"
    and "world_ok f h' (m # ms)" "cm_entries h' x = cm_entries h x"
proof -
  have "\<forall>a \<in> set (cm_blocks m). cache_ok f (heap_block h a)"
    using ok by (simp add: world_ok_def map_ok_def cm_view_def)
  note E = encoded_blocks_spec [OF this e [unfolded cm_encoded_bytes_def]]
  show "n = sum_list (map (\<lambda>e. case snd e of Some c \<Rightarrow> f c | None \<Rightarrow> 0) (cm_entries h m))"
    using E(1) unfolding cm_entries_def cm_view_def block_bytes_flat .
  have fl: "flat (cm_view h' x) = flat (cm_view h x)" for x
    using E(5) by (simp add: flat_def cm_view_def comp_def)
  then show "cm_entries h' x = cm_entries h x" by (simp add: cm_entries_def)
  have "blocks_ok (cm_view h' x) = blocks_ok (cm_view h x)" for x
    using E(4,5) by (simp add: blocks_ok_def cm_view_def sorted_wrt_map block_ok_def)
  then have "map_ok f h x \<Longrightarrow> map_ok f h' x" for x
    using E(6) fl by (auto simp: map_ok_def cm_view_def)
  then show "world_ok f h' (m # ms)"
    using ok E(2,3) by (auto simp: world_ok_def heap_ok_def)
qed

text \<open>The flat difference of two sorted directories.\<close>

lemma changes_entries_Nil [simp]:
  "changes_entries xs [] = xs" "changes_entries [] ys = map (\<lambda>y. (fst y, None)) ys"
  by (induction xs, simp_all) (induction ys, simp_all)

lemma changes_entries_same: "changes_entries xs xs = []"
  by (induction xs) auto

lemma changes_entries_append:
  assumes "\<And>x y. x \<in> set xs1 \<union> set ys1 \<Longrightarrow> y \<in> set xs2 \<union> set ys2 \<Longrightarrow> fst x < fst y"
  shows "changes_entries (xs1 @ xs2) (ys1 @ ys2) = changes_entries xs1 ys1 @ changes_entries xs2 ys2"
  using assms
proof (induction xs1 ys1 rule: changes_entries.induct)
  case (2 x xs)
  then show ?case by (cases ys2) auto
next
  case (3 y ys)
  have "\<not> fst x < fst y \<and> fst y < fst x" if "x \<in> set xs2" for x
    using "3.prems" [of y x] that by auto
  then show ?case using 3 by (cases xs2) auto
qed auto

lemma changes_blocks_flat:
  assumes "blocks_ok (map (heap_block h) as)" "blocks_ok (map (heap_block h) bs)"
  shows "changes_blocks h as bs = changes_entries (flat (map (heap_block h) as)) (flat (map (heap_block h) bs))"
  using assms
proof (induction h as bs rule: changes_blocks.induct)
  case (4 h a as b bs)
  let ?E = "\<lambda>a. block_entries (heap_block h a)" and ?N = "\<lambda>a. block_number (heap_block h a)"
  have sep: "fst x < fst y" if "x \<in> set (?E c)" "y \<in> set (?E d)" "?N c < ?N d" "block_ok (heap_block h c)"
      "block_ok (heap_block h d)" for x y c d
    using that by (intro div_less_less [of "fst x" "fst y"]) (auto simp: block_ok_def)
  have mem: "\<exists>d \<in> set ds. y \<in> set (?E d)" if "y \<in> set (flat (map (heap_block h) ds))" for y ds
    using that by (auto simp: flat_def)
  have sepl: "fst x < fst y" if "x \<in> set (?E c)" "y \<in> set (flat (map (heap_block h) ds))"
      "\<forall>d \<in> set ds. ?N c < ?N d \<and> block_ok (heap_block h d)" "block_ok (heap_block h c)" for x y c ds
    using mem [OF that(2)] sep that by blast
  have ok: "block_ok (heap_block h a)" "block_ok (heap_block h b)"
    "\<forall>d \<in> set as. ?N a < ?N d \<and> block_ok (heap_block h d)"
    "\<forall>d \<in> set bs. ?N b < ?N d \<and> block_ok (heap_block h d)"
    using "4.prems" by (auto simp: blocks_ok_def)
  consider "?N a < ?N b" | "?N b < ?N a" | "?N a = ?N b" by (metis linorder_neqE)
  then show ?case
  proof cases
    case 1
    have "changes_entries (?E a @ flat (map (heap_block h) as)) ([] @ flat (map (heap_block h) (b # bs))) =
        changes_entries (?E a) [] @ changes_entries (flat (map (heap_block h) as)) (flat (map (heap_block h) (b # bs)))"
    proof (rule changes_entries_append)
      fix x y assume "x \<in> set (?E a) \<union> set []"
        "y \<in> set (flat (map (heap_block h) as)) \<union> set (flat (map (heap_block h) (b # bs)))"
      moreover have "\<forall>d \<in> set (b # bs). ?N a < ?N d \<and> block_ok (heap_block h d)" using ok 1 by fastforce
      ultimately show "fst x < fst y"
        using sepl [of x a y as] sepl [of x a y "b # bs"] ok by auto
    qed
    then show ?thesis using 1 4 by simp
  next
    case 2
    have "changes_entries ([] @ flat (map (heap_block h) (a # as))) (?E b @ flat (map (heap_block h) bs)) =
        changes_entries [] (?E b) @ changes_entries (flat (map (heap_block h) (a # as))) (flat (map (heap_block h) bs))"
    proof (rule changes_entries_append)
      fix x y assume "x \<in> set [] \<union> set (?E b)"
        "y \<in> set (flat (map (heap_block h) (a # as))) \<union> set (flat (map (heap_block h) bs))"
      moreover have "\<forall>d \<in> set (a # as). ?N b < ?N d \<and> block_ok (heap_block h d)" using ok 2 by fastforce
      ultimately show "fst x < fst y"
        using sepl [of x b y bs] sepl [of x b y "a # as"] ok by auto
    qed
    then show ?thesis using 2 4 by auto
  next
    case 3
    have "changes_entries (?E a @ flat (map (heap_block h) as)) (?E b @ flat (map (heap_block h) bs)) =
        changes_entries (?E a) (?E b) @ changes_entries (flat (map (heap_block h) as)) (flat (map (heap_block h) bs))"
    proof (rule changes_entries_append)
      fix x y assume "x \<in> set (?E a) \<union> set (?E b)"
        "y \<in> set (flat (map (heap_block h) as)) \<union> set (flat (map (heap_block h) bs))"
      then show "fst x < fst y"
        using sepl [of x a y as] sepl [of x a y bs] sepl [of x b y as] sepl [of x b y bs] ok 3 by auto
    qed
    then show ?thesis using 3 4 by (auto simp: changes_entries_same)
  qed
qed (simp_all)

lemma changes_entries_keys:
  "x \<in> set (changes_entries xs ys) \<Longrightarrow> fst x \<in> fst ` set xs \<union> fst ` set ys"
  by (induction xs ys rule: changes_entries.induct) (auto split: if_splits)

lemma changes_entries_sorted:
  assumes "sorted_keys xs" "sorted_keys ys"
  shows "sorted_keys (changes_entries xs ys)"
  using assms
proof (induction xs ys rule: changes_entries.induct)
  case (4 x xs y ys)
  have x: "\<And>w. w \<in> set xs \<Longrightarrow> fst x < fst w" and y: "\<And>w. w \<in> set ys \<Longrightarrow> fst y < fst w"
    using "4.prems" by (auto simp: sorted_keys_def)
  have s: "sorted_keys xs" "sorted_keys ys" using "4.prems" by (auto simp: sorted_keys_def)
  consider "fst x < fst y" | "fst y < fst x" | "fst x = fst y" by (metis linorder_neqE)
  then show ?case
  proof cases
    case 1
    have "fst x < fst z" if "z \<in> set (changes_entries xs (y # ys))" for z
      using changes_entries_keys [OF that] x y 1 by fastforce
    then show ?thesis using 4 s 1 by (auto simp: sorted_keys_def)
  next
    case 2
    have "fst y < fst z" if "z \<in> set (changes_entries (x # xs) ys)" for z
      using changes_entries_keys [OF that] x y 2 by fastforce
    then show ?thesis using 4 s 2 by (auto simp: sorted_keys_def)
  next
    case 3
    have "fst x < fst z" if "z \<in> set (changes_entries xs ys)" for z
      using changes_entries_keys [OF that] x y 3 by fastforce
    then show ?thesis using 4 s 3 by (auto simp: sorted_keys_def)
  qed
qed (auto simp: sorted_keys_def sorted_wrt_map)

text \<open>The change of one id: unchanged, the new reference, or a deletion.\<close>

definition change_of :: "'c option option \<Rightarrow> 'c option option \<Rightarrow> 'c option option" where
  "change_of after before =
     (if after = before then None else Some (case after of Some c \<Rightarrow> c | None \<Rightarrow> None))"

lemma sorted_keys_Cons: "sorted_keys (x # xs) \<longleftrightarrow> (\<forall>z \<in> fst ` set xs. fst x < z) \<and> sorted_keys xs"
  by (auto simp: sorted_keys_def)

lemma map_of_below:
  assumes "sorted_keys (x # xs)" "k \<le> fst x" "k \<noteq> fst x"
  shows "map_of (x # xs) k = None"
  using assms by (fastforce simp: sorted_keys_Cons map_of_eq_None_iff)

lemma changes_entries_map:
  assumes "sorted_keys xs" "sorted_keys ys"
  shows "map_of (changes_entries xs ys) k = change_of (map_of xs k) (map_of ys k)"
  using assms
proof (induction xs ys rule: changes_entries.induct)
  case (2 x xs)
  then show ?case by (auto simp: sorted_keys_Cons change_of_def split: option.splits)
next
  case (3 y ys)
  then show ?case by (auto simp: sorted_keys_Cons change_of_def split: option.splits)
next
  case (4 x xs y ys)
  have s: "sorted_keys xs" "sorted_keys ys" using "4.prems" by (simp_all add: sorted_keys_Cons)
  consider "fst x < fst y" | "fst y < fst x" | "fst x = fst y" by (metis linorder_neqE)
  then show ?case
  proof cases
    case 1
    have "map_of (y # ys) (fst x) = None" by (rule map_of_below) (use 1 "4.prems" in auto)
    then show ?thesis using 1 4 s by (auto simp: change_of_def)
  next
    case 2
    have "map_of (x # xs) (fst y) = None" by (rule map_of_below) (use 2 "4.prems" in auto)
    then show ?thesis using 2 4 s by (auto simp: change_of_def)
  next
    case 3
    have "fst x \<notin> fst ` set xs" "fst x \<notin> fst ` set ys" using "4.prems" 3 by (auto simp: sorted_keys_Cons)
    then have "map_of (changes_entries xs ys) (fst x) = None"
      using changes_entries_keys [of _ xs ys] by (fastforce simp: map_of_eq_None_iff)
    then show ?thesis using 3 4 s by (auto simp: change_of_def)
  qed
qed (simp add: change_of_def)

section \<open>Removing null references\<close>

lemma remove_empty_block_spec:
  assumes ok: "heap_ok h (m # ms)" and map: "map_ok f h m" and b: "b < length (cm_blocks m)"
    and r: "remove_empty_block b (h, m) = (h', m')"
  shows "heap_ok h' (m' # ms)" "map_ok f h' m'" "length (cm_blocks m') = length (cm_blocks m)"
    and "\<And>x. x \<in> set ms \<Longrightarrow> cm_view h' x = cm_view h x"
    and "map block_entries (cm_view h' m') = (map block_entries (cm_view h m))
      [b := filter (\<lambda>e. \<not> null_entry e) (block_entries (cm_view h m ! b))]"
proof -
  have "heap_ok h' (m' # ms) \<and> map_ok f h' m' \<and> length (cm_blocks m') = length (cm_blocks m)
    \<and> (\<forall>x \<in> set ms. cm_view h' x = cm_view h x)
    \<and> map block_entries (cm_view h' m') = (map block_entries (cm_view h m))
      [b := filter (\<lambda>e. \<not> null_entry e) (block_entries (cm_view h m ! b))]"
  proof (cases "list_ex null_entry (block_entries (block_at h m b))")
    case False
    then have "filter (\<lambda>e. \<not> null_entry e) (block_entries (cm_view h m ! b)) = block_entries (cm_view h m ! b)"
      using b by (simp add: block_at_def list_ex_iff filter_id_conv)
    moreover have "h' = h" "m' = m" using r False by (simp_all add: remove_empty_block_def)
    moreover have "(map block_entries (cm_view h m))[b := block_entries (cm_view h m ! b)] =
        map block_entries (cm_view h m)"
      by (metis list_update_id map_update)
    ultimately show ?thesis using ok map by simp
  next
    case True
    obtain h1 m1 where w: "cm_writable h m b = (h1, m1)" by (cases "cm_writable h m b")
    note W = cm_writable_spec [OF ok b w]
    let ?es = "block_entries (block_at h1 m1 b)"
    have b1: "b < length (cm_blocks m1)" using W(3) b by simp
    have es: "?es = block_entries (cm_view h m ! b)"
      using W(5) b1 b by (metis block_at_def cm_view_length cm_view_nth forget_size_simps(2) nth_list_update_eq)
    let ?g = "\<lambda>x. x\<lparr>block_entries := filter (\<lambda>e. \<not> null_entry e) ?es\<rparr>"
    have st: "h' = modify (cm_blocks m1 ! b) ?g h1"
      "m' = m1\<lparr>cm_size := cm_size m1 - length (filter null_entry ?es)\<rparr>"
      using r True w by (simp_all add: remove_empty_block_def Let_def)
    note M = modify_owned [OF W(1) b1 W(2), where f = ?g, folded st(1)]
    have v1: "cm_view h1 m1 ! b = forget_size (cm_view h m ! b)" using W(5) b by simp
    have v: "cm_view h' m' = (cm_view h m)[b := ?g (forget_size (cm_view h m ! b))]"
      using M(2) W(5) v1 by (simp add: st(2) cm_view_def [of _ "m1\<lparr>cm_size := _\<rparr>"] cm_view_def [of _ m1, symmetric])
    have bo: "blocks_ok (cm_view h m)" using map by (simp add: map_ok_def)
    have "block_ok (cm_view h m ! b)" using bo b nth_mem [of b "cm_view h m"] by (simp add: blocks_ok_def)
    then have g: "block_ok (?g (forget_size (cm_view h m ! b)))"
      using es by (auto simp: block_ok_def sorted_keys_def sorted_wrt_filter)
    have len: "length (flat (cm_view h' m')) + length ?es = length (flat (cm_view h m)) + length (filter (\<lambda>e. \<not> null_entry e) ?es)"
      using flat_length_update [of b "cm_view h m" "?g (forget_size (cm_view h m ! b))"] b es
      by (simp add: v)
    have "length (filter null_entry ?es) + length (filter (\<lambda>e. \<not> null_entry e) ?es) = length ?es"
      by (rule sum_length_filter_compl)
    then have "cm_size m' = length (flat (cm_view h' m'))"
      using len map W(4) by (simp add: st(2) map_ok_def)
    moreover have "blocks_ok (cm_view h' m')"
      unfolding v by (rule flat_update(1) [OF bo]) (use b g in simp_all)
    moreover have "\<forall>x \<in> set (cm_view h' m'). cache_ok f x"
      using map set_update_subset_insert [of "cm_view h m" b "?g (forget_size (cm_view h m ! b))"]
      by (auto simp: v map_ok_def cache_ok_def)
    ultimately have "map_ok f h' m'" by (simp add: map_ok_def)
    moreover have "map block_entries (cm_view h' m') = (map block_entries (cm_view h m))
      [b := filter (\<lambda>e. \<not> null_entry e) (block_entries (cm_view h m ! b))]"
      using es by (simp add: v map_update)
    moreover have "heap_ok h' (m' # ms)" using M(1) by (simp add: st(2) heap_ok_def)
    ultimately show ?thesis using M(3) W(3,6) by (simp add: st(2))
  qed
  then show "heap_ok h' (m' # ms)" "map_ok f h' m'" "length (cm_blocks m') = length (cm_blocks m)"
    "\<And>x. x \<in> set ms \<Longrightarrow> cm_view h' x = cm_view h x"
    "map block_entries (cm_view h' m') = (map block_entries (cm_view h m))
      [b := filter (\<lambda>e. \<not> null_entry e) (block_entries (cm_view h m ! b))]" by auto
qed

lemma remove_empty_fold:
  assumes ok: "heap_ok h (m # ms)" and map: "map_ok f h m" and "n \<le> length (cm_blocks m)"
    and "fold remove_empty_block [0..<n] (h, m) = (h', m')"
  shows "heap_ok h' (m' # ms) \<and> map_ok f h' m' \<and> length (cm_blocks m') = length (cm_blocks m)
    \<and> (\<forall>x \<in> set ms. cm_view h' x = cm_view h x)
    \<and> map block_entries (cm_view h' m') =
      map (\<lambda>i. if i < n then filter (\<lambda>e. \<not> null_entry e) (block_entries (cm_view h m ! i))
               else block_entries (cm_view h m ! i)) [0..<length (cm_blocks m)]"
  using assms(3,4)
proof (induction n arbitrary: h' m')
  case 0
  have "map block_entries (cm_view h m) =
      map (\<lambda>i. block_entries (cm_view h m ! i)) [0..<length (cm_blocks m)]"
    by (rule nth_equalityI) simp_all
  then show ?case using 0 ok map by simp
next
  case (Suc n)
  obtain h1 m1 where s: "fold remove_empty_block [0..<n] (h, m) = (h1, m1)"
    by (cases "fold remove_empty_block [0..<n] (h, m)")
  have IH: "heap_ok h1 (m1 # ms)" "map_ok f h1 m1" "length (cm_blocks m1) = length (cm_blocks m)"
    "\<forall>x \<in> set ms. cm_view h1 x = cm_view h x"
    "map block_entries (cm_view h1 m1) =
      map (\<lambda>i. if i < n then filter (\<lambda>e. \<not> null_entry e) (block_entries (cm_view h m ! i))
               else block_entries (cm_view h m ! i)) [0..<length (cm_blocks m)]"
    using Suc.IH [OF _ s] Suc.prems(1) by auto
  have n: "n < length (cm_blocks m1)" using IH(3) Suc.prems(1) by simp
  have "remove_empty_block n (h1, m1) = (h', m')" using Suc.prems(2) s by simp
  note R = remove_empty_block_spec [OF IH(1,2) n this]
  have "block_entries (cm_view h1 m1 ! n) = block_entries (cm_view h m ! n)"
    using arg_cong [OF IH(5), of "\<lambda>l. l ! n"] n Suc.prems(1) IH(3) by simp
  then have "map block_entries (cm_view h' m') =
      map (\<lambda>i. if i < Suc n then filter (\<lambda>e. \<not> null_entry e) (block_entries (cm_view h m ! i))
               else block_entries (cm_view h m ! i)) [0..<length (cm_blocks m)]"
    unfolding R(5) IH(5) using Suc.prems(1)
    by (intro nth_equalityI) (auto simp: nth_list_update less_Suc_eq)
  then show ?case using R IH by simp
qed

lemma filter_blocks:
  "flat (filter (\<lambda>b. block_entries b \<noteq> []) bs) = flat bs"
  "blocks_ok bs \<Longrightarrow> blocks_ok (filter P bs)"
  by (induction bs) auto

lemma release_fold:
  "heap_count (fold release as h) a = heap_count h a - count_list as a"
  "heap_block (fold release as h) = heap_block h" "heap_next (fold release as h) = heap_next h"
  by (induction as arbitrary: h) (auto simp: release_def)

lemma count_list_filter: "count_list (filter P xs) a = (if P a then count_list xs a else 0)"
  by (induction xs) auto

lemma remove_empty_spec:
  assumes ok: "heap_ok h (m # ms)" and map: "map_ok f h m" and r: "remove_empty h m = (h', m')"
  shows "heap_ok h' (m' # ms)" "map_ok f h' m'"
    and "cm_entries h' m' = filter (\<lambda>e. \<not> null_entry e) (cm_entries h m)"
    and "\<And>x. x \<in> set ms \<Longrightarrow> cm_view h' x = cm_view h x"
proof -
  obtain h1 m1 where s: "fold remove_empty_block [0..<length (cm_blocks m)] (h, m) = (h1, m1)"
    by (cases "fold remove_empty_block [0..<length (cm_blocks m)] (h, m)")
  note F = remove_empty_fold [OF ok map order_refl s]
  let ?P = "\<lambda>a. block_entries (heap_block h1 a) = []"
  have st: "h' = fold release (filter ?P (cm_blocks m1)) h1"
    "m' = m1\<lparr>cm_blocks := filter (\<lambda>a. \<not> ?P a) (cm_blocks m1)\<rparr>"
    using r s by (simp_all add: remove_empty_def)
  have v: "cm_view h' m' = filter (\<lambda>b. block_entries b \<noteq> []) (cm_view h1 m1)"
    by (simp add: st cm_view_def release_fold filter_map comp_def)
  have "map block_entries (cm_view h1 m1) = map (filter (\<lambda>e. \<not> null_entry e)) (map block_entries (cm_view h m))"
    using F by (intro nth_equalityI) (auto dest: arg_cong [of _ _ length] nth_map)
  then have "flat (cm_view h1 m1) = filter (\<lambda>e. \<not> null_entry e) (flat (cm_view h m))"
    by (simp only: flat_def filter_concat)
  then show "cm_entries h' m' = filter (\<lambda>e. \<not> null_entry e) (cm_entries h m)"
    by (simp add: cm_entries_def v filter_blocks)
  show "map_ok f h' m'"
    using F by (simp add: map_ok_def v filter_blocks) (simp add: st)
  have "count_list (concat (map cm_blocks (m1 # ms))) a - count_list (filter ?P (cm_blocks m1)) a
      = count_list (concat (map cm_blocks (m' # ms))) a" for a
    by (simp add: st count_list_filter)
  then show "heap_ok h' (m' # ms)"
    using F unfolding heap_ok_def by (simp add: st release_fold)
  show "\<And>x. x \<in> set ms \<Longrightarrow> cm_view h' x = cm_view h x"
    using F by (simp add: st cm_view_def release_fold)
qed

section \<open>Iteration\<close>

definition iterator_rank :: "'c Heap \<Rightarrow> ChunkMap \<Rightarrow> nat \<times> nat \<Rightarrow> nat" where
  "iterator_rank h m it = length (flat (take (fst it) (cm_view h m))) + snd it"

definition iterator_at :: "'c Heap \<Rightarrow> ChunkMap \<Rightarrow> nat \<Rightarrow> nat \<times> nat \<Rightarrow> bool" where
  "iterator_at h m n it \<longleftrightarrow> iterator_rank h m it = n
     \<and> (if n = length (cm_entries h m) then it = (length (cm_blocks m), 0)
        else fst it < length (cm_blocks m) \<and> snd it < length (block_entries (block_at h m (fst it))))"

lemma skip_empty_spec:
  "skip_empty bs \<le> length bs" "flat (take (skip_empty bs) bs) = []"
  "skip_empty bs < length bs \<Longrightarrow> block_entries (bs ! skip_empty bs) \<noteq> []"
  by (induction bs) auto

lemma iterator_start:
  assumes "b \<le> length (cm_blocks m)"
  shows "iterator_at h m (length (flat (take b (cm_view h m)))) (cm_iterator h m b 0)"
proof -
  let ?bs = "cm_view h m"
  let ?s = "skip_empty (drop b ?bs)"
  have it: "cm_iterator h m b 0 = (b + ?s, 0)" by (simp add: cm_iterator_def cm_view_def drop_map)
  note S = skip_empty_spec [of "drop b ?bs"]
  have rank: "iterator_rank h m (b + ?s, 0) = length (flat (take b ?bs))"
    using S(2) by (simp add: iterator_rank_def take_add)
  show ?thesis
  proof (cases "b + ?s < length ?bs")
    case True
    then have ne: "block_entries (?bs ! (b + ?s)) \<noteq> []" using S(3) by simp
    have "flat ?bs = flat (take (b + ?s) ?bs) @ flat (drop (b + ?s) ?bs)"
      by (metis append_take_drop_id flat_simps(3))
    moreover have "drop (b + ?s) ?bs = ?bs ! (b + ?s) # drop (Suc (b + ?s)) ?bs"
      using True Cons_nth_drop_Suc [of "b + ?s" ?bs] by simp
    ultimately have "length (flat (take b ?bs)) < length (flat ?bs)"
      using ne rank by (simp add: iterator_rank_def)
    then show ?thesis
      using True ne rank it by (simp add: iterator_at_def cm_entries_def block_at_def)
  next
    case False
    then have e: "b + ?s = length ?bs" using S(1) assms by simp
    then have "length (flat (take b ?bs)) = length (flat ?bs)"
      using rank by (simp add: iterator_rank_def)
    then show ?thesis
      using e rank it by (simp add: iterator_at_def cm_entries_def)
  qed
qed

lemma take_Suc_flat:
  assumes "b < length (cm_blocks m)"
  shows "flat (take (Suc b) (cm_view h m)) = flat (take b (cm_view h m)) @ block_entries (block_at h m b)"
  using assms by (simp add: take_Suc_conv_app_nth block_at_def)

lemma iterator_next_spec:
  assumes "iterator_at h m n it" "n < length (cm_entries h m)"
  shows "iterator_at h m (Suc n) (iterator_next h m it)"
    and "block_entries (block_at h m (fst it)) ! snd it = cm_entries h m ! n"
proof -
  obtain b i where it: "it = (b, i)" by (cases it)
  have b: "b < length (cm_blocks m)" and i: "i < length (block_entries (block_at h m b))"
    and n: "n = length (flat (take b (cm_view h m))) + i"
    using assms by (auto simp: iterator_at_def iterator_rank_def it split: if_splits)
  have fl: "cm_entries h m = flat (take b (cm_view h m)) @ block_entries (block_at h m b)
      @ flat (drop (Suc b) (cm_view h m))"
    using take_Suc_flat [OF b, of h]
    by (metis append.assoc append_take_drop_id cm_entries_def flat_simps(3))
  show "block_entries (block_at h m (fst it)) ! snd it = cm_entries h m ! n"
    using n i by (simp add: fl it nth_append)
  show "iterator_at h m (Suc n) (iterator_next h m it)"
  proof (cases "Suc i = length (block_entries (block_at h m b))")
    case True
    then have "Suc n = length (flat (take (Suc b) (cm_view h m)))"
      using n by (simp add: take_Suc_flat [OF b])
    then show ?thesis
      using iterator_start [of "Suc b" m h] b True by (simp add: iterator_next_def it)
  next
    case False
    then have "Suc n < length (cm_entries h m)" using n i by (simp add: fl)
    then show ?thesis
      using False b i n by (simp add: iterator_next_def it iterator_at_def iterator_rank_def)
  qed
qed

lemma iterator_reaches: "n \<le> length (cm_entries h m) \<Longrightarrow>
   iterator_at h m n ((iterator_next h m ^^ n) (cm_begin h m))"
proof (induction n)
  case 0
  then show ?case using iterator_start [of 0 m h] by (simp add: cm_begin_def)
next
  case (Suc n)
  then show ?case using iterator_next_spec(1) [of h m n] by simp
qed

lemma iterator_unique:
  assumes "iterator_at h m n (b, i)" "iterator_at h m n (c, j)"
  shows "(b, i) = (c, j)"
proof (cases "n = length (cm_entries h m)")
  case True
  then show ?thesis using assms by (simp add: iterator_at_def)
next
  case False
  have mono: "length (flat (take b (cm_view h m))) + length (block_entries (block_at h m b))
      \<le> length (flat (take c (cm_view h m)))" if "b < c" "c \<le> length (cm_blocks m)" for b c
  proof -
    have "take c (cm_view h m) = take (Suc b) (cm_view h m) @ drop (Suc b) (take c (cm_view h m))"
      using that by (metis Suc_leI append_take_drop_id min.absorb1 take_take)
    then have "flat (take c (cm_view h m)) = flat (take (Suc b) (cm_view h m)) @ flat (drop (Suc b) (take c (cm_view h m)))"
      by (metis flat_simps(3))
    then show ?thesis using take_Suc_flat [of b m h] that by simp
  qed
  have "b = c"
  proof (rule ccontr)
    assume "b \<noteq> c"
    then consider "b < c" | "c < b" by linarith
    then show False
      using mono [of b c] mono [of c b] assms False
      by cases (auto simp: iterator_at_def iterator_rank_def)
  qed
  then show ?thesis using assms False by (auto simp: iterator_at_def iterator_rank_def)
qed

lemma back_block_spec:
  assumes "b \<le> length (cm_blocks m)" "flat (take b (cm_view h m)) \<noteq> []"
  shows "back_block h m b < length (cm_blocks m)" "block_entries (block_at h m (back_block h m b)) \<noteq> []"
    "length (flat (take b (cm_view h m))) =
     length (flat (take (back_block h m b) (cm_view h m))) + length (block_entries (block_at h m (back_block h m b)))"
  using assms
  by (induction b) (auto simp: take_Suc_flat split: if_splits)

lemma iterator_prev_spec:
  assumes "iterator_at h m (Suc n) it" "Suc n \<le> length (cm_entries h m)"
  shows "iterator_at h m n (iterator_prev h m it)"
proof -
  obtain b i where it: "it = (b, i)" by (cases it)
  have b: "b \<le> length (cm_blocks m)" and n: "Suc n = length (flat (take b (cm_view h m))) + i"
    and i: "b < length (cm_blocks m) \<Longrightarrow> i < length (block_entries (block_at h m b))"
    and e: "b = length (cm_blocks m) \<Longrightarrow> i = 0"
    using assms by (auto simp: iterator_at_def iterator_rank_def it split: if_splits)
  show ?thesis
  proof (cases "i = 0")
    case True
    then have "flat (take b (cm_view h m)) \<noteq> []" using n by auto
    note B = back_block_spec [OF b this]
    have "0 < length (block_entries (block_at h m (back_block h m b)))" using B(2) by simp
    then show ?thesis
      using B(1,3) n True assms(2)
      by (simp add: iterator_prev_def it iterator_at_def iterator_rank_def Let_def del: length_greater_0_conv)
  next
    case False
    then have "b < length (cm_blocks m)" using b e by (metis nat_less_le)
    then show ?thesis
      using False n i assms(2) by (auto simp: iterator_prev_def it iterator_at_def iterator_rank_def)
  qed
qed

end
