(* ===== verification/Chunk_Map_Spec.thy ===== *)
theory Chunk_Map_Spec
  imports Chunk_Changes "HOL-Library.Multiset"
begin

text \<open>
  The contract of the chunk directory of src/chunk_map.hpp: a family of live
  directories behaves as a family of independent finite maps, and the
  difference of two directories turns one into the other.
\<close>

section \<open>Finite map stores\<close>

text \<open>What a client of a store with lookup, assignment and removal relies on.\<close>

locale map_store =
  fixes get :: "'s \<Rightarrow> 'k \<Rightarrow> 'v option" and put :: "'s \<Rightarrow> 'k \<Rightarrow> 'v \<Rightarrow> 's"
    and del :: "'s \<Rightarrow> 'k \<Rightarrow> 's" and inv :: "'s \<Rightarrow> bool"
  assumes inv_put: "inv s \<Longrightarrow> inv (put s k v)" and inv_del: "inv s \<Longrightarrow> inv (del s k)"
    and get_put: "inv s \<Longrightarrow> get (put s k v) = (get s)(k \<mapsto> v)"
    and get_del: "inv s \<Longrightarrow> get (del s k) = (get s)(k := None)"
begin

definition apply_change :: "'k \<times> 'v option \<Rightarrow> 's \<Rightarrow> 's" where
  "apply_change e s = (case snd e of Some v \<Rightarrow> put s (fst e) v | None \<Rightarrow> del s (fst e))"

lemma apply_change_spec:
  assumes "inv s" shows "inv (apply_change e s)" "get (apply_change e s) = (get s)(fst e := snd e)"
  using assms by (auto simp: apply_change_def inv_put inv_del get_put get_del split: option.splits)

lemma apply_changes_inv: "inv s \<Longrightarrow> inv (fold apply_change es s)"
  by (induction es arbitrary: s) (auto simp: apply_change_spec)

lemma apply_changes_get:
  "inv s \<Longrightarrow> distinct (map fst es) \<Longrightarrow>
   get (fold apply_change es s) k = (case map_of es k of Some c \<Rightarrow> c | None \<Rightarrow> get s k)"
proof (induction es arbitrary: s)
  case (Cons e es)
  have "map_of es (fst e) = None" using Cons.prems(2) by (simp add: map_of_eq_None_iff)
  then show ?case
    using Cons apply_change_spec [OF Cons.prems(1), of e] by (auto split: option.splits)
qed simp

end

text \<open>The directory as such a store, whatever other directories are alive.\<close>

definition dir_get :: "'c Heap \<times> ChunkMap \<Rightarrow> u64 \<Rightarrow> 'c option option" where
  "dir_get s k = cm_get (fst s) (snd s) k"

definition dir_put :: "'c Heap \<times> ChunkMap \<Rightarrow> u64 \<Rightarrow> 'c option \<Rightarrow> 'c Heap \<times> ChunkMap" where
  "dir_put s k c = cm_set (fst s) (snd s) k c"

definition dir_del :: "'c Heap \<times> ChunkMap \<Rightarrow> u64 \<Rightarrow> 'c Heap \<times> ChunkMap" where
  "dir_del s k = snd (cm_erase (fst s) (snd s) k)"

definition dir_inv :: "('c \<Rightarrow> nat) \<Rightarrow> ChunkMap list \<Rightarrow> 'c Heap \<times> ChunkMap \<Rightarrow> bool" where
  "dir_inv f ms s \<longleftrightarrow> world_ok f (fst s) (snd s # ms)"

lemma dir_inv_get: "dir_inv f ms s \<Longrightarrow> dir_get s = cm_lookup (fst s) (snd s)"
  by (auto simp: dir_inv_def world_ok_def dir_get_def fun_eq_iff cm_get_lookup)

lemma dir_put_spec:
  assumes "dir_inv f ms s"
  shows "dir_inv f ms (dir_put s k c)" "dir_get (dir_put s k c) = (dir_get s)(k \<mapsto> c)"
    "x \<in> set ms \<Longrightarrow> cm_view (fst (dir_put s k c)) x = cm_view (fst s) x"
proof -
  obtain h m h' m' where s: "s = (h, m)" "cm_set h m k c = (h', m')"
    by (cases s, cases "cm_set (fst s) (snd s) k c") auto
  have ok: "heap_ok h (m # ms)" "map_ok f h m" "\<forall>x \<in> set ms. map_ok f h x"
    using assms s by (auto simp: dir_inv_def world_ok_def)
  note S = cm_set_spec [OF ok(1,2) s(2)]
  show inv: "dir_inv f ms (dir_put s k c)"
    using S map_ok_others [OF ok(3) S(4)] s by (simp add: dir_put_def dir_inv_def world_ok_def)
  show "dir_get (dir_put s k c) = (dir_get s)(k \<mapsto> c)"
    using S(3) s unfolding dir_inv_get [OF inv] dir_inv_get [OF assms] by (simp add: dir_put_def)
  show "x \<in> set ms \<Longrightarrow> cm_view (fst (dir_put s k c)) x = cm_view (fst s) x"
    using S(4) s by (simp add: dir_put_def)
qed

lemma dir_del_spec:
  assumes "dir_inv f ms s"
  shows "dir_inv f ms (dir_del s k)" "dir_get (dir_del s k) = (dir_get s)(k := None)"
    "x \<in> set ms \<Longrightarrow> cm_view (fst (dir_del s k)) x = cm_view (fst s) x"
proof -
  obtain h m n h' m' where s: "s = (h, m)" "cm_erase h m k = (n, h', m')"
    by (cases s, cases "cm_erase (fst s) (snd s) k") auto
  have ok: "heap_ok h (m # ms)" "map_ok f h m" "\<forall>x \<in> set ms. map_ok f h x"
    using assms s by (auto simp: dir_inv_def world_ok_def)
  note S = cm_erase_spec [OF ok(1,2) s(2)]
  show inv: "dir_inv f ms (dir_del s k)"
    using S map_ok_others [OF ok(3) S(5)] s by (simp add: dir_del_def dir_inv_def world_ok_def)
  show "dir_get (dir_del s k) = (dir_get s)(k := None)"
    using S(3) s unfolding dir_inv_get [OF inv] dir_inv_get [OF assms] by (simp add: dir_del_def)
  show "x \<in> set ms \<Longrightarrow> cm_view (fst (dir_del s k)) x = cm_view (fst s) x"
    using S(5) s by (simp add: dir_del_def)
qed

interpretation dir: map_store dir_get dir_put dir_del "dir_inv f ms" for f ms
  by unfold_locales (simp_all add: dir_put_spec dir_del_spec)

section \<open>A family of directories\<close>

text \<open>
  The operations on the live directories of a process, numbered in the order of
  their creation: a new one, a copy of one, and the mutations of one.
\<close>

datatype 'c DirOp =
    DirNew
  | DirCopy nat
  | DirSet nat u64 "'c option"
  | DirEmplace nat u64 "'c option"
  | DirErase nat u64
  | DirRemoveEmpty nat
  | DirSize nat

fun dir_exec :: "('c \<Rightarrow> nat) \<Rightarrow> 'c DirOp \<Rightarrow> 'c Heap \<times> ChunkMap list \<Rightarrow> 'c Heap \<times> ChunkMap list" where
  "dir_exec f DirNew (h, ms) = (h, ms @ [empty_map])"
| "dir_exec f (DirCopy i) (h, ms) =
     (if i < length ms then (case cm_copy h (ms ! i) of (h, m) \<Rightarrow> (h, ms @ [m])) else (h, ms))"
| "dir_exec f (DirSet i k c) (h, ms) =
     (if i < length ms then (case cm_set h (ms ! i) k c of (h, m) \<Rightarrow> (h, ms[i := m])) else (h, ms))"
| "dir_exec f (DirEmplace i k c) (h, ms) =
     (if i < length ms then (case cm_emplace h (ms ! i) k c of (h, m) \<Rightarrow> (h, ms[i := m])) else (h, ms))"
| "dir_exec f (DirErase i k) (h, ms) =
     (if i < length ms then (case cm_erase h (ms ! i) k of (_, h, m) \<Rightarrow> (h, ms[i := m])) else (h, ms))"
| "dir_exec f (DirRemoveEmpty i) (h, ms) =
     (if i < length ms then (case remove_empty h (ms ! i) of (h, m) \<Rightarrow> (h, ms[i := m])) else (h, ms))"
| "dir_exec f (DirSize i) (h, ms) =
     (if i < length ms then (snd (cm_encoded_bytes f h (ms ! i)), ms) else (h, ms))"

text \<open>The specification: independent finite maps, a null reference removed by \<open>remove_empty\<close>.\<close>

fun map_exec :: "'c DirOp \<Rightarrow> (u64 \<rightharpoonup> 'c option) list \<Rightarrow> (u64 \<rightharpoonup> 'c option) list" where
  "map_exec DirNew ms = ms @ [Map.empty]"
| "map_exec (DirCopy i) ms = (if i < length ms then ms @ [ms ! i] else ms)"
| "map_exec (DirSet i k c) ms = (if i < length ms then ms[i := (ms ! i)(k \<mapsto> c)] else ms)"
| "map_exec (DirEmplace i k c) ms =
     (if i < length ms \<and> (ms ! i) k = None then ms[i := (ms ! i)(k \<mapsto> c)] else ms)"
| "map_exec (DirErase i k) ms = (if i < length ms then ms[i := (ms ! i)(k := None)] else ms)"
| "map_exec (DirRemoveEmpty i) ms =
     (if i < length ms then ms[i := (\<lambda>k. if (ms ! i) k = Some None then None else (ms ! i) k)] else ms)"
| "map_exec (DirSize i) ms = ms"

definition empty_heap :: "'c Heap" where
  "empty_heap = \<lparr>heap_next = 0, heap_block = (\<lambda>_. new_block 0), heap_count = (\<lambda>_. 0)\<rparr>"

definition dir_run :: "('c \<Rightarrow> nat) \<Rightarrow> 'c DirOp list \<Rightarrow> 'c Heap \<times> ChunkMap list" where
  "dir_run f ops = fold (dir_exec f) ops (empty_heap, [])"

definition dir_maps :: "'c Heap \<times> ChunkMap list \<Rightarrow> (u64 \<rightharpoonup> 'c option) list" where
  "dir_maps w = map (cm_get (fst w)) (snd w)"

lemma heap_ok_mset: "mset ms = mset ns \<Longrightarrow> heap_ok h ms = heap_ok h ns"
proof -
  assume p: "mset ms = mset ns"
  have "count_list (concat (map cm_blocks xs)) a = sum_list (map (\<lambda>m. count_list (cm_blocks m) a) xs)" for xs :: "ChunkMap list" and a
    by (induction xs) auto
  moreover have "sum_list (map (\<lambda>m. count_list (cm_blocks m) a) ms) =
      sum_list (map (\<lambda>m. count_list (cm_blocks m) a) ns)" for a
    using p by (metis mset_map sum_mset_sum_list)
  moreover have "set ms = set ns" using p by (rule mset_eq_setD)
  ultimately show ?thesis by (simp add: heap_ok_def)
qed

lemma world_ok_mset: "mset ms = mset ns \<Longrightarrow> world_ok f h ms = world_ok f h ns"
  using heap_ok_mset [of ms ns h] mset_eq_setD [of ms ns] by (simp add: world_ok_def)

abbreviation others :: "nat \<Rightarrow> 'a list \<Rightarrow> 'a list" where
  "others i xs \<equiv> take i xs @ drop (Suc i) xs"

lemma mset_others: "i < length ms \<Longrightarrow> mset (m # others i ms) = mset (ms[i := m])"
  by (simp add: upd_conv_take_nth_drop)

lemma others_nth: "j < length ms \<Longrightarrow> j \<noteq> i \<Longrightarrow> ms ! j \<in> set (others i ms)"
proof -
  assume j: "j < length ms" "j \<noteq> i"
  show ?thesis
  proof (cases "j < i")
    case True
    then have "ms ! j = take i ms ! j" "j < length (take i ms)" using j by simp_all
    then show ?thesis by (metis Un_iff nth_mem set_append)
  next
    case False
    then have "ms ! j = drop (Suc i) ms ! (j - Suc i)" "j - Suc i < length (drop (Suc i) ms)"
      using j by simp_all
    then show ?thesis by (metis Un_iff nth_mem set_append)
  qed
qed

lemma view_get: "cm_view h' m = cm_view h m \<Longrightarrow> map_ok f h m \<Longrightarrow> cm_get h' m = cm_get h m"
proof
  fix k
  assume v: "cm_view h' m = cm_view h m" and ok: "map_ok f h m"
  then have "map_ok f h' m" by (simp add: map_ok_def)
  then show "cm_get h' m k = cm_get h m k"
    using v ok by (simp add: cm_get_lookup cm_lookup_def cm_entries_def)
qed

text \<open>A mutation of one directory that keeps the others is an update of the family.\<close>

lemma family_update:
  assumes "world_ok f h ms" "i < length ms"
    and "heap_ok h' (m' # others i ms)" "map_ok f h' m'"
    and "\<And>x. x \<in> set (others i ms) \<Longrightarrow> cm_view h' x = cm_view h x"
  shows "world_ok f h' (ms[i := m'])" "dir_maps (h', ms[i := m']) = (dir_maps (h, ms))[i := cm_get h' m']"
proof -
  have sub: "set (others i ms) \<subseteq> set ms" by (auto dest: in_set_takeD in_set_dropD)
  have old: "\<forall>x \<in> set (others i ms). map_ok f h x" using assms(1) sub by (auto simp: world_ok_def)
  then have "world_ok f h' (m' # others i ms)"
    using assms(3,4) map_ok_others [OF old assms(5)] by (simp add: world_ok_def)
  then show "world_ok f h' (ms[i := m'])" using world_ok_mset [OF mset_others [OF assms(2)]] by blast
  have "cm_get h' (ms ! j) = cm_get h (ms ! j)" if "j < length ms" "j \<noteq> i" for j
    using view_get [OF assms(5)] others_nth [OF that] old by blast
  then show "dir_maps (h', ms[i := m']) = (dir_maps (h, ms))[i := cm_get h' m']"
    unfolding dir_maps_def using assms(2) by (intro nth_equalityI) (auto simp: nth_list_update)
qed

lemma world_focus: "world_ok f h ms \<Longrightarrow> i < length ms \<Longrightarrow>
    heap_ok h (ms ! i # others i ms) \<and> map_ok f h (ms ! i)"
  using heap_ok_mset [OF mset_others [of i ms "ms ! i"], of h] by (simp add: world_ok_def)

lemma cm_get_lookup_fun: "map_ok f h m \<Longrightarrow> cm_get h m = cm_lookup h m"
  by (simp add: fun_eq_iff cm_get_lookup)

lemma remove_empty_lookup:
  assumes "sorted_keys es"
  shows "map_of (filter (\<lambda>e. \<not> null_entry e) es) k =
    (if map_of es k = Some None then None else map_of es k)"
  using assms
proof (induction es)
  case (Cons e es)
  then have "map_of es (fst e) = None" by (auto simp: sorted_keys_Cons map_of_eq_None_iff)
  then show ?case using Cons by (cases e) (auto simp: sorted_keys_Cons null_entry_def)
qed simp

lemma dir_exec_new:
  assumes "world_ok f h ms" "cm_view h' = cm_view h" "heap_ok h' (m # ms)" "map_ok f h' m"
  shows "world_ok f h' (ms @ [m])" "dir_maps (h', ms @ [m]) = dir_maps (h, ms) @ [cm_get h' m]"
proof -
  have "heap_ok h' (ms @ [m])" using assms(3) heap_ok_mset [of "m # ms" "ms @ [m]" h'] by simp
  then show "world_ok f h' (ms @ [m])"
    using assms by (auto simp: world_ok_def map_ok_def)
  show "dir_maps (h', ms @ [m]) = dir_maps (h, ms) @ [cm_get h' m]"
    using view_get [of h' _ h f] assms(1,2) by (auto simp: dir_maps_def world_ok_def)
qed

lemma dir_exec_step:
  assumes ok: "world_ok f h ms"
  shows "case dir_exec f op (h, ms) of (h', ms') \<Rightarrow>
    world_ok f h' ms' \<and> dir_maps (h', ms') = map_exec op (dir_maps (h, ms))"
proof -
  have len: "length (dir_maps (h, ms)) = length ms"
    and nth: "\<And>i. i < length ms \<Longrightarrow> dir_maps (h, ms) ! i = cm_get h (ms ! i)"
    by (simp_all add: dir_maps_def)
  have upd: "case (h', ms[i := m']) of (h', ms') \<Rightarrow>
      world_ok f h' ms' \<and> dir_maps (h', ms') = (dir_maps (h, ms))[i := g]"
    if "i < length ms" "heap_ok h' (m' # others i ms)" "map_ok f h' m'" "cm_lookup h' m' = g"
      "\<And>x. x \<in> set (others i ms) \<Longrightarrow> cm_view h' x = cm_view h x" for i h' m' g
    using family_update [OF ok that(1,2,3,5)] that(3,4) by (simp add: cm_get_lookup_fun)
  note focus = world_focus [OF ok]
  show ?thesis
  proof (cases op)
    case DirNew
    have "heap_ok h (empty_map # ms)" "map_ok f h empty_map" "cm_get h empty_map = Map.empty"
      using ok by (auto simp: world_ok_def heap_ok_def empty_map_def map_ok_def cm_view_def cm_get_def
        cm_find_def position_of_def lower_bound_def fun_eq_iff)
    then show ?thesis using DirNew dir_exec_new [OF ok refl] by simp
  next
    case (DirCopy i)
    show ?thesis
    proof (cases "i < length ms")
      case True
      obtain h' m' where c: "cm_copy h (ms ! i) = (h', m')" by (cases "cm_copy h (ms ! i)")
      note S = cm_copy_spec [OF conjunct1 [OF focus [OF True]] c]
      have "heap_ok h' (m' # ms)"
        using S(1,2) heap_ok_mset [of "m' # ms ! i # others i ms" "m' # ms" h'] mset_others [OF True, of "ms ! i"]
        by simp
      moreover have "map_ok f h' m'" using focus [OF True] S(1,3) by (simp add: map_ok_def)
      moreover have "cm_view h' = cm_view h" using S(3) by (simp add: fun_eq_iff)
      moreover have "cm_get h' m' = cm_get h (ms ! i)"
        using view_get [OF S(3)] S(1) focus [OF True] by blast
      ultimately show ?thesis
        using DirCopy True c dir_exec_new [OF ok] nth [OF True] len by simp
    qed (use DirCopy ok len in simp)
  next
    case (DirSet i k c)
    show ?thesis
    proof (cases "i < length ms")
      case True
      obtain h' m' where c: "cm_set h (ms ! i) k c = (h', m')" by (cases "cm_set h (ms ! i) k c")
      have F: "heap_ok h (ms ! i # others i ms)" "map_ok f h (ms ! i)" using focus [OF True] by auto
      note S = cm_set_spec [OF F c]
      show ?thesis
        using upd [OF True S(1,2) S(3)] S(4) DirSet True c nth [OF True] len F(2)
        by (simp add: cm_get_lookup_fun)
    qed (use DirSet ok len in simp)
  next
    case (DirEmplace i k c)
    show ?thesis
    proof (cases "i < length ms")
      case True
      obtain h' m' where c: "cm_set h (ms ! i) k c = (h', m')" by (cases "cm_set h (ms ! i) k c")
      have F: "heap_ok h (ms ! i # others i ms)" "map_ok f h (ms ! i)" using focus [OF True] by auto
      note S = cm_set_spec [OF F c]
      show ?thesis
        using upd [OF True S(1,2) S(3)] S(4) DirEmplace True c nth [OF True] len F(2) ok
        by (auto simp: cm_get_lookup_fun cm_emplace_def cm_contains_lookup [OF F(2)])
    qed (use DirEmplace ok len in simp)
  next
    case (DirErase i k)
    show ?thesis
    proof (cases "i < length ms")
      case True
      obtain n h' m' where c: "cm_erase h (ms ! i) k = (n, h', m')" by (cases "cm_erase h (ms ! i) k")
      have F: "heap_ok h (ms ! i # others i ms)" "map_ok f h (ms ! i)" using focus [OF True] by auto
      note S = cm_erase_spec [OF F c]
      show ?thesis
        using upd [OF True S(1,2) S(3)] S(5) DirErase True c nth [OF True] len F(2)
        by (simp add: cm_get_lookup_fun)
    qed (use DirErase ok len in simp)
  next
    case (DirRemoveEmpty i)
    show ?thesis
    proof (cases "i < length ms")
      case True
      obtain h' m' where c: "remove_empty h (ms ! i) = (h', m')" by (cases "remove_empty h (ms ! i)")
      have F: "heap_ok h (ms ! i # others i ms)" "map_ok f h (ms ! i)" using focus [OF True] by auto
      note S = remove_empty_spec [OF F c]
      have srt: "sorted_keys (cm_entries h (ms ! i))"
        using F(2) sorted_flat by (auto simp: map_ok_def cm_entries_def)
      have L: "cm_lookup h' m' = (\<lambda>k. if cm_lookup h (ms ! i) k = Some None then None else cm_lookup h (ms ! i) k)"
        using S(3) remove_empty_lookup [OF srt] by (simp add: cm_lookup_def fun_eq_iff)
      show ?thesis
        using upd [OF True S(1,2) L] S(4) DirRemoveEmpty True c nth [OF True] len F(2)
        by (simp add: cm_get_lookup_fun cong: if_cong)
    qed (use DirRemoveEmpty ok len in simp)
  next
    case (DirSize i)
    show ?thesis
    proof (cases "i < length ms")
      case True
      obtain n h' where c: "cm_encoded_bytes f h (ms ! i) = (n, h')" by (cases "cm_encoded_bytes f h (ms ! i)")
      have p: "mset (ms ! i # others i ms) = mset ms" using mset_others [OF True, of "ms ! i"] by simp
      have W: "world_ok f h (ms ! i # others i ms)" using ok world_ok_mset [OF p] by blast
      note S = cm_encoded_spec [OF W c]
      have w': "world_ok f h' ms" using S(2) world_ok_mset [OF p] by blast
      have "cm_get h' m = cm_get h m" if "m \<in> set ms" for m
        using S(3) [of m] w' ok that cm_get_lookup_fun [of f h m] cm_get_lookup_fun [of f h' m]
        by (simp add: world_ok_def cm_lookup_def)
      then show ?thesis using w' DirSize True c by (simp add: dir_maps_def)
    qed (use DirSize ok len in simp)
  qed
qed

lemma dir_run_invariant:
  "case fold (dir_exec f) ops (h, ms) of (h', ms') \<Rightarrow>
     world_ok f h ms \<longrightarrow> world_ok f h' ms' \<and> dir_maps (h', ms') = fold map_exec ops (dir_maps (h, ms))"
proof (induction ops arbitrary: h ms)
  case (Cons op ops)
  obtain h1 ms1 where e: "dir_exec f op (h, ms) = (h1, ms1)" by (cases "dir_exec f op (h, ms)")
  then show ?case using Cons.IH [of h1 ms1] dir_exec_step [of f h ms op] by auto
qed simp

lemma world_ok_empty: "world_ok f empty_heap []"
  by (simp add: world_ok_def heap_ok_def empty_heap_def)

text \<open>
  C4. Whatever sequence of creations, copies, assignments, emplacements,
  removals and size queries is run on a family of chunk directories that share
  their blocks, each directory reads as the finite map obtained by the same
  operations on independent maps: a change through one directory is never seen
  through another, and every invariant of the shared heap (reference counts,
  sorted blocks, sizes, cached sizes) holds.
\<close>

theorem chunk_map_isolation:
  "dir_maps (dir_run f ops) = fold map_exec ops []
   \<and> (case dir_run f ops of (h, ms) \<Rightarrow> world_ok f h ms)"
  using dir_run_invariant [where f = f and ops = ops and h = empty_heap and ms = "[]"] world_ok_empty [of f]
  by (auto simp: dir_run_def dir_maps_def split: prod.splits)

text \<open>
  C16. The difference of two directories of one process is sorted by chunk id,
  names exactly the ids whose reference changed, with the new reference or a
  null reference for a removed chunk, and replaying it on the earlier directory
  gives the contents of the later one.
\<close>

theorem changes_from_correct:
  assumes "world_ok f h (previous # m # ms)" and "\<forall>k. cm_get h m k \<noteq> Some None"
  shows "sorted_keys (changes_from h m previous)
    \<and> map_of (changes_from h m previous) k = change_of (cm_get h m k) (cm_get h previous k)
    \<and> dir_get (fold (dir.apply_change) (map (\<lambda>(k, c). (k, map_option Some c)) (changes_from h m previous)) (h, previous)) k
      = cm_get h m k"
proof -
  have ok: "map_ok f h m" "map_ok f h previous" "dir_inv f (m # ms) (h, previous)"
    using assms(1) by (auto simp: world_ok_def dir_inv_def)
  have C: "changes_from h m previous = changes_entries (cm_entries h m) (cm_entries h previous)"
    using ok by (simp add: changes_from_def changes_blocks_flat map_ok_def cm_view_def cm_entries_def)
  have s: "sorted_keys (cm_entries h m)" "sorted_keys (cm_entries h previous)"
    using ok sorted_flat by (auto simp: map_ok_def cm_entries_def)
  have sc: "sorted_keys (changes_from h m previous)" using changes_entries_sorted [OF s] C by simp
  have mc: "map_of (changes_from h m previous) k = change_of (cm_get h m k) (cm_get h previous k)"
    using changes_entries_map [OF s, of k] C ok by (simp add: cm_get_lookup_fun cm_lookup_def)
  let ?es = "map (\<lambda>(k, c). (k, map_option Some c)) (changes_from h m previous)"
  have "map fst ?es = map fst (changes_from h m previous)" by (simp add: comp_def case_prod_beta)
  then have "distinct (map fst ?es)" using sorted_keys_distinct [OF sc] by (simp only:)
  note A = dir.apply_changes_get [OF ok(3) this, of k]
  have "map_of ?es k = map_option (map_option Some) (map_of (changes_from h m previous) k)"
    by (simp add: map_of_map)
  then have "dir_get (fold dir.apply_change ?es (h, previous)) k = cm_get h m k"
    using A mc spec [OF assms(2), of k]
    by (cases "cm_get h m k") (auto simp: change_of_def dir_get_def split: option.splits if_splits)
  then show ?thesis using sc mc by simp
qed

text \<open>
  C17. The encoded size of a directory is the sum of the encoded sizes of its
  chunks, whether or not a block's size was cached, and asking for it changes
  no directory.
\<close>

theorem chunk_map_size_correct:
  assumes "world_ok f h (m # ms)"
  shows "case cm_encoded_bytes f h m of (n, h') \<Rightarrow>
    n = sum_list (map (\<lambda>e. case snd e of Some c \<Rightarrow> f c | None \<Rightarrow> 0) (cm_entries h m))
    \<and> world_ok f h' (m # ms) \<and> (\<forall>x. cm_entries h' x = cm_entries h x)"
  using cm_encoded_spec [OF assms] by (auto split: prod.splits)

text \<open>
  C18. Iterating a directory from its beginning visits its entries in order of
  chunk id, skipping empty blocks, and reaches its end after the last one;
  stepping back undoes a step.
\<close>

theorem chunk_map_iteration:
  assumes "map_ok f h m" and "n \<le> cm_size m"
  shows "(if n = cm_size m then (iterator_next h m ^^ n) (cm_begin h m) = cm_end h m
      else case (iterator_next h m ^^ n) (cm_begin h m) of (b, i) \<Rightarrow>
        block_entries (block_at h m b) ! i = cm_entries h m ! n
        \<and> iterator_prev h m ((iterator_next h m ^^ Suc n) (cm_begin h m)) = (b, i))
    \<and> sorted_keys (cm_entries h m)"
proof -
  have size: "cm_size m = length (cm_entries h m)"
    using assms(1) by (simp add: map_ok_def cm_entries_def)
  have s: "sorted_keys (cm_entries h m)" using assms(1) sorted_flat by (auto simp: map_ok_def cm_entries_def)
  have at: "iterator_at h m j ((iterator_next h m ^^ j) (cm_begin h m))" if "j \<le> cm_size m" for j
    using iterator_reaches that size by simp
  obtain b i where it: "(iterator_next h m ^^ n) (cm_begin h m) = (b, i)" by fastforce
  show ?thesis
  proof (cases "n = cm_size m")
    case True
    then show ?thesis
      using at [of n] size s by (simp add: iterator_at_def cm_end_def cm_iterator_def)
  next
    case False
    then have n: "n < length (cm_entries h m)" using assms(2) size by simp
    obtain c j where pr: "iterator_prev h m ((iterator_next h m ^^ Suc n) (cm_begin h m)) = (c, j)" by fastforce
    have "iterator_at h m n (c, j)"
      using iterator_prev_spec [OF at [of "Suc n"]] n size pr by simp
    then have "(c, j) = (b, i)" using iterator_unique at [of n] it assms(2) by metis
    then show ?thesis
      using iterator_next_spec(2) [OF at [of n] n] it pr False s assms(2) by simp
  qed
qed

section \<open>A sample family\<close>

text \<open>Two directories: the second is a changed copy of the first.\<close>

definition sample_ops :: "nat DirOp list" where
  "sample_ops = [DirNew, DirSet 0 5 (Some 1), DirSet 0 6 (Some 4), DirCopy 0, DirSet 1 70 (Some 2), DirErase 1 5]"

lemma sample_family:
  obtains h p m where "dir_run id sample_ops = (h, [p, m])" "world_ok id h [p, m]"
    "cm_get h p = [5 \<mapsto> Some 1, 6 \<mapsto> Some 4]" "cm_get h m = [6 \<mapsto> Some 4, 70 \<mapsto> Some 2]"
proof -
  obtain h ms where r: "dir_run id sample_ops = (h, ms)" by (cases "dir_run id sample_ops")
  have w: "world_ok id h ms" "map (cm_get h) ms = fold map_exec sample_ops []"
    using dir_run_invariant [where f = id and ops = sample_ops and h = empty_heap and ms = "[]"]
      world_ok_empty [of id] r by (auto simp: dir_run_def dir_maps_def)
  have "fold map_exec sample_ops [] = [[5 \<mapsto> Some 1, 6 \<mapsto> Some 4], [6 \<mapsto> Some 4, 70 \<mapsto> Some 2]]"
    by (simp add: sample_ops_def fun_eq_iff)
  then obtain p m where "ms = [p, m]" "cm_get h p = [5 \<mapsto> Some 1, 6 \<mapsto> Some 4]"
      "cm_get h m = [6 \<mapsto> Some 4, 70 \<mapsto> Some 2]"
    using w(2) by (auto simp: map_eq_Cons_conv)
  then show thesis using that r w(1) by blast
qed

theorem changes_from_correct_witness:
  "\<exists>h p m. dir_run id sample_ops = (h, [p, m])
     \<and> map_of (changes_from h m p) 70 = Some (Some 2)
     \<and> map_of (changes_from h m p) 5 = Some None
     \<and> map_of (changes_from h m p) 6 = None"
proof -
  obtain h p m where s: "dir_run id sample_ops = (h, [p, m])" "world_ok id h [p, m]"
    "cm_get h p = [5 \<mapsto> Some 1, 6 \<mapsto> Some 4]" "cm_get h m = [6 \<mapsto> Some 4, 70 \<mapsto> Some 2]"
    by (rule sample_family)
  have n: "\<forall>k. cm_get h m k \<noteq> Some None" using s(4) by simp
  show ?thesis
    using changes_from_correct [OF s(2) n, of 70] changes_from_correct [OF s(2) n, of 5]
      changes_from_correct [OF s(2) n, of 6] s
    by (auto simp: change_of_def)
qed

theorem chunk_map_size_correct_witness:
  "\<exists>h m. world_ok id h [m] \<and> cm_get h m = [5 \<mapsto> Some 3]
     \<and> fst (cm_encoded_bytes id h m) = sum_list (map (\<lambda>e. case snd e of Some c \<Rightarrow> id c | None \<Rightarrow> 0) (cm_entries h m))"
proof -
  obtain h ms where r: "fold (dir_exec id) [DirNew, DirSet 0 5 (Some 3)] (empty_heap, []) = (h, ms)"
    by (cases "fold (dir_exec id) [DirNew, DirSet 0 5 (Some (3::nat))] (empty_heap, [])") auto
  have w: "world_ok id h ms" "map (cm_get h) ms = [[5 \<mapsto> Some 3]]"
    using dir_run_invariant [where f = id and ops = "[DirNew, DirSet 0 5 (Some (3::nat))]"
      and h = empty_heap and ms = "[]"] world_ok_empty [of id] r by (auto simp: dir_maps_def)
  then obtain m where m: "ms = [m]" "cm_get h m = [5 \<mapsto> Some 3]" by (auto simp: map_eq_Cons_conv)
  then show ?thesis
    using chunk_map_size_correct [of id h m "[]"] w(1)
    by (intro exI [of _ h] exI [of _ m]) (auto split: prod.splits)
qed

theorem chunk_map_iteration_witness:
  "\<exists>h m. map_ok id h m \<and> cm_get h m = [6 \<mapsto> Some 4, 70 \<mapsto> Some (2::nat)]
     \<and> (iterator_next h m ^^ cm_size m) (cm_begin h m) = cm_end h m"
proof -
  obtain h p m where s: "dir_run id sample_ops = (h, [p, m])" "world_ok id h [p, m]"
    "cm_get h p = [5 \<mapsto> Some 1, 6 \<mapsto> Some 4]" "cm_get h m = [6 \<mapsto> Some 4, 70 \<mapsto> Some 2]"
    by (rule sample_family)
  then have "map_ok id h m" by (simp add: world_ok_def)
  then show ?thesis using chunk_map_iteration [of id h m "cm_size m"] s(4) by auto
qed

end
