(* ===== verification/Hash_Index.thy ===== *)
theory Hash_Index
  imports Key_Columns Sorted_Keys
begin

text \<open>
  The unique hash index of addons/hash_index/index.cpp: 256 partitions, each a
  sequence sorted by key, for native 64-bit payloads and for add-on values.

  A bucket is copied before it is written whenever another clone holds it, so
  buckets are values here; a null bucket pointer is \<open>None\<close>.
\<close>

section \<open>Sorted buckets\<close>

text \<open>\<open>std::map\<close> with the comparator \<open>lt\<close>, as its sorted sequence of entries.\<close>

definition map_lower :: "('k \<Rightarrow> 'k \<Rightarrow> bool) \<Rightarrow> ('k \<times> 'v) list \<Rightarrow> 'k \<Rightarrow> nat" where
  "map_lower lt b k = lower_bound (\<lambda>e. lt (fst e) k) b"

definition map_find :: "('k \<Rightarrow> 'k \<Rightarrow> bool) \<Rightarrow> ('k \<times> 'v) list \<Rightarrow> 'k \<Rightarrow> nat option" where
  "map_find lt b k =
     (let i = map_lower lt b k in if i < length b \<and> \<not> lt k (fst (b ! i)) then Some i else None)"

definition map_emplace :: "('k \<Rightarrow> 'k \<Rightarrow> bool) \<Rightarrow> ('k \<times> 'v) list \<Rightarrow> 'k \<Rightarrow> 'v \<Rightarrow> ('k \<times> 'v) list option" where
  "map_emplace lt b k v =
     (if map_find lt b k = None then Some (insert_at (map_lower lt b k) (k, v) b) else None)"

definition map_erase :: "('k \<Rightarrow> 'k \<Rightarrow> bool) \<Rightarrow> ('k \<times> 'v) list \<Rightarrow> 'k \<Rightarrow> ('k \<times> 'v) list" where
  "map_erase lt b k = (case map_find lt b k of Some i \<Rightarrow> remove_at i b | None \<Rightarrow> b)"

section \<open>The index\<close>

record HashIndex =
  hx_addon :: TypeAddon
  hx_parameters :: bytes
  hx_native :: bool
  hx_buckets :: "(Value \<times> RowLocation) list option list"
  hx_integers :: "(i64 \<times> RowLocation) list option list"

definition hash_partitions :: nat where
  "hash_partitions = 256"

definition make_hash_index :: "Type \<Rightarrow> TypeAddon \<Rightarrow> HashIndex result" where
  "make_hash_index t a =
     bindE (ensure (\<not> (addon_equal a = None \<or> addon_hash a = None
              \<or> (\<not> native_i64 a \<and> addon_compare a = None))) E_unsupported) (\<lambda>_.
     Inr \<lparr>hx_addon = a, hx_parameters = type_parameters t, hx_native = native_i64 a,
          hx_buckets = replicate hash_partitions None, hx_integers = replicate hash_partitions None\<rparr>)"

definition hx_less :: "HashIndex \<Rightarrow> Value \<Rightarrow> Value \<Rightarrow> bool" where
  "hx_less x a b =
     (case addon_compare (hx_addon x) of Some f \<Rightarrow> f (hx_parameters x) a b < 0 | None \<Rightarrow> False)"

definition int_less :: "i64 \<Rightarrow> i64 \<Rightarrow> bool" where
  "int_less a b \<longleftrightarrow> sint a < sint b"

definition int_number :: "i64 \<Rightarrow> nat" where
  "int_number k = unat (k mod 256)"

definition hx_number :: "HashIndex \<Rightarrow> Value \<Rightarrow> nat result" where
  "hx_number x v =
     (if hx_native x then bindE (i64_payload v) (\<lambda>k. Inr (int_number k))
      else (case addon_hash (hx_addon x) of
              Some f \<Rightarrow> Inr (unat (f (hx_parameters x) v mod 256))
            | None \<Rightarrow> Inl E_state))"

definition bucket_of :: "'a list option list \<Rightarrow> nat \<Rightarrow> 'a list" where
  "bucket_of bs n = (case bs ! n of None \<Rightarrow> [] | Some b \<Rightarrow> b)"

definition int_found :: "(i64 \<times> RowLocation) list \<Rightarrow> i64 \<Rightarrow> bool" where
  "int_found b k =
     (let i = map_lower int_less b k in i \<noteq> length b \<and> fst (b ! i) = k)"

definition integer_lookup :: "HashIndex \<Rightarrow> i64 \<Rightarrow> RowLocation option" where
  "integer_lookup x k =
     (case hx_integers x ! int_number k of
        None \<Rightarrow> None
      | Some b \<Rightarrow> if int_found b k then Some (snd (b ! map_lower int_less b k)) else None)"

definition hx_insert :: "HashIndex \<Rightarrow> Value \<Rightarrow> RowLocation \<Rightarrow> HashIndex result" where
  "hx_insert x v p =
     (if hx_native x then
        bindE (i64_payload v) (\<lambda>k.
        bindE (hx_number x v) (\<lambda>n.
        let b = bucket_of (hx_integers x) n in
        if int_found b k then Inl E_constraint
        else Inr (x\<lparr>hx_integers := (hx_integers x)[n := Some (insert_at (map_lower int_less b k) (k, p) b)]\<rparr>)))
      else
        bindE (hx_number x v) (\<lambda>n.
        case map_emplace (hx_less x) (bucket_of (hx_buckets x) n) v p of
          None \<Rightarrow> Inl E_constraint
        | Some b \<Rightarrow> Inr (x\<lparr>hx_buckets := (hx_buckets x)[n := Some b]\<rparr>)))"

definition hx_lookup :: "HashIndex \<Rightarrow> Value \<Rightarrow> RowLocation option result" where
  "hx_lookup x v =
     (if hx_native x then bindE (i64_payload v) (\<lambda>k. Inr (integer_lookup x k))
      else
        bindE (hx_number x v) (\<lambda>n.
        Inr (case hx_buckets x ! n of
               None \<Rightarrow> None
             | Some b \<Rightarrow> map_option (\<lambda>i. snd (b ! i)) (map_find (hx_less x) b v))))"

definition hx_erase :: "HashIndex \<Rightarrow> Value \<Rightarrow> RowLocation \<Rightarrow> HashIndex result" where
  "hx_erase x v p =
     bindE (hx_lookup x v) (\<lambda>found.
     bindE (ensure (found = Some p) E_state) (\<lambda>_.
     bindE (hx_number x v) (\<lambda>n.
     if hx_native x then
       bindE (i64_payload v) (\<lambda>k.
       let b = bucket_of (hx_integers x) n in
       Inr (x\<lparr>hx_integers := (hx_integers x)[n := Some (remove_at (map_lower int_less b k) b)]\<rparr>))
     else
       Inr (x\<lparr>hx_buckets := (hx_buckets x)[n := Some (map_erase (hx_less x) (bucket_of (hx_buckets x) n) v)]\<rparr>))))"

definition bucket_count :: "'a list option list \<Rightarrow> nat" where
  "bucket_count bs = sum_list (map (\<lambda>b. case b of None \<Rightarrow> 0 | Some b \<Rightarrow> length b) bs)"

definition hx_validate :: "HashIndex \<Rightarrow> (Value \<times> RowLocation) list \<Rightarrow> unit result" where
  "hx_validate x source =
     bindE (ensure ((if hx_native x then bucket_count (hx_integers x) else bucket_count (hx_buckets x))
              = length source) E_state) (\<lambda>_.
     forE (\<lambda>e. bindE (hx_lookup x (fst e)) (\<lambda>found. ensure (found = Some (snd e)) E_state)) source)"

function int_probe :: "HashIndex \<Rightarrow> i64 \<Rightarrow> i64 \<Rightarrow> RowLocation list" where
  "int_probe x key stop =
     (case integer_lookup x key of Some p \<Rightarrow> [p] | None \<Rightarrow> [])
     @ (if key = stop then [] else int_probe x (key + 1) stop)"
  by auto
termination
proof (relation "measure (\<lambda>(x, key, stop). unat (stop - key))")
  fix key stop :: i64
  assume "key \<noteq> stop"
  then have "stop - key \<noteq> 0" by simp
  then show "((x, key + 1, stop), x, key, stop) \<in> measure (\<lambda>(x, key, stop). unat (stop - key))" for x :: HashIndex
    using unat_minus_one [of "stop - key"] unat_gt_0 [of "stop - key"] by (simp add: diff_diff_eq [symmetric])
qed simp

declare int_probe.simps [simp del]

definition range_bucket ::
    "('k \<Rightarrow> bool) \<Rightarrow> ('k \<Rightarrow> bool) \<Rightarrow> ('k \<times> RowLocation) list option \<Rightarrow> RowLocation list" where
  "range_bucket before within b =
     (case b of None \<Rightarrow> []
      | Some b \<Rightarrow> map snd (takeWhile (\<lambda>e. within (fst e)) (drop (lower_bound (\<lambda>e. before (fst e)) b) b)))"

definition hx_range :: "HashIndex \<Rightarrow> Value option \<Rightarrow> Value option \<Rightarrow> IndexResult option result" where
  "hx_range x lo hi =
     (if hx_native x then
        bindE (case lo of Some v \<Rightarrow> i64_payload v | None \<Rightarrow> Inr (word_of_int (- (2 ^ 63)))) (\<lambda>start.
        bindE (case hi of Some v \<Rightarrow> i64_payload v | None \<Rightarrow> Inr (word_of_int (2 ^ 63 - 1))) (\<lambda>stop.
        if sint stop < sint start then Inr (Some \<lparr>result_rows = [], result_exact = False\<rparr>)
        else if stop - start < 256 then
          Inr (Some \<lparr>result_rows = int_probe x start stop, result_exact = False\<rparr>)
        else
          Inr (Some \<lparr>result_rows = concat (map (range_bucket (\<lambda>k. int_less k start) (\<lambda>k. \<not> int_less stop k))
                       (hx_integers x)), result_exact = False\<rparr>)))
      else if addon_compare (hx_addon x) = None then Inr None
      else
        Inr (Some \<lparr>result_rows = concat (map (range_bucket
             (\<lambda>k. case lo of Some v \<Rightarrow> hx_less x k v | None \<Rightarrow> False)
             (\<lambda>k. case hi of Some v \<Rightarrow> \<not> hx_less x v k | None \<Rightarrow> True)) (hx_buckets x)),
           result_exact = False\<rparr>))"

end
