(* ===== verification/Hash_Buckets.thy ===== *)
theory Hash_Buckets
  imports Hash_Index
begin

text \<open>
  The sorted buckets of the hash index and arrays of such buckets, over any
  strict weak order on keys and any partition function that respects it. Both
  are then used with native 64-bit payloads and with add-on values.
\<close>

section \<open>Ordered buckets\<close>

text \<open>What a bucket relies on: its comparator is a strict weak order on valid keys.\<close>

locale key_compare =
  fixes lt :: "'k \<Rightarrow> 'k \<Rightarrow> bool" and valid :: "'k \<Rightarrow> bool"
  assumes irrefl: "valid a \<Longrightarrow> \<not> lt a a"
    and trans: "valid a \<Longrightarrow> valid b \<Longrightarrow> valid c \<Longrightarrow> lt a b \<Longrightarrow> lt b c \<Longrightarrow> lt a c"
    and neg_trans: "valid a \<Longrightarrow> valid b \<Longrightarrow> valid c \<Longrightarrow> \<not> lt a b \<Longrightarrow> \<not> lt b c \<Longrightarrow> \<not> lt a c"
begin

definition equiv_key :: "'k \<Rightarrow> 'k \<Rightarrow> bool" where
  "equiv_key a b \<longleftrightarrow> \<not> lt a b \<and> \<not> lt b a"

definition bucket_ok :: "('k \<times> 'v) list \<Rightarrow> bool" where
  "bucket_ok b \<longleftrightarrow> sorted_wrt (\<lambda>x y. lt (fst x) (fst y)) b \<and> (\<forall>e \<in> set b. valid (fst e))"

lemma asym: "valid a \<Longrightarrow> valid b \<Longrightarrow> lt a b \<Longrightarrow> \<not> lt b a"
  using trans [of a b a] irrefl by blast

lemma lt_le_trans: "valid a \<Longrightarrow> valid b \<Longrightarrow> valid c \<Longrightarrow> lt a b \<Longrightarrow> \<not> lt c b \<Longrightarrow> lt a c"
  using neg_trans [of a c b] by blast

lemma le_lt_trans: "valid a \<Longrightarrow> valid b \<Longrightarrow> valid c \<Longrightarrow> \<not> lt b a \<Longrightarrow> lt b c \<Longrightarrow> lt a c"
  using neg_trans [of b a c] by blast

lemma equiv_refl: "valid a \<Longrightarrow> equiv_key a a"
  using irrefl by (simp add: equiv_key_def)

lemma equiv_sym: "equiv_key a b \<Longrightarrow> equiv_key b a"
  by (simp add: equiv_key_def)

lemma equiv_trans: "valid a \<Longrightarrow> valid b \<Longrightarrow> valid c \<Longrightarrow> equiv_key a b \<Longrightarrow> equiv_key b c \<Longrightarrow> equiv_key a c"
  using neg_trans unfolding equiv_key_def by blast

lemma map_lower_split:
  assumes "bucket_ok b" "valid k" "i = map_lower lt b k"
  shows "i \<le> length b" "\<And>e. e \<in> set (take i b) \<Longrightarrow> lt (fst e) k" "\<And>e. e \<in> set (drop i b) \<Longrightarrow> \<not> lt (fst e) k"
proof -
  show "i \<le> length b" by (simp add: assms(3) map_lower_def lower_bound_le)
  have "take i b = takeWhile (\<lambda>e. lt (fst e) k) b"
    unfolding assms(3) map_lower_def lower_bound_def by (rule takeWhile_eq_take [symmetric])
  then show "\<And>e. e \<in> set (take i b) \<Longrightarrow> lt (fst e) k" by (auto dest: set_takeWhileD)
  have D: "drop i b = dropWhile (\<lambda>e. lt (fst e) k) b"
    unfolding assms(3) map_lower_def lower_bound_def by (rule dropWhile_eq_drop [symmetric])
  have N: "\<not> lt (fst e) k" if "e \<in> set (dropWhile (\<lambda>e. lt (fst e) k) b)" for e
    using assms(1) that
  proof (induction b)
    case (Cons x b)
    have ok: "bucket_ok b" using Cons.prems(1) by (simp add: bucket_ok_def)
    show ?case
    proof (cases "lt (fst x) k")
      case True
      then show ?thesis using Cons.IH ok Cons.prems(2) by simp
    next
      case False
      then have "e = x \<or> e \<in> set b" using Cons.prems(2) by auto
      then show ?thesis
        using False Cons.prems(1) assms(2) trans [of "fst x" "fst e" k] by (auto simp: bucket_ok_def)
    qed
  qed simp
  show "\<And>e. e \<in> set (drop i b) \<Longrightarrow> \<not> lt (fst e) k" unfolding D by (rule N)
qed

lemma map_find_Some:
  assumes "bucket_ok b" "valid k" "map_find lt b k = Some i"
  shows "i = map_lower lt b k" "i < length b" "equiv_key (fst (b ! i)) k"
proof -
  show i: "i = map_lower lt b k" "i < length b"
    using assms(3) by (auto simp: map_find_def Let_def split: if_splits)
  have "b ! i \<in> set (drop i b)" using i(2) by (metis Cons_nth_drop_Suc list.set_intros(1))
  then show "equiv_key (fst (b ! i)) k"
    using map_lower_split(3) [OF assms(1,2) i(1)] assms(3)
    by (auto simp: map_find_def Let_def equiv_key_def split: if_splits)
qed

lemma map_find_None:
  assumes "bucket_ok b" "valid k" "map_find lt b k = None" "e \<in> set b"
  shows "\<not> equiv_key (fst e) k"
proof
  assume eq: "equiv_key (fst e) k"
  define i where "i = map_lower lt b k"
  note L = map_lower_split [OF assms(1,2) i_def]
  have "e \<in> set (drop i b)"
    using assms(4) L(2) [of e] eq by (metis Un_iff append_take_drop_id equiv_key_def set_append)
  then obtain d ds where d: "drop i b = d # ds" "e = d \<or> e \<in> set ds" by (cases "drop i b") auto
  then have i: "i < length b" "b ! i = d" by (metis Cons_nth_drop_Suc drop_eq_Nil list.distinct(1) list.inject not_le)+
  then have "lt k (fst d)" using assms(3) by (auto simp: map_find_def Let_def i_def split: if_splits)
  moreover have "sorted_wrt (\<lambda>x y. lt (fst x) (fst y)) (drop i b)"
    using assms(1) by (simp add: bucket_ok_def sorted_wrt_drop)
  then have "e \<noteq> d \<Longrightarrow> lt (fst d) (fst e)" using d by auto
  moreover have "valid (fst d)" "valid (fst e)"
    using assms(1,4) i d by (auto simp: bucket_ok_def)
  ultimately have "lt k (fst e)" using trans [of k "fst d" "fst e"] assms(2) by auto
  then show False using eq by (simp add: equiv_key_def)
qed

lemma bucket_unique:
  assumes "bucket_ok b" "valid k" "d \<in> set b" "e \<in> set b" "equiv_key (fst d) k" "equiv_key (fst e) k"
  shows "d = e"
proof (rule ccontr)
  assume ne: "d \<noteq> e"
  have v: "valid (fst d)" "valid (fst e)" using assms by (auto simp: bucket_ok_def)
  have "equiv_key (fst d) (fst e)"
    using equiv_trans [OF v(1) assms(2) v(2) assms(5)] assms(6) equiv_sym by blast
  moreover have "lt (fst d) (fst e) \<or> lt (fst e) (fst d)"
  proof -
    obtain i j where ij: "i < length b" "j < length b" "b ! i = d" "b ! j = e"
      using assms(3,4) by (auto simp: in_set_conv_nth)
    then have "i < j \<or> j < i" using ne by (metis linorder_neqE_nat)
    then show ?thesis using assms(1) ij by (auto simp: bucket_ok_def sorted_wrt_iff_nth_less)
  qed
  ultimately show False by (simp add: equiv_key_def)
qed

definition bucket_get :: "('k \<times> 'v) list \<Rightarrow> 'k \<Rightarrow> 'v option" where
  "bucket_get b k = map_option (\<lambda>i. snd (b ! i)) (map_find lt b k)"

lemma bucket_get_iff:
  assumes "bucket_ok b" "valid k"
  shows "bucket_get b k = Some p \<longleftrightarrow> (\<exists>e \<in> set b. equiv_key (fst e) k \<and> snd e = p)"
proof (cases "map_find lt b k")
  case None
  then show ?thesis using map_find_None [OF assms None] by (auto simp: bucket_get_def)
next
  case (Some i)
  note F = map_find_Some [OF assms Some]
  then have m: "b ! i \<in> set b" by simp
  have "e = b ! i" if "e \<in> set b" "equiv_key (fst e) k" for e
    using bucket_unique [OF assms that(1) m that(2) F(3)] .
  then have "(snd (b ! i) = p) = (\<exists>e \<in> set b. equiv_key (fst e) k \<and> snd e = p)"
    using F(3) m by blast
  then show ?thesis by (simp add: bucket_get_def Some)
qed

lemma bucket_emplace:
  assumes "bucket_ok b" "valid k"
  shows "map_emplace lt b k v = None \<longleftrightarrow> bucket_get b k \<noteq> None"
    and "map_emplace lt b k v = Some b' \<Longrightarrow> bucket_ok b' \<and> set b' = insert (k, v) (set b) \<and> length b' = Suc (length b)"
proof -
  show "map_emplace lt b k v = None \<longleftrightarrow> bucket_get b k \<noteq> None"
    by (auto simp: map_emplace_def bucket_get_def)
  assume e: "map_emplace lt b k v = Some b'"
  define i where "i = map_lower lt b k"
  note L = map_lower_split [OF assms i_def]
  have n: "map_find lt b k = None" and b': "b' = insert_at i (k, v) b"
    using e by (auto simp: map_emplace_def i_def split: if_splits)
  have after: "lt k (fst x)" if "x \<in> set (drop i b)" for x
    using map_find_None [OF assms n in_set_dropD [OF that]] L(3) [OF that] by (simp add: equiv_key_def)
  have "sorted_wrt (\<lambda>x y. lt (fst x) (fst y)) (take i b @ drop i b)"
    using assms(1) by (simp add: bucket_ok_def)
  then have "sorted_wrt (\<lambda>x y. lt (fst x) (fst y)) (take i b) \<and> sorted_wrt (\<lambda>x y. lt (fst x) (fst y)) (drop i b)
      \<and> (\<forall>a \<in> set (take i b). \<forall>c \<in> set (drop i b). lt (fst a) (fst c))"
    unfolding sorted_wrt_append .
  then have "sorted_wrt (\<lambda>x y. lt (fst x) (fst y)) b'"
    using L(2) after by (auto simp: b' insert_at_def sorted_wrt_append)
  then show "bucket_ok b' \<and> set b' = insert (k, v) (set b) \<and> length b' = Suc (length b)"
    using insert_at_props [OF L(1), of "(k, v)"] assms by (auto simp: b' bucket_ok_def)
qed

lemma bucket_erase:
  assumes "bucket_ok b" "valid k"
  shows "bucket_ok (map_erase lt b k)"
    and "set (map_erase lt b k) = {e \<in> set b. \<not> equiv_key (fst e) k}"
proof -
  have "bucket_ok (map_erase lt b k) \<and> set (map_erase lt b k) = {e \<in> set b. \<not> equiv_key (fst e) k}"
  proof (cases "map_find lt b k")
    case None
    then show ?thesis using assms map_find_None [OF assms None] by (auto simp: map_erase_def)
  next
    case (Some i)
    note F = map_find_Some [OF assms Some]
    have split: "b = take i b @ b ! i # drop (Suc i) b" using F(2) by (simp add: id_take_nth_drop)
    have s: "sorted_wrt (\<lambda>x y. lt (fst x) (fst y)) (take i b @ b ! i # drop (Suc i) b)"
      using assms(1) split by (simp add: bucket_ok_def)
    have "valid (fst (b ! i))" using assms(1) F(2) by (simp add: bucket_ok_def)
    then have "x \<noteq> b ! i" if "x \<in> set (take i b) \<union> set (drop (Suc i) b)" for x
      using s that irrefl [of "fst (b ! i)"] by (auto simp: sorted_wrt_append)
    then have ne: "\<not> equiv_key (fst x) k" if "x \<in> set (take i b) \<union> set (drop (Suc i) b)" for x
      using bucket_unique [OF assms, of x "b ! i"] F(2,3) that by (auto dest: in_set_takeD in_set_dropD)
    have "set b = set (take i b @ b ! i # drop (Suc i) b)" using split by simp
    then have "set (remove_at i b) = {e \<in> set b. \<not> equiv_key (fst e) k}"
      using ne F(3) by (auto simp: remove_at_def)
    moreover have "bucket_ok (remove_at i b)"
      using s assms(1) by (auto simp: bucket_ok_def remove_at_def sorted_wrt_append dest: in_set_takeD in_set_dropD)
    ultimately show ?thesis using Some by (simp add: map_erase_def)
  qed
  then show "bucket_ok (map_erase lt b k)" "set (map_erase lt b k) = {e \<in> set b. \<not> equiv_key (fst e) k}" by auto
qed

lemma range_bucket_filter:
  assumes "bucket_ok b"
    and down: "\<And>a c. valid a \<Longrightarrow> valid c \<Longrightarrow> lt a c \<Longrightarrow> before c \<Longrightarrow> before a"
      "\<And>a c. valid a \<Longrightarrow> valid c \<Longrightarrow> lt a c \<Longrightarrow> within c \<Longrightarrow> within a"
  shows "range_bucket before within (Some b) = map snd (filter (\<lambda>e. \<not> before (fst e) \<and> within (fst e)) b)"
proof -
  have "drop (lower_bound (\<lambda>e. before (fst e)) b) b = filter (\<lambda>e. \<not> before (fst e)) b"
    using assms(1)
  proof (induction b)
    case (Cons x b)
    have "filter (\<lambda>e. \<not> before (fst e)) b = b" if "\<not> before (fst x)"
      using Cons.prems down(1) [of "fst x"] that by (auto simp: bucket_ok_def filter_id_conv)
    then show ?case using Cons by (auto simp: lower_bound_def bucket_ok_def)
  qed (simp add: lower_bound_def)
  moreover have "takeWhile (\<lambda>e. within (fst e)) c = filter (\<lambda>e. within (fst e)) c" if "bucket_ok c"
    for c :: "('k \<times> RowLocation) list"
    using that
  proof (induction c)
    case (Cons x c)
    have "filter (\<lambda>e. within (fst e)) c = []" if "\<not> within (fst x)"
      using Cons.prems down(2) [of "fst x"] that by (auto simp: bucket_ok_def filter_empty_conv)
    then show ?case using Cons by (auto simp: bucket_ok_def)
  qed simp
  moreover have "bucket_ok (filter (\<lambda>e. \<not> before (fst e)) b)"
    using assms(1) by (auto simp: bucket_ok_def sorted_wrt_filter)
  ultimately show ?thesis by (simp add: range_bucket_def conj_commute)
qed

end

section \<open>Partitioned buckets\<close>

definition array_entries :: "'a list option list \<Rightarrow> 'a list" where
  "array_entries bs = concat (map (\<lambda>b. case b of None \<Rightarrow> [] | Some b \<Rightarrow> b) bs)"

lemma bucket_count_entries: "bucket_count bs = length (array_entries bs)"
  by (induction bs) (auto simp: bucket_count_def array_entries_def split: option.splits)

lemma array_entries_buckets: "array_entries bs = concat (map (bucket_of bs) [0..<length bs])"
proof -
  have "map (\<lambda>b. case b of None \<Rightarrow> [] | Some b \<Rightarrow> b) bs = map (bucket_of bs) [0..<length bs]"
    by (intro nth_equalityI) (auto simp: bucket_of_def)
  then show ?thesis by (simp add: array_entries_def)
qed

lemma set_array_entries: "set (array_entries bs) = (\<Union>n \<in> {..<length bs}. set (bucket_of bs n))"
  by (auto simp: array_entries_buckets)

lemma bucket_of_update: "n < length bs \<Longrightarrow> bucket_of (bs[n := Some b]) m = (if m = n then b else bucket_of bs m)"
  by (simp add: bucket_of_def nth_list_update)

locale partitioned = key_compare lt valid for lt :: "'k \<Rightarrow> 'k \<Rightarrow> bool" and valid :: "'k \<Rightarrow> bool" +
  fixes num :: "'k \<Rightarrow> nat"
  assumes num_less: "num k < hash_partitions"
    and num_equiv: "valid a \<Longrightarrow> valid b \<Longrightarrow> equiv_key a b \<Longrightarrow> num a = num b"
begin

definition array_ok :: "('k \<times> 'v) list option list \<Rightarrow> bool" where
  "array_ok bs \<longleftrightarrow> length bs = hash_partitions \<and>
     (\<forall>n < hash_partitions. bucket_ok (bucket_of bs n) \<and> (\<forall>e \<in> set (bucket_of bs n). num (fst e) = n))"

definition array_get :: "('k \<times> 'v) list option list \<Rightarrow> 'k \<Rightarrow> 'v option" where
  "array_get bs k = bucket_get (bucket_of bs (num k)) k"

lemma array_bucket: "array_ok bs \<Longrightarrow> bucket_ok (bucket_of bs (num k))"
  using num_less by (simp add: array_ok_def)

lemma array_empty: "array_ok (replicate hash_partitions None)" "array_entries (replicate hash_partitions None) = []"
  by (auto simp: array_ok_def bucket_of_def bucket_ok_def array_entries_def)

lemma array_valid: "array_ok bs \<Longrightarrow> e \<in> set (array_entries bs) \<Longrightarrow> valid (fst e)"
  by (auto simp: set_array_entries array_ok_def bucket_ok_def)

lemma array_mem:
  assumes "array_ok bs"
  shows "e \<in> set (array_entries bs) \<longleftrightarrow> e \<in> set (bucket_of bs (num (fst e)))"
  using assms num_less by (force simp: set_array_entries array_ok_def)

lemma array_num: "array_ok bs \<Longrightarrow> e \<in> set (bucket_of bs (num k)) \<Longrightarrow> num (fst e) = num k"
  using num_less by (simp add: array_ok_def)

lemma array_bucket_mem:
  "array_ok bs \<Longrightarrow> e \<in> set (bucket_of bs (num k)) \<longleftrightarrow> e \<in> set (array_entries bs) \<and> num (fst e) = num k"
  using array_mem [of bs e] array_num [of bs e k] by auto

lemma array_bucket_iff:
  assumes "array_ok bs" "valid k" "equiv_key (fst e) k"
  shows "e \<in> set (bucket_of bs (num k)) \<longleftrightarrow> e \<in> set (array_entries bs)"
proof
  assume e: "e \<in> set (bucket_of bs (num k))"
  then have "num (fst e) = num k" using assms(1) num_less by (auto simp: array_ok_def)
  then show "e \<in> set (array_entries bs)" using e array_mem [OF assms(1)] by simp
next
  assume e: "e \<in> set (array_entries bs)"
  then have "num (fst e) = num k" using num_equiv [OF array_valid [OF assms(1) e] assms(2,3)] by simp
  then show "e \<in> set (bucket_of bs (num k))" using e array_mem [OF assms(1)] by simp
qed

lemma array_get_iff:
  assumes "array_ok bs" "valid k"
  shows "array_get bs k = Some p \<longleftrightarrow> (\<exists>e \<in> set (array_entries bs). equiv_key (fst e) k \<and> snd e = p)"
  using bucket_get_iff [OF array_bucket [OF assms(1)] assms(2), of k p] array_bucket_iff [OF assms]
  by (auto simp: array_get_def)

lemma array_unique:
  assumes "array_ok bs" "valid k" "d \<in> set (array_entries bs)" "e \<in> set (array_entries bs)"
    "equiv_key (fst d) k" "equiv_key (fst e) k"
  shows "d = e"
  using bucket_unique [OF array_bucket [OF assms(1)] assms(2)] array_bucket_iff [OF assms(1,2)] assms by blast

lemma array_replace:
  assumes "array_ok bs" "valid k" "bucket_ok b" "\<forall>e \<in> set b. num (fst e) = num k"
  shows "array_ok (bs[num k := Some b])"
    "set (array_entries (bs[num k := Some b])) = {e \<in> set (array_entries bs). num (fst e) \<noteq> num k} \<union> set b"
proof -
  have len: "length bs = hash_partitions" and n: "num k < length bs"
    using assms(1) num_less by (auto simp: array_ok_def)
  show ok: "array_ok (bs[num k := Some b])"
    using assms n by (auto simp: array_ok_def bucket_of_update)
  show "set (array_entries (bs[num k := Some b])) = {e \<in> set (array_entries bs). num (fst e) \<noteq> num k} \<union> set b"
    using array_mem [OF ok] array_mem [OF assms(1)] assms(4) n by (auto simp: bucket_of_update split: if_splits)
qed

lemma array_insert:
  assumes "array_ok bs" "valid k" "map_emplace lt (bucket_of bs (num k)) k v = Some b"
  shows "array_ok (bs[num k := Some b])"
    "set (array_entries (bs[num k := Some b])) = insert (k, v) (set (array_entries bs))"
proof -
  note E = bucket_emplace(2) [OF array_bucket [OF assms(1)] assms(2,3)]
  have len: "length bs = hash_partitions" using assms(1) by (simp add: array_ok_def)
  have nums: "\<forall>e \<in> set b. num (fst e) = num k"
    using E assms(1) num_less by (auto simp: array_ok_def)
  note R = array_replace [OF assms(1,2) conjunct1 [OF E] nums]
  show "array_ok (bs[num k := Some b])" by (rule R(1))
  have "{e \<in> set (array_entries bs). num (fst e) \<noteq> num k} \<union> set (bucket_of bs (num k)) = set (array_entries bs)"
    using array_bucket_mem [OF assms(1)] by auto
  then show "set (array_entries (bs[num k := Some b])) = insert (k, v) (set (array_entries bs))"
    using R(2) E by auto
qed

lemma array_delete:
  assumes "array_ok bs" "valid k"
  shows "array_ok (bs[num k := Some (map_erase lt (bucket_of bs (num k)) k)])"
    "set (array_entries (bs[num k := Some (map_erase lt (bucket_of bs (num k)) k)])) =
      {e \<in> set (array_entries bs). \<not> equiv_key (fst e) k}"
proof -
  note E = bucket_erase [OF array_bucket [OF assms(1)] assms(2), of k]
  have nums: "\<forall>e \<in> set (map_erase lt (bucket_of bs (num k)) k). num (fst e) = num k"
    using E(2) assms(1) num_less by (auto simp: array_ok_def)
  note R = array_replace [OF assms E(1) nums]
  show "array_ok (bs[num k := Some (map_erase lt (bucket_of bs (num k)) k)])" by (rule R(1))
  have "num (fst e) = num k" if "e \<in> set (array_entries bs)" "equiv_key (fst e) k" for e
    using array_valid [OF assms(1) that(1)] num_equiv assms(2) that(2) by blast
  moreover have "e \<in> set (bucket_of bs (num k)) \<longleftrightarrow> e \<in> set (array_entries bs)" if "num (fst e) = num k" for e
    using array_mem [OF assms(1), of e] that by simp
  moreover have "set (bucket_of bs (num k)) \<subseteq> {e. num (fst e) = num k}"
    using assms(1) num_less by (auto simp: array_ok_def)
  ultimately show "set (array_entries (bs[num k := Some (map_erase lt (bucket_of bs (num k)) k)])) =
      {e \<in> set (array_entries bs). \<not> equiv_key (fst e) k}"
    unfolding R(2) E(2) by blast
qed

lemma bucket_distinct: "bucket_ok b \<Longrightarrow> distinct b"
proof (induction b)
  case (Cons x b)
  then have "x \<notin> set b" using irrefl [of "fst x"] by (auto simp: bucket_ok_def)
  then show ?case using Cons by (simp add: bucket_ok_def)
qed simp

lemma array_distinct:
  assumes "array_ok bs" shows "distinct (array_entries bs)"
proof -
  have len: "length bs = hash_partitions" using assms by (simp add: array_ok_def)
  have d: "distinct (bucket_of bs n)" if "n < hash_partitions" for n
    using assms that by (simp add: array_ok_def bucket_distinct)
  have disj: "set (bucket_of bs n) \<inter> set (bucket_of bs m) = {}" if "n < hash_partitions" "m < hash_partitions" "n \<noteq> m" for n m
    using assms that unfolding array_ok_def by (metis disjoint_iff)
  have "distinct (concat (map (bucket_of bs) [0..<m]))" if "m \<le> hash_partitions" for m
    using that
  proof (induction m)
    case (Suc m)
    have "x \<notin> set (bucket_of bs m)" if x: "x \<in> set (concat (map (bucket_of bs) [0..<m]))" for x
    proof -
      obtain n where "n < m" "x \<in> set (bucket_of bs n)" using x by auto
      then show ?thesis using disj [of n m] Suc.prems by auto
    qed
    then show ?case using Suc d [of m] by auto
  qed simp
  moreover have "array_entries bs = concat (map (bucket_of bs) [0..<hash_partitions])"
    using len by (simp add: array_entries_buckets)
  ultimately show ?thesis by simp
qed

lemma array_range:
  assumes "array_ok bs"
    and "\<And>a c. valid a \<Longrightarrow> valid c \<Longrightarrow> lt a c \<Longrightarrow> before c \<Longrightarrow> before a"
      "\<And>a c. valid a \<Longrightarrow> valid c \<Longrightarrow> lt a c \<Longrightarrow> within c \<Longrightarrow> within a"
  shows "concat (map (range_bucket before within) bs) =
    map snd (filter (\<lambda>e. \<not> before (fst e) \<and> within (fst e)) (array_entries bs))"
proof -
  have "range_bucket before within b =
      map snd (filter (\<lambda>e. \<not> before (fst e) \<and> within (fst e)) (case b of None \<Rightarrow> [] | Some b \<Rightarrow> b))"
    if b: "b \<in> set bs" for b
  proof (cases b)
    case None
    then show ?thesis by (simp add: range_bucket_def)
  next
    case (Some c)
    obtain n where "n < length bs" "bs ! n = Some c" using b Some by (auto simp: in_set_conv_nth)
    then have "bucket_ok c" using assms(1) by (force simp: array_ok_def bucket_of_def)
    then show ?thesis using range_bucket_filter [of c before within] assms(2,3) Some by simp
  qed
  then have "map (range_bucket before within) bs =
      map (\<lambda>b. map snd (filter (\<lambda>e. \<not> before (fst e) \<and> within (fst e)) (case b of None \<Rightarrow> [] | Some b \<Rightarrow> b))) bs"
    by simp
  then show ?thesis
    by (simp add: array_entries_def filter_concat map_concat comp_def del: map_eq_conv)
qed

end

text \<open>Native payloads.\<close>

interpretation ints: partitioned int_less "\<lambda>_. True" int_number
proof unfold_locales
  show "int_number k < hash_partitions" for k
    using word_mod_less_divisor [of 256 k] by (simp add: int_number_def hash_partitions_def word_less_nat_alt)
  show "int_number a = int_number b" if "key_compare.equiv_key int_less a b" for a b
  proof -
    have "key_compare int_less (\<lambda>_. True)" by unfold_locales (auto simp: int_less_def)
    then have "sint a = sint b" using that by (simp add: key_compare.equiv_key_def int_less_def)
    then have "a = b" by (rule signed_word_eqI)
    then show ?thesis by simp
  qed
qed (auto simp: int_less_def)

lemma ints_equiv [simp]: "ints.equiv_key a b \<longleftrightarrow> a = b"
  by (auto simp: ints.equiv_key_def int_less_def intro: signed_word_eqI)

text \<open>
  Add-on values. The documented contract of \<open>TypeAddon::hash\<close>: equal values
  hash identically.
\<close>

definition addon_hashed :: "TypeAddon \<Rightarrow> Type \<Rightarrow> bool" where
  "addon_hashed a t \<longleftrightarrow>
     (\<exists>h. addon_hash a = Some h \<and>
       (\<forall>x y. \<not> is_null x \<and> \<not> is_null y \<and> value_ok a t x \<and> value_ok a t y
          \<and> compare_cell a t x y = 0 \<longrightarrow> h (type_parameters t) x = h (type_parameters t) y))"

definition addon_less :: "TypeAddon \<Rightarrow> bytes \<Rightarrow> Value \<Rightarrow> Value \<Rightarrow> bool" where
  "addon_less a p u v = (case addon_compare a of Some f \<Rightarrow> f p u v < 0 | None \<Rightarrow> False)"

definition addon_number :: "TypeAddon \<Rightarrow> bytes \<Rightarrow> Value \<Rightarrow> nat" where
  "addon_number a p v = (case addon_hash a of Some f \<Rightarrow> unat (f p v mod 256) | None \<Rightarrow> 0)"

definition hash_key :: "TypeAddon \<Rightarrow> Type \<Rightarrow> Value \<Rightarrow> bool" where
  "hash_key a t v \<longleftrightarrow> addon_ordered a t \<and> addon_hashed a t \<and> value_ok a t v \<and> \<not> is_null v"

lemma addon_less_cell:
  "hash_key a t u \<Longrightarrow> hash_key a t v \<Longrightarrow> addon_less a (type_parameters t) u v \<longleftrightarrow> compare_cell a t u v < 0"
  by (auto simp: addon_less_def compare_cell_def hash_key_def split: option.splits)

lemma addon_key_compare: "key_compare (addon_less a (type_parameters t)) (hash_key a t)"
proof
  fix u v w
  assume u: "hash_key a t u"
  then have o: "addon_ordered a t" by (simp add: hash_key_def)
  have V: "value_ok a t x" if "hash_key a t x" for x using that by (simp add: hash_key_def)
  show "\<not> addon_less a (type_parameters t) u u"
    using cell_neg [OF o V [OF u] V [OF u]] u by (auto simp: addon_less_cell)
  assume v: "hash_key a t v" and w: "hash_key a t w"
  show "addon_less a (type_parameters t) u w"
    if "addon_less a (type_parameters t) u v" "addon_less a (type_parameters t) v w"
    using cell_less_le [OF o V [OF u] V [OF v] V [OF w]] that u v w by (simp add: addon_less_cell)
  show "\<not> addon_less a (type_parameters t) u w"
    if "\<not> addon_less a (type_parameters t) u v" "\<not> addon_less a (type_parameters t) v w"
    using cell_trans [OF o V [OF w] V [OF v] V [OF u]] that u v w
      cell_neg [OF o V [OF u] V [OF v]] cell_neg [OF o V [OF v] V [OF w]] cell_neg [OF o V [OF u] V [OF w]]
    by (auto simp: addon_less_cell)
qed

interpretation vals: partitioned "addon_less a (type_parameters t)" "hash_key a t"
    "addon_number a (type_parameters t)" for a t
proof (rule partitioned.intro [OF addon_key_compare], unfold_locales)
  show "addon_number a (type_parameters t) k < hash_partitions" for k
    using word_mod_less_divisor [of 256 "(the (addon_hash a)) (type_parameters t) k"]
    by (auto simp: addon_number_def hash_partitions_def word_less_nat_alt split: option.splits)
  show "addon_number a (type_parameters t) u = addon_number a (type_parameters t) v"
    if "hash_key a t u" "hash_key a t v" "key_compare.equiv_key (addon_less a (type_parameters t)) u v" for u v
  proof -
    have "\<not> addon_less a (type_parameters t) u v" "\<not> addon_less a (type_parameters t) v u"
      using that(3) by (simp_all add: key_compare.equiv_key_def [OF addon_key_compare [of a t]])
    then have "compare_cell a t u v = 0"
      using that(1,2) cell_neg [of a t u v] by (auto simp: addon_less_cell hash_key_def)
    then show ?thesis using that(1,2) by (auto simp: addon_number_def hash_key_def addon_hashed_def)
  qed
qed

lemma vals_equiv:
  "hash_key a t u \<Longrightarrow> hash_key a t v \<Longrightarrow> vals.equiv_key a t u v \<longleftrightarrow> compare_cell a t u v = 0"
  using cell_neg [of a t u v] by (auto simp: vals.equiv_key_def addon_less_cell hash_key_def)

end
