(* ===== verification/Hash_Index_Spec.thy ===== *)
theory Hash_Index_Spec
  imports Hash_Buckets "HOL-Library.Multiset"
begin

text \<open>
  The hash index as a unique map from keys to row locations: its invariant,
  insertion, erasure, lookup, validation and range scans.
\<close>

section \<open>Unique indexes\<close>

text \<open>
  What the table layer relies on for a primary key index: lookups certify
  equality, an insertion is refused exactly for a key already present, an
  erasure exactly when the entry is not there.
\<close>

locale unique_index =
  fixes lookup :: "'s \<Rightarrow> 'v \<Rightarrow> 'p option" and insert_key :: "'s \<Rightarrow> 'v \<Rightarrow> 'p \<Rightarrow> 's result"
    and erase_key :: "'s \<Rightarrow> 'v \<Rightarrow> 'p \<Rightarrow> 's result"
    and same :: "'v \<Rightarrow> 'v \<Rightarrow> bool" and valid :: "'v \<Rightarrow> bool" and inv :: "'s \<Rightarrow> bool"
  assumes same_sym: "valid v \<Longrightarrow> valid w \<Longrightarrow> same v w \<Longrightarrow> same w v"
    and insert_dup: "inv s \<Longrightarrow> valid v \<Longrightarrow> lookup s v \<noteq> None \<Longrightarrow> insert_key s v p = Inl E_constraint"
    and insert_new: "inv s \<Longrightarrow> valid v \<Longrightarrow> lookup s v = None \<Longrightarrow> \<exists>s'. insert_key s v p = Inr s' \<and> inv s'
        \<and> (\<forall>w. valid w \<longrightarrow> lookup s' w = (if same v w then Some p else lookup s w))"
    and erase_wrong: "inv s \<Longrightarrow> valid v \<Longrightarrow> lookup s v \<noteq> Some p \<Longrightarrow> erase_key s v p = Inl E_state"
    and erase_found: "inv s \<Longrightarrow> valid v \<Longrightarrow> lookup s v = Some p \<Longrightarrow> \<exists>s'. erase_key s v p = Inr s' \<and> inv s'
        \<and> (\<forall>w. valid w \<longrightarrow> lookup s' w = (if same v w then None else lookup s w))"
begin

definition insert_all :: "('v \<times> 'p) list \<Rightarrow> 's \<Rightarrow> 's result" where
  "insert_all es s = foldE (\<lambda>e s. insert_key s (fst e) (snd e)) es s"

text \<open>Building an index over a list of rows succeeds exactly when no two keys are the same.\<close>

lemma insert_all_ok:
  assumes "inv s" "\<forall>e \<in> set es. valid (fst e)"
    and "sorted_wrt (\<lambda>d e. \<not> same (fst d) (fst e)) es" "\<forall>e \<in> set es. lookup s (fst e) = None"
  shows "\<exists>s'. insert_all es s = Inr s' \<and> inv s'
    \<and> (\<forall>w. valid w \<longrightarrow> lookup s' w = (case find (\<lambda>e. same (fst e) w) (rev es) of Some e \<Rightarrow> Some (snd e) | None \<Rightarrow> lookup s w))"
  using assms
proof (induction es arbitrary: s)
  case (Cons e es)
  obtain s1 where s1: "insert_key s (fst e) (snd e) = Inr s1" "inv s1"
    "\<forall>w. valid w \<longrightarrow> lookup s1 w = (if same (fst e) w then Some (snd e) else lookup s w)"
    using insert_new [of s "fst e" "snd e"] Cons.prems by auto
  have "\<forall>d \<in> set es. lookup s1 (fst d) = None" using s1(3) Cons.prems by simp
  then obtain s' where s': "insert_all es s1 = Inr s'" "inv s'"
    "\<forall>w. valid w \<longrightarrow> lookup s' w = (case find (\<lambda>e. same (fst e) w) (rev es) of Some e \<Rightarrow> Some (snd e) | None \<Rightarrow> lookup s1 w)"
    using Cons.IH [OF s1(2)] Cons.prems by auto
  have "find P (xs @ [x]) = (case find P xs of Some y \<Rightarrow> Some y | None \<Rightarrow> if P x then Some x else None)"
    for P xs and x :: "'v \<times> 'p"
    by (induction xs) auto
  then show ?case
    using s1 s' by (auto simp: insert_all_def split: option.splits)
qed (simp add: insert_all_def)

lemma insert_all_dup:
  assumes "inv s" "\<forall>e \<in> set es. valid (fst e)" "insert_all es s = Inr s'"
  shows "sorted_wrt (\<lambda>d e. \<not> same (fst d) (fst e)) es \<and> (\<forall>e \<in> set es. lookup s (fst e) = None)"
  using assms
proof (induction es arbitrary: s)
  case (Cons e es)
  have n: "lookup s (fst e) = None"
    using insert_dup [of s "fst e" "snd e"] Cons.prems by (cases "lookup s (fst e)") (auto simp: insert_all_def)
  then obtain s1 where s1: "insert_key s (fst e) (snd e) = Inr s1" "inv s1"
    "\<forall>w. valid w \<longrightarrow> lookup s1 w = (if same (fst e) w then Some (snd e) else lookup s w)"
    using insert_new [of s "fst e" "snd e"] Cons.prems by auto
  have "insert_all es s1 = Inr s'" using Cons.prems(3) s1(1) by (simp add: insert_all_def)
  then have IH: "sorted_wrt (\<lambda>d e. \<not> same (fst d) (fst e)) es" "\<forall>d \<in> set es. lookup s1 (fst d) = None"
    using Cons.IH [OF s1(2)] Cons.prems(2) by auto
  moreover have "\<not> same (fst e) (fst d) \<and> lookup s (fst d) = None" if "d \<in> set es" for d
    using IH(2) s1(3) Cons.prems(2) that by (metis list.set_intros(2) option.distinct(1))
  ultimately show ?case using n by simp
qed (simp add: insert_all_def)

end

section \<open>The hash index\<close>

definition hx_inv :: "TypeAddon \<Rightarrow> Type \<Rightarrow> HashIndex \<Rightarrow> bool" where
  "hx_inv a t x \<longleftrightarrow> hx_addon x = a \<and> hx_parameters x = type_parameters t \<and> hx_native x = native_i64 a
     \<and> (if native_i64 a then ints.array_ok (hx_integers x) else vals.array_ok a t (hx_buckets x))"

definition hx_valid :: "TypeAddon \<Rightarrow> Type \<Rightarrow> Value \<Rightarrow> bool" where
  "hx_valid a t v \<longleftrightarrow> (if native_i64 a then is_ok (i64_payload v) else hash_key a t v)"

definition hx_same :: "TypeAddon \<Rightarrow> Type \<Rightarrow> Value \<Rightarrow> Value \<Rightarrow> bool" where
  "hx_same a t u v \<longleftrightarrow> (if native_i64 a then i64_payload u = i64_payload v else compare_cell a t u v = 0)"

definition hx_get :: "HashIndex \<Rightarrow> Value \<Rightarrow> RowLocation option" where
  "hx_get x v = (case hx_lookup x v of Inr r \<Rightarrow> r | Inl _ \<Rightarrow> None)"

lemma int_found_find:
  assumes "ints.bucket_ok b"
  shows "int_found b k \<longleftrightarrow> map_find int_less b k \<noteq> None"
    and "map_find int_less b k = (if int_found b k then Some (map_lower int_less b k) else None)"
proof -
  define i where "i = map_lower int_less b k"
  note L = ints.map_lower_split [OF assms TrueI i_def]
  have "fst (b ! i) = k \<longleftrightarrow> \<not> int_less k (fst (b ! i))" if "i < length b"
  proof -
    have "b ! i \<in> set (drop i b)" using that by (metis Cons_nth_drop_Suc list.set_intros(1))
    then show ?thesis
      using L(3) ints_equiv [of "fst (b ! i)" k] unfolding ints.equiv_key_def by blast
  qed
  then show "map_find int_less b k = (if int_found b k then Some (map_lower int_less b k) else None)"
    using L(1) by (cases "i < length b") (simp_all add: map_find_def int_found_def Let_def i_def [symmetric])
  then show "int_found b k \<longleftrightarrow> map_find int_less b k \<noteq> None" by simp
qed

lemma integer_lookup_get:
  assumes "ints.array_ok (hx_integers x)"
  shows "integer_lookup x k = ints.array_get (hx_integers x) k"
  using int_found_find [OF ints.array_bucket [OF assms], of k k]
  by (auto simp: integer_lookup_def ints.array_get_def ints.bucket_get_def bucket_of_def map_find_def
      map_lower_def lower_bound_def split: option.splits)

lemma hx_less_addon: "hx_inv a t x \<Longrightarrow> hx_less x = addon_less a (type_parameters t)"
  by (auto simp: hx_inv_def fun_eq_iff hx_less_def addon_less_def split: option.splits)

lemma hx_lookup_spec:
  assumes "hx_inv a t x" "hx_valid a t v"
  shows "hx_lookup x v = Inr (hx_get x v)"
    and "hx_get x v = (if native_i64 a then ints.array_get (hx_integers x) (projr (i64_payload v))
       else vals.array_get a t (hx_buckets x) v)"
proof -
  have "hx_lookup x v = Inr (if native_i64 a then ints.array_get (hx_integers x) (projr (i64_payload v))
       else vals.array_get a t (hx_buckets x) v)"
  proof (cases "native_i64 a")
    case True
    then show ?thesis
      using assms integer_lookup_get by (auto simp: hx_inv_def hx_valid_def hx_lookup_def is_ok_def split: sum.splits)
  next
    case False
    then obtain f where "addon_hash a = Some f"
      using assms(2) by (auto simp: hx_valid_def hash_key_def addon_hashed_def)
    then show ?thesis
      using False assms(1) hx_less_addon [OF assms(1)]
      by (auto simp: hx_inv_def hx_lookup_def hx_number_def vals.array_get_def vals.bucket_get_def addon_number_def
        bucket_of_def map_find_def map_lower_def lower_bound_def split: option.splits)
  qed
  then show "hx_lookup x v = Inr (hx_get x v)"
    "hx_get x v = (if native_i64 a then ints.array_get (hx_integers x) (projr (i64_payload v))
       else vals.array_get a t (hx_buckets x) v)"
    by (simp_all add: hx_get_def)
qed

lemma hx_get_iff:
  assumes "hx_inv a t x" "hx_valid a t v"
  shows "hx_get x v = Some p \<longleftrightarrow>
    (if native_i64 a then (projr (i64_payload v), p) \<in> set (array_entries (hx_integers x))
     else \<exists>e \<in> set (array_entries (hx_buckets x)). compare_cell a t (fst e) v = 0 \<and> snd e = p)"
proof (cases "native_i64 a")
  case True
  then have "ints.array_ok (hx_integers x)" using assms(1) by (simp add: hx_inv_def)
  then show ?thesis
    using ints.array_get_iff [of "hx_integers x" "projr (i64_payload v)" p] True hx_lookup_spec(2) [OF assms]
    by force
next
  case False
  then have ok: "vals.array_ok a t (hx_buckets x)" "hash_key a t v"
    using assms by (simp_all add: hx_inv_def hx_valid_def)
  have "vals.equiv_key a t (fst e) v \<longleftrightarrow> compare_cell a t (fst e) v = 0"
    if "e \<in> set (array_entries (hx_buckets x))" for e
    using vals_equiv [OF vals.array_valid [OF ok(1) that] ok(2)] .
  then show ?thesis
    using vals.array_get_iff [OF ok, of p] False hx_lookup_spec(2) [OF assms] by simp
qed

lemma option_eqI: "(\<And>q. x = Some q \<longleftrightarrow> y = Some q) \<Longrightarrow> x = y"
  by (metis option.exhaust)

lemma hx_same_iff:
  assumes "hx_valid a t v" "hx_valid a t w" "\<not> native_i64 a"
  shows "compare_cell a t v w = 0 \<longleftrightarrow> compare_cell a t w v = 0"
  using assms cell_neg(3) [of a t v w] by (simp add: hx_valid_def hash_key_def)

lemma vals_equiv_same:
  assumes "hash_key a t u" "hash_key a t v" "hash_key a t w" "compare_cell a t u w = 0"
  shows "vals.equiv_key a t u v \<longleftrightarrow> compare_cell a t v w = 0"
proof -
  have uw: "vals.equiv_key a t u w" using vals_equiv [OF assms(1,3)] assms(4) by simp
  then have "vals.equiv_key a t u v \<longleftrightarrow> vals.equiv_key a t v w"
    using vals.equiv_trans [OF assms(2,1,3)] vals.equiv_trans [OF assms(1,3,2)] unfolding vals.equiv_key_def by blast
  then show ?thesis using vals_equiv [OF assms(2,3)] by simp
qed

lemma hx_insert_dup:
  assumes "hx_inv a t x" "hx_valid a t v" "hx_get x v \<noteq> None"
  shows "hx_insert x v p = Inl E_constraint"
proof (cases "native_i64 a")
  case True
  then obtain k where k: "i64_payload v = Inr k" using assms(2) by (auto simp: hx_valid_def is_ok_def split: sum.splits)
  have ok: "ints.array_ok (hx_integers x)" and n: "hx_native x" using assms(1) True by (simp_all add: hx_inv_def)
  have "int_found (bucket_of (hx_integers x) (int_number k)) k"
    using assms(3) hx_lookup_spec(2) [OF assms(1,2)] True k int_found_find(1) [OF ints.array_bucket [OF ok], of k k]
    by (simp add: ints.array_get_def ints.bucket_get_def)
  then show ?thesis by (simp add: hx_insert_def n k hx_number_def)
next
  case False
  then have ok: "vals.array_ok a t (hx_buckets x)" "hash_key a t v" and n: "\<not> hx_native x"
    using assms by (simp_all add: hx_inv_def hx_valid_def)
  obtain f where f: "addon_hash a = Some f" using ok(2) by (auto simp: hash_key_def addon_hashed_def)
  have "hx_less x = addon_less a (type_parameters t)" "hx_addon x = a" "hx_parameters x = type_parameters t"
    using hx_less_addon [OF assms(1)] assms(1) by (simp_all add: hx_inv_def)
  moreover have "map_emplace (addon_less a (type_parameters t))
      (bucket_of (hx_buckets x) (addon_number a (type_parameters t) v)) v p = None"
    using assms(3) hx_lookup_spec(2) [OF assms(1,2)] False
      vals.bucket_emplace(1) [OF vals.array_bucket [OF ok(1)] ok(2)]
    by (simp add: vals.array_get_def)
  ultimately show ?thesis using n f by (simp add: hx_insert_def hx_number_def addon_number_def)
qed

lemma hx_insert_new:
  assumes "hx_inv a t x" "hx_valid a t v" "hx_get x v = None"
  shows "\<exists>x'. hx_insert x v p = Inr x' \<and> hx_inv a t x'
    \<and> (\<forall>w. hx_valid a t w \<longrightarrow> hx_get x' w = (if hx_same a t v w then Some p else hx_get x w))"
proof (cases "native_i64 a")
  case True
  then obtain k where k: "i64_payload v = Inr k" using assms(2) by (auto simp: hx_valid_def is_ok_def split: sum.splits)
  have ok: "ints.array_ok (hx_integers x)" and n: "hx_native x" using assms(1) True by (simp_all add: hx_inv_def)
  let ?b = "bucket_of (hx_integers x) (int_number k)"
  have nf: "\<not> int_found ?b k"
    using assms(3) hx_lookup_spec(2) [OF assms(1,2)] True k int_found_find(1) [OF ints.array_bucket [OF ok], of k k]
    by (simp add: ints.array_get_def ints.bucket_get_def)
  have em: "map_emplace int_less ?b k p = Some (insert_at (map_lower int_less ?b k) (k, p) ?b)"
    using nf int_found_find(2) [OF ints.array_bucket [OF ok], of k k] by (simp add: map_emplace_def)
  note A = ints.array_insert [OF ok TrueI em]
  let ?x = "x\<lparr>hx_integers := (hx_integers x)[int_number k := Some (insert_at (map_lower int_less ?b k) (k, p) ?b)]\<rparr>"
  have r: "hx_insert x v p = Inr ?x" using nf by (simp add: hx_insert_def n k hx_number_def Let_def)
  have inv: "hx_inv a t ?x" using assms(1) True A(1) by (simp add: hx_inv_def)
  have "hx_get ?x w = (if hx_same a t v w then Some p else hx_get x w)" if w: "hx_valid a t w" for w
  proof -
    obtain j where j: "i64_payload w = Inr j" using w True by (auto simp: hx_valid_def is_ok_def split: sum.splits)
    have *: "hx_get ?x w = Some q \<longleftrightarrow> (j = k \<and> q = p) \<or> hx_get x w = Some q" for q
      using hx_get_iff [OF inv w] hx_get_iff [OF assms(1) w] True A(2) j by auto
    moreover have "j = k \<Longrightarrow> hx_get x w = None"
      using assms(3) hx_lookup_spec(2) [OF assms(1,2)] hx_lookup_spec(2) [OF assms(1) w] True k j by simp
    ultimately show ?thesis
      using True k j by (intro option_eqI) (auto simp: hx_same_def)
  qed
  then show ?thesis using r inv by blast
next
  case False
  then have ok: "vals.array_ok a t (hx_buckets x)" "hash_key a t v" and n: "\<not> hx_native x"
    using assms by (simp_all add: hx_inv_def hx_valid_def)
  obtain f where f: "addon_hash a = Some f" using ok(2) by (auto simp: hash_key_def addon_hashed_def)
  have X: "hx_less x = addon_less a (type_parameters t)" "hx_addon x = a" "hx_parameters x = type_parameters t"
    using hx_less_addon [OF assms(1)] assms(1) by (simp_all add: hx_inv_def)
  let ?n = "addon_number a (type_parameters t) v"
  obtain b where em: "map_emplace (addon_less a (type_parameters t)) (bucket_of (hx_buckets x) ?n) v p = Some b"
    using assms(3) hx_lookup_spec(2) [OF assms(1,2)] False
      vals.bucket_emplace(1) [OF vals.array_bucket [OF ok(1)] ok(2), of v p]
    by (auto simp: vals.array_get_def)
  note A = vals.array_insert [OF ok em]
  let ?x = "x\<lparr>hx_buckets := (hx_buckets x)[?n := Some b]\<rparr>"
  have r: "hx_insert x v p = Inr ?x" using n f X em by (simp add: hx_insert_def hx_number_def addon_number_def)
  have inv: "hx_inv a t ?x" using assms(1) False A(1) by (simp add: hx_inv_def)
  have "hx_get ?x w = (if hx_same a t v w then Some p else hx_get x w)" if w: "hx_valid a t w" for w
  proof -
    have *: "hx_get ?x w = Some q \<longleftrightarrow> (compare_cell a t v w = 0 \<and> q = p) \<or> hx_get x w = Some q" for q
      using hx_get_iff [OF inv w] hx_get_iff [OF assms(1) w] False A(2) by auto
    have "hx_get x w = None" if s: "compare_cell a t v w = 0"
    proof (rule ccontr)
      assume "hx_get x w \<noteq> None"
      then obtain q where "hx_get x w = Some q" by auto
      then obtain e where e: "e \<in> set (array_entries (hx_buckets x))" "compare_cell a t (fst e) w = 0"
        using hx_get_iff [OF assms(1) w, of q] False by auto
      have ve: "hash_key a t (fst e)" "hash_key a t w"
        using vals.array_valid [OF ok(1) e(1)] w False by (simp_all add: hx_valid_def)
      have "vals.equiv_key a t (fst e) v" using vals_equiv_same [OF ve(1) ok(2) ve(2) e(2)] s by simp
      then have "hx_get x v = Some (snd e)"
        using hx_get_iff [OF assms(1,2), of "snd e"] False e(1) vals_equiv [OF ve(1) ok(2)] by auto
      then show False using assms(3) by simp
    qed
    then show ?thesis
      using * False by (intro option_eqI) (auto simp: hx_same_def)
  qed
  then show ?thesis using r inv by blast
qed

lemma hx_erase_wrong:
  assumes "hx_inv a t x" "hx_valid a t v" "hx_get x v \<noteq> Some p"
  shows "hx_erase x v p = Inl E_state"
  using hx_lookup_spec(1) [OF assms(1,2)] assms(3) by (simp add: hx_erase_def ensure_def)

lemma hx_erase_found:
  assumes "hx_inv a t x" "hx_valid a t v" "hx_get x v = Some p"
  shows "\<exists>x'. hx_erase x v p = Inr x' \<and> hx_inv a t x'
    \<and> (\<forall>w. hx_valid a t w \<longrightarrow> hx_get x' w = (if hx_same a t v w then None else hx_get x w))"
proof (cases "native_i64 a")
  case True
  then obtain k where k: "i64_payload v = Inr k" using assms(2) by (auto simp: hx_valid_def is_ok_def split: sum.splits)
  have ok: "ints.array_ok (hx_integers x)" and n: "hx_native x" using assms(1) True by (simp_all add: hx_inv_def)
  let ?b = "bucket_of (hx_integers x) (int_number k)"
  have f: "int_found ?b k"
    using assms(3) hx_lookup_spec(2) [OF assms(1,2)] True k int_found_find(1) [OF ints.array_bucket [OF ok], of k k]
    by (auto simp: ints.array_get_def ints.bucket_get_def)
  have er: "map_erase int_less ?b k = remove_at (map_lower int_less ?b k) ?b"
    using f int_found_find(2) [OF ints.array_bucket [OF ok], of k k] by (simp add: map_erase_def)
  note A = ints.array_delete [OF ok TrueI, of k, unfolded er]
  let ?x = "x\<lparr>hx_integers := (hx_integers x)[int_number k := Some (remove_at (map_lower int_less ?b k) ?b)]\<rparr>"
  have r: "hx_erase x v p = Inr ?x"
    using hx_lookup_spec(1) [OF assms(1,2)] assms(3) by (simp add: hx_erase_def n k hx_number_def Let_def ensure_def)
  have inv: "hx_inv a t ?x" using assms(1) True A(1) by (simp add: hx_inv_def)
  have "hx_get ?x w = (if hx_same a t v w then None else hx_get x w)" if w: "hx_valid a t w" for w
  proof -
    obtain j where j: "i64_payload w = Inr j" using w True by (auto simp: hx_valid_def is_ok_def split: sum.splits)
    have "hx_get ?x w = Some q \<longleftrightarrow> j \<noteq> k \<and> hx_get x w = Some q" for q
      using hx_get_iff [OF inv w] hx_get_iff [OF assms(1) w] True A(2) j by auto
    then show ?thesis using True k j by (intro option_eqI) (auto simp: hx_same_def)
  qed
  then show ?thesis using r inv by blast
next
  case False
  then have ok: "vals.array_ok a t (hx_buckets x)" "hash_key a t v" and n: "\<not> hx_native x"
    using assms by (simp_all add: hx_inv_def hx_valid_def)
  obtain f where f: "addon_hash a = Some f" using ok(2) by (auto simp: hash_key_def addon_hashed_def)
  have X: "hx_less x = addon_less a (type_parameters t)" "hx_addon x = a" "hx_parameters x = type_parameters t"
    using hx_less_addon [OF assms(1)] assms(1) by (simp_all add: hx_inv_def)
  let ?n = "addon_number a (type_parameters t) v"
  note A = vals.array_delete [OF ok]
  let ?x = "x\<lparr>hx_buckets := (hx_buckets x)[?n := Some (map_erase (addon_less a (type_parameters t)) (bucket_of (hx_buckets x) ?n) v)]\<rparr>"
  have r: "hx_erase x v p = Inr ?x"
    using hx_lookup_spec(1) [OF assms(1,2)] assms(3) n f X
    by (simp add: hx_erase_def hx_number_def addon_number_def ensure_def)
  have inv: "hx_inv a t ?x" using assms(1) False A(1) by (simp add: hx_inv_def)
  have "hx_get ?x w = (if hx_same a t v w then None else hx_get x w)" if w: "hx_valid a t w" for w
  proof -
    have E: "vals.equiv_key a t (fst e) v \<longleftrightarrow> compare_cell a t v w = 0"
      if "e \<in> set (array_entries (hx_buckets x))" "compare_cell a t (fst e) w = 0" for e
      using vals_equiv_same [OF vals.array_valid [OF ok(1) that(1)] ok(2)] w False that(2)
      by (simp add: hx_valid_def)
    have "hx_get ?x w = Some q \<longleftrightarrow> compare_cell a t v w \<noteq> 0 \<and> hx_get x w = Some q" for q
    proof -
      have "hx_get ?x w = Some q \<longleftrightarrow> (\<exists>e \<in> set (array_entries (hx_buckets x)).
          \<not> vals.equiv_key a t (fst e) v \<and> compare_cell a t (fst e) w = 0 \<and> snd e = q)"
        using hx_get_iff [OF inv w, of q] False by (simp add: A(2) Bex_def split_paired_Ex)
      also have "\<dots> \<longleftrightarrow> (\<exists>e \<in> set (array_entries (hx_buckets x)).
          compare_cell a t v w \<noteq> 0 \<and> compare_cell a t (fst e) w = 0 \<and> snd e = q)"
        using E by (intro bex_cong) auto
      also have "\<dots> \<longleftrightarrow> compare_cell a t v w \<noteq> 0 \<and> hx_get x w = Some q"
        using hx_get_iff [OF assms(1) w, of q] False by simp
      finally show ?thesis .
    qed
    then show ?thesis using False by (intro option_eqI) (auto simp: hx_same_def)
  qed
  then show ?thesis using r inv by blast
qed

interpretation hx: unique_index hx_get hx_insert hx_erase "hx_same a t" "hx_valid a t" "hx_inv a t" for a t
proof
  show "hx_same a t w v" if "hx_valid a t v" "hx_valid a t w" "hx_same a t v w" for v w
    using hx_same_iff [OF that(1,2)] that(3) by (auto simp: hx_same_def split: if_splits)
qed (fact hx_insert_dup hx_insert_new hx_erase_wrong hx_erase_found)+

section \<open>Indexes whose entries can be listed\<close>

text \<open>What validation and range scans rely on.\<close>

locale listed_index =
  fixes lookup :: "'s \<Rightarrow> 'v \<Rightarrow> 'p option" and entries :: "'s \<Rightarrow> ('v \<times> 'p) list"
    and same :: "'v \<Rightarrow> 'v \<Rightarrow> bool" and valid :: "'v \<Rightarrow> bool" and inv :: "'s \<Rightarrow> bool"
  assumes same_refl: "valid v \<Longrightarrow> same v v"
    and same_trans: "valid u \<Longrightarrow> valid v \<Longrightarrow> valid w \<Longrightarrow> same u v \<Longrightarrow> same v w \<Longrightarrow> same u w"
    and same_commute: "valid v \<Longrightarrow> valid w \<Longrightarrow> same v w \<Longrightarrow> same w v"
    and entries_valid: "inv s \<Longrightarrow> e \<in> set (entries s) \<Longrightarrow> valid (fst e)"
    and entries_distinct: "inv s \<Longrightarrow> distinct (entries s)"
    and entries_unique: "inv s \<Longrightarrow> d \<in> set (entries s) \<Longrightarrow> e \<in> set (entries s) \<Longrightarrow> same (fst d) (fst e) \<Longrightarrow> d = e"
    and lookup_iff: "inv s \<Longrightarrow> valid v \<Longrightarrow> lookup s v = Some p \<longleftrightarrow> (\<exists>e \<in> set (entries s). same (fst e) v \<and> snd e = p)"
begin

lemma lookup_entry: "inv s \<Longrightarrow> e \<in> set (entries s) \<Longrightarrow> lookup s (fst e) = Some (snd e)"
  using lookup_iff entries_valid same_refl by blast

lemma located:
  assumes "inv s" "\<forall>e \<in> set source. valid (fst e)" "\<forall>e \<in> set source. lookup s (fst e) = Some (snd e)"
  shows "snd ` set source \<subseteq> snd ` set (entries s)"
proof (rule image_subsetI)
  fix e assume e: "e \<in> set source"
  then obtain d where "d \<in> set (entries s)" "snd d = snd e"
    using lookup_iff [OF assms(1) bspec [OF assms(2) e], of "snd e"] assms(3) by blast
  then show "snd e \<in> snd ` set (entries s)" by (metis image_eqI)
qed

lemma same_chain:
  "valid u \<Longrightarrow> valid v \<Longrightarrow> valid w \<Longrightarrow> same u v \<Longrightarrow> same u w \<Longrightarrow> same v w"
  using same_trans [of v u w] same_commute [of u v] by blast

text \<open>Rows at distinct locations, all found, as many as there are entries: the index holds exactly them.\<close>

lemma locations_exact:
  assumes "inv s" "\<forall>e \<in> set source. valid (fst e)" "distinct (map snd source)"
    and "length (entries s) = length source" "\<forall>e \<in> set source. lookup s (fst e) = Some (snd e)"
    and "valid v" "lookup s v = Some p"
  shows "\<exists>e \<in> set source. same (fst e) v \<and> snd e = p"
proof -
  have sub: "snd ` set source \<subseteq> snd ` set (entries s)" by (rule located [OF assms(1,2,5)])
  have "card (snd ` set source) = length source" using assms(3) distinct_card by fastforce
  moreover have le: "card (snd ` set (entries s)) \<le> length (entries s)"
    by (metis card_length list.set_map length_map)
  ultimately have eq: "snd ` set source = snd ` set (entries s)"
    using sub assms(4) card_seteq [of "snd ` set (entries s)" "snd ` set source"] by simp
  then have "card (set (map snd (entries s))) = length (map snd (entries s))"
    using \<open>card (snd ` set source) = length source\<close> assms(4) by simp
  then have dist: "distinct (map snd (entries s))" by (rule card_distinct)
  obtain k where k: "k \<in> set (entries s)" "same (fst k) v" "snd k = p"
    using assms(6,7) lookup_iff [OF assms(1)] by blast
  have "snd k \<in> snd ` set source" using k(1) eq by simp
  then obtain e where e: "e \<in> set source" "snd e = p" using k(3) by auto
  have ve: "valid (fst e)" using assms(2) e(1) by blast
  obtain d where d: "d \<in> set (entries s)" "same (fst d) (fst e)" "snd d = p"
    using assms(5) e lookup_iff [OF assms(1) ve, of p] by auto
  have "inj_on snd (set (entries s))" using dist by (simp add: distinct_map)
  then have "d = k" using d(1,3) k(1,3) by (simp add: inj_on_def)
  then have "same (fst e) v"
    using same_chain [OF entries_valid [OF assms(1) k(1)] ve assms(6)] d(2) k(2) by simp
  then show ?thesis using e by blast
qed

lemma count_exact:
  assumes "inv s" "\<forall>e \<in> set source. valid (fst e)" "distinct (map snd source)"
    and H: "\<And>v p. valid v \<Longrightarrow> lookup s v = Some p \<longleftrightarrow> (\<exists>e \<in> set source. same (fst e) v \<and> snd e = p)"
  shows "length (entries s) = length source" "\<forall>e \<in> set source. lookup s (fst e) = Some (snd e)"
proof -
  show L: "\<forall>e \<in> set source. lookup s (fst e) = Some (snd e)" using H assms(2) same_refl by blast
  have sub: "snd ` set source \<subseteq> snd ` set (entries s)" by (rule located [OF assms(1,2) L])
  have sup: "snd ` set (entries s) \<subseteq> snd ` set source"
  proof (rule image_subsetI)
    fix d assume d: "d \<in> set (entries s)"
    then obtain e where "e \<in> set source" "snd e = snd d"
      using H [OF entries_valid [OF assms(1) d], of "snd d"] lookup_entry [OF assms(1) d] by auto
    then show "snd d \<in> snd ` set source" by (metis image_eqI)
  qed
  have "inj_on snd (set (entries s))"
  proof (rule inj_onI)
    fix d e
    assume d: "d \<in> set (entries s)" and e: "e \<in> set (entries s)" and eq: "snd d = snd e"
    obtain x y where x: "x \<in> set source" "same (fst x) (fst d)" "snd x = snd d"
      and y: "y \<in> set source" "same (fst y) (fst e)" "snd y = snd e"
      using H [OF entries_valid [OF assms(1) d], of "snd d"] H [OF entries_valid [OF assms(1) e], of "snd e"]
        lookup_entry [OF assms(1)] d e by auto
    have "inj_on snd (set source)" using assms(3) by (simp add: distinct_map)
    then have xy: "x = y" using x(1,3) y(1,3) eq by (simp add: inj_on_def)
    have vx: "valid (fst x)" using assms(2) x(1) by blast
    have "same (fst d) (fst e)"
      using same_chain [OF vx entries_valid [OF assms(1) d] entries_valid [OF assms(1) e] x(2)] y(2) xy by simp
    then show "d = e" using entries_unique [OF assms(1) d e] by blast
  qed
  then have "distinct (map snd (entries s))" using entries_distinct [OF assms(1)] by (simp add: distinct_map)
  then show "length (entries s) = length source"
    using sub sup assms(3) by (metis distinct_card length_map list.set_map subset_antisym)
qed

end

definition hx_entries :: "HashIndex \<Rightarrow> (Value \<times> RowLocation) list" where
  "hx_entries x = (if hx_native x then map (\<lambda>(k, p). (VInt k, p)) (array_entries (hx_integers x))
     else array_entries (hx_buckets x))"

lemma hx_entries_valid:
  assumes "hx_inv a t x" "e \<in> set (hx_entries x)" shows "hx_valid a t (fst e)"
  using assms vals.array_valid [of a t "hx_buckets x" e]
  by (auto simp: hx_inv_def hx_entries_def hx_valid_def is_ok_def i64_payload_def split: if_splits)

lemma hx_entries_unique:
  assumes "hx_inv a t x" "d \<in> set (hx_entries x)" "e \<in> set (hx_entries x)" "hx_same a t (fst d) (fst e)"
  shows "d = e"
proof (cases "native_i64 a")
  case True
  then have ok: "ints.array_ok (hx_integers x)" and n: "hx_native x" using assms(1) by (simp_all add: hx_inv_def)
  show ?thesis
    using assms(2-4) True n ints.array_unique [OF ok TrueI]
    by (auto simp: hx_entries_def hx_same_def i64_payload_def)
next
  case False
  then have ok: "vals.array_ok a t (hx_buckets x)" and n: "\<not> hx_native x" using assms(1) by (simp_all add: hx_inv_def)
  have k: "hash_key a t (fst d)" "hash_key a t (fst e)"
    using vals.array_valid [OF ok] assms(2,3) n by (simp_all add: hx_entries_def)
  have "vals.equiv_key a t (fst d) (fst e)" using vals_equiv [OF k] assms(4) False by (simp add: hx_same_def)
  then show ?thesis
    using vals.array_unique [OF ok k(2)] assms(2,3) n vals.equiv_refl [OF k(2)] by (simp add: hx_entries_def)
qed

interpretation hxl: listed_index hx_get hx_entries "hx_same a t" "hx_valid a t" "hx_inv a t" for a t
proof
  show "hx_same a t v v" if "hx_valid a t v" for v
    using that vals_equiv [of a t v v] vals.equiv_refl [of a t v] by (auto simp: hx_same_def hx_valid_def)
  show "hx_same a t u w" if "hx_valid a t u" "hx_valid a t v" "hx_valid a t w" "hx_same a t u v" "hx_same a t v w" for u v w
    using that vals.equiv_trans [of a t u v w] by (auto simp: hx_same_def hx_valid_def vals_equiv split: if_splits)
  show "distinct (hx_entries x)" if "hx_inv a t x" for x
    using that ints.array_distinct vals.array_distinct [of a t]
    by (auto simp: hx_entries_def hx_inv_def distinct_map inj_on_def split: if_splits)
  show "hx_get x v = Some p \<longleftrightarrow> (\<exists>e \<in> set (hx_entries x). hx_same a t (fst e) v \<and> snd e = p)"
    if xv: "hx_inv a t x" "hx_valid a t v" for x v p
  proof (cases "native_i64 a")
    case True
    then obtain k where k: "i64_payload v = Inr k" using xv(2) by (auto simp: hx_valid_def is_ok_def split: sum.splits)
    have "hx_native x" using xv(1) True by (simp add: hx_inv_def)
    then show ?thesis
      using hx_get_iff [OF xv, of p] True k
      by (auto simp: hx_entries_def hx_same_def i64_payload_def intro: rev_bexI)
  next
    case False
    then have "\<not> hx_native x" using xv(1) by (simp add: hx_inv_def)
    then show ?thesis using hx_get_iff [OF xv, of p] False by (simp add: hx_entries_def hx_same_def)
  qed
qed (fact hx.same_sym hx_entries_valid hx_entries_unique)+

lemma hx_validate_spec:
  assumes "hx_inv a t x" "\<forall>e \<in> set source. hx_valid a t (fst e)"
  shows "hx_validate x source = (if length (hx_entries x) = length source
      \<and> (\<forall>e \<in> set source. hx_get x (fst e) = Some (snd e)) then Inr () else Inl E_state)"
proof -
  have "forE (\<lambda>e. bindE (hx_lookup x (fst e)) (\<lambda>found. ensure (found = Some (snd e)) E_state)) es =
     (if \<forall>e \<in> set es. hx_get x (fst e) = Some (snd e) then Inr () else Inl E_state)"
    if "set es \<subseteq> set source" for es
    using that
  proof (induction es)
    case (Cons e es)
    then have "hx_lookup x (fst e) = Inr (hx_get x (fst e))" using hx_lookup_spec(1) [OF assms(1)] assms(2) by auto
    then show ?case using Cons by (simp add: ensure_def)
  qed simp
  then show ?thesis
    by (simp add: hx_validate_def bucket_count_entries hx_entries_def ensure_def)
qed

section \<open>Range scans\<close>

definition hx_leq :: "TypeAddon \<Rightarrow> Type \<Rightarrow> Value \<Rightarrow> Value \<Rightarrow> bool" where
  "hx_leq a t u v \<longleftrightarrow> (if native_i64 a then sint (projr (i64_payload u)) \<le> sint (projr (i64_payload v))
     else compare_cell a t u v \<le> 0)"

definition hx_within :: "TypeAddon \<Rightarrow> Type \<Rightarrow> Value option \<Rightarrow> Value option \<Rightarrow> Value \<Rightarrow> bool" where
  "hx_within a t lo hi v \<longleftrightarrow>
     (case lo of Some u \<Rightarrow> hx_leq a t u v | None \<Rightarrow> True) \<and> (case hi of Some u \<Rightarrow> hx_leq a t v u | None \<Rightarrow> True)"

definition int_keys :: "i64 \<Rightarrow> i64 \<Rightarrow> i64 list" where
  "int_keys start stop = map (\<lambda>i. start + of_nat i) [0..<Suc (unat (stop - start))]"

lemma int_keys_step:
  "int_keys start stop = start # (if start = stop then [] else int_keys (start + 1) stop)"
proof (cases "start = stop")
  case False
  then have "stop - start \<noteq> 0" by simp
  then have u: "unat (stop - start) = Suc (unat (stop - (start + 1)))"
    using unat_minus_one [of "stop - start"] unat_gt_0 [of "stop - start"] by (simp add: diff_diff_eq [symmetric])
  have "[0..<Suc (Suc n)] = 0 # map Suc [0..<Suc n]" for n by (metis map_Suc_upt upt_conv_Cons zero_less_Suc)
  then show ?thesis using False unfolding int_keys_def u by (simp add: comp_def ac_simps del: upt_Suc)
qed (simp add: int_keys_def)

lemma int_probe_keys:
  "int_probe x start stop = concat (map (\<lambda>k. case integer_lookup x k of Some p \<Rightarrow> [p] | None \<Rightarrow> []) (int_keys start stop))"
proof (induction x start stop rule: int_probe.induct)
  case (1 x key stop)
  then show ?case by (subst int_probe.simps, subst int_keys_step) (simp split: option.splits)
qed

lemma int_keys_span:
  fixes start stop :: i64
  assumes "sint start \<le> sint stop"
  shows "unat (stop - start) = nat (sint stop - sint start)"
proof -
  have b: "- (2 ^ 63) \<le> sint start" "sint stop < 2 ^ 63"
    using sint_range_size [of start] sint_range_size [of stop] by (simp_all add: word_size)
  have "uint (stop - start) = (sint stop - sint start) mod 2 ^ 64"
  proof -
    have "stop - start = word_of_int (sint stop - sint start)" by simp
    then show ?thesis by (simp only: uint_word_of_int) simp
  qed
  also have "\<dots> = sint stop - sint start" using assms b by (intro mod_pos_pos_trivial) simp_all
  finally show ?thesis by (metis nat_uint_eq)
qed

lemma int_keys_nth:
  fixes start stop :: i64
  assumes "i \<le> unat (stop - start)" "sint start \<le> sint stop"
  shows "sint (start + of_nat i) = sint start + int i"
proof -
  have b: "- (2 ^ 63) \<le> sint start" "sint stop < 2 ^ 63"
    using sint_range_size [of start] sint_range_size [of stop] by (simp_all add: word_size)
  have "sint start + int i \<le> sint stop" using assms int_keys_span [OF assms(2)] by linarith
  moreover have "start + of_nat i = word_of_int (sint start + int i)" by simp
  ultimately show ?thesis using b by (simp add: sint_sbintrunc' signed_take_bit_int_eq_self del: of_int_add)
qed

lemma int_keys_set:
  assumes "sint start \<le> sint stop"
  shows "set (int_keys start stop) = {k. sint start \<le> sint k \<and> sint k \<le> sint stop}" "distinct (int_keys start stop)"
proof -
  note n = int_keys_nth [OF _ assms] and s = int_keys_span [OF assms]
  have "k \<in> set (int_keys start stop)" if "sint start \<le> sint k" "sint k \<le> sint stop" for k
  proof -
    have i: "nat (sint k - sint start) \<le> unat (stop - start)" using that s by linarith
    have "start + of_nat (nat (sint k - sint start)) = k"
      using n [OF i] that(1) by (intro signed_word_eqI) simp
    then have "k \<in> (\<lambda>i. start + of_nat i) ` {..< Suc (unat (stop - start))}"
      using i by (intro image_eqI [where x = "nat (sint k - sint start)"]) simp_all
    then show ?thesis by (simp only: int_keys_def set_map atLeast_upt)
  qed
  moreover have "sint start \<le> sint k \<and> sint k \<le> sint stop" if k: "k \<in> set (int_keys start stop)" for k
  proof -
    obtain i where "i \<le> unat (stop - start)" "k = start + of_nat i"
      using k by (auto simp: int_keys_def less_Suc_eq_le simp del: upt_Suc)
    then show ?thesis using n [of i] s assms by simp
  qed
  ultimately show "set (int_keys start stop) = {k. sint start \<le> sint k \<and> sint k \<le> sint stop}" by blast
  show "distinct (int_keys start stop)"
    unfolding int_keys_def distinct_map
    using n by (auto intro!: inj_onI simp del: upt_Suc simp: less_Suc_eq_le) (metis add_left_cancel of_nat_eq_iff)
qed

lemma int_probe_entries:
  assumes "hx_inv a t x" "native_i64 a" "sint start \<le> sint stop"
  shows "mset (int_probe x start stop) = mset (map snd (filter (\<lambda>e. sint start \<le> sint (fst e) \<and> sint (fst e) \<le> sint stop)
     (array_entries (hx_integers x))))"
proof -
  have ok: "ints.array_ok (hx_integers x)" using assms(1,2) by (simp add: hx_inv_def)
  have mem: "(k, p) \<in> set (array_entries (hx_integers x)) \<longleftrightarrow> integer_lookup x k = Some p" for k p
    using ints.array_get_iff [OF ok TrueI, of k p] integer_lookup_get [OF ok, of k] by force
  define es where "es = concat (map (\<lambda>k. case integer_lookup x k of Some p \<Rightarrow> [(k, p)] | None \<Rightarrow> []) (int_keys start stop))"
  have "distinct (concat (map (\<lambda>k. case integer_lookup x k of Some p \<Rightarrow> [(k, p)] | None \<Rightarrow> []) ks))" if "distinct ks" for ks
    using that by (induction ks) (auto split: option.splits)
  then have d: "distinct es" using int_keys_set(2) [OF assms(3)] by (simp add: es_def)
  have "set es = set (filter (\<lambda>e. sint start \<le> sint (fst e) \<and> sint (fst e) \<le> sint stop) (array_entries (hx_integers x)))"
    using int_keys_set(1) [OF assms(3)] mem by (auto simp: es_def split: option.splits)
  then have "mset es = mset (filter (\<lambda>e. sint start \<le> sint (fst e) \<and> sint (fst e) \<le> sint stop) (array_entries (hx_integers x)))"
    using set_eq_iff_mset_eq_distinct [OF d distinct_filter [OF ints.array_distinct [OF ok]]] by blast
  then have "mset (map snd es) = mset (map snd (filter (\<lambda>e. sint start \<le> sint (fst e) \<and> sint (fst e) \<le> sint stop) (array_entries (hx_integers x))))"
    by (simp only: mset_map)
  moreover have "map snd es = int_probe x start stop"
    unfolding int_probe_keys es_def map_concat by (simp add: comp_def option.case_distrib cong: option.case_cong)
  ultimately show ?thesis by simp
qed

lemma hx_range_native:
  assumes "hx_inv a t x" "native_i64 a"
    and "\<forall>u. lo = Some u \<longrightarrow> hx_valid a t u" "\<forall>u. hi = Some u \<longrightarrow> hx_valid a t u"
  shows "\<exists>r. hx_range x lo hi = Inr (Some r) \<and> \<not> result_exact r
    \<and> mset (result_rows r) = mset (map snd (filter (\<lambda>e. hx_within a t lo hi (fst e)) (hx_entries x)))"
proof -
  have ok: "ints.array_ok (hx_integers x)" and n: "hx_native x" using assms(1,2) by (simp_all add: hx_inv_def)
  obtain start where start: "(case lo of Some v \<Rightarrow> i64_payload v | None \<Rightarrow> Inr (word_of_int (- (2 ^ 63)))) = Inr start"
    using assms(2,3) by (cases lo) (auto simp: hx_valid_def is_ok_def split: sum.splits)
  obtain stop where stop: "(case hi of Some v \<Rightarrow> i64_payload v | None \<Rightarrow> Inr (word_of_int (2 ^ 63 - 1))) = Inr stop"
    using assms(2,4) by (cases hi) (auto simp: hx_valid_def is_ok_def split: sum.splits)
  have min: "sint (word_of_int (- (2 ^ 63)) :: i64) \<le> sint k" "sint k \<le> sint (word_of_int (2 ^ 63 - 1) :: i64)" for k :: i64
    using sint_range_size [of k] by (simp_all add: word_size)
  have within: "hx_within a t lo hi (VInt k) \<longleftrightarrow> sint start \<le> sint k \<and> sint k \<le> sint stop" for k
    using start stop assms(2) min [of k]
    by (auto simp: hx_within_def hx_leq_def i64_payload_def split: option.splits)
  have E: "map snd (filter (\<lambda>e. hx_within a t lo hi (fst e)) (hx_entries x)) =
      map snd (filter (\<lambda>e. sint start \<le> sint (fst e) \<and> sint (fst e) \<le> sint stop) (array_entries (hx_integers x)))"
    using n within by (simp add: hx_entries_def filter_map comp_def case_prod_beta)
  have R: "concat (map (range_bucket (\<lambda>k. int_less k start) (\<lambda>k. \<not> int_less stop k)) (hx_integers x)) =
      map snd (filter (\<lambda>e. sint start \<le> sint (fst e) \<and> sint (fst e) \<le> sint stop) (array_entries (hx_integers x)))"
    by (subst ints.array_range [OF ok]) (auto simp: int_less_def not_less)
  have empty: "filter (\<lambda>e. sint start \<le> sint (fst e) \<and> sint (fst e) \<le> sint stop) (array_entries (hx_integers x)) = []"
    if "sint stop < sint start" using that by (auto simp: filter_empty_conv)
  show ?thesis
    using int_probe_entries [OF assms(1,2), of start stop] E R empty
    by (auto simp: hx_range_def n start stop)
qed

lemma hx_range_values:
  assumes "hx_inv a t x" "\<not> native_i64 a" "addon_compare a \<noteq> None"
    and "\<forall>u. lo = Some u \<longrightarrow> hx_valid a t u" "\<forall>u. hi = Some u \<longrightarrow> hx_valid a t u"
  shows "\<exists>r. hx_range x lo hi = Inr (Some r) \<and> \<not> result_exact r
    \<and> result_rows r = map snd (filter (\<lambda>e. hx_within a t lo hi (fst e)) (hx_entries x))"
proof -
  have ok: "vals.array_ok a t (hx_buckets x)" and n: "\<not> hx_native x" using assms(1,2) by (simp_all add: hx_inv_def)
  note L = hx_less_addon [OF assms(1)]
  have V: "hash_key a t u" if "lo = Some u \<or> hi = Some u" for u
    using that assms(2,4,5) by (auto simp: hx_valid_def)
  let ?before = "\<lambda>k. case lo of Some v \<Rightarrow> hx_less x k v | None \<Rightarrow> False"
  let ?within = "\<lambda>k. case hi of Some v \<Rightarrow> \<not> hx_less x v k | None \<Rightarrow> True"
  have bw1: "?before b" if "hash_key a t b" "hash_key a t c" "addon_less a (type_parameters t) b c" "?before c" for b c
    using vals.trans [OF that(1,2) V that(3)] that(4) by (cases lo) (auto simp: L)
  have bw2: "?within b" if "hash_key a t b" "hash_key a t c" "addon_less a (type_parameters t) b c" "?within c" for b c
    using vals.trans [OF V that(1,2)] that(3,4) by (cases hi) (auto simp: L)
  have W: "\<not> ?before k \<and> ?within k \<longleftrightarrow> hx_within a t lo hi k" if "hash_key a t k" for k
  proof -
    have "\<not> ?before k \<longleftrightarrow> (case lo of Some u \<Rightarrow> hx_leq a t u k | None \<Rightarrow> True)"
      using V assms(2) that cell_neg [of a t "the lo" k]
      by (cases lo) (auto simp: L hx_leq_def addon_less_cell hash_key_def)
    moreover have "?within k \<longleftrightarrow> (case hi of Some u \<Rightarrow> hx_leq a t k u | None \<Rightarrow> True)"
      using V assms(2) that cell_neg [of a t "the hi" k]
      by (cases hi) (auto simp: L hx_leq_def addon_less_cell hash_key_def)
    ultimately show ?thesis by (simp add: hx_within_def)
  qed
  have "concat (map (range_bucket ?before ?within) (hx_buckets x)) =
      map snd (filter (\<lambda>e. \<not> ?before (fst e) \<and> ?within (fst e)) (array_entries (hx_buckets x)))"
    by (rule vals.array_range [OF ok bw1 bw2])
  also have "\<dots> = map snd (filter (\<lambda>e. hx_within a t lo hi (fst e)) (array_entries (hx_buckets x)))"
    using W vals.array_valid [OF ok] by (intro arg_cong [where f = "map snd"] filter_cong) auto
  finally show ?thesis
    using n assms(1,3) by (simp add: hx_range_def hx_entries_def hx_inv_def)
qed

lemma within_same:
  assumes "hx_valid a t u" "hx_valid a t v" "hx_same a t u v"
    and "\<forall>w. lo = Some w \<or> hi = Some w \<longrightarrow> hx_valid a t w" "hx_within a t lo hi v"
  shows "hx_within a t lo hi u"
proof (cases "native_i64 a")
  case True
  then show ?thesis using assms(3,5) by (auto simp: hx_within_def hx_leq_def hx_same_def split: option.splits)
next
  case False
  have k: "hash_key a t u" "hash_key a t v" "compare_cell a t u v = 0"
    using assms(1-3) False by (simp_all add: hx_valid_def hx_same_def)
  have w: "hash_key a t w" if "lo = Some w \<or> hi = Some w" for w using assms(4) False that by (auto simp: hx_valid_def)
  have eq: "vals.equiv_key a t u v" using vals_equiv k by blast
  have "hx_leq a t x u" if "hash_key a t x" "hx_leq a t x v" for x
    using that eq k False vals.neg_trans [OF k(1,2) that(1)]
      cell_neg [of a t x u] cell_neg [of a t x v]
    by (auto simp: hx_leq_def addon_less_cell vals.equiv_key_def hash_key_def)
  moreover have "hx_leq a t u x" if "hash_key a t x" "hx_leq a t v x" for x
    using that eq k False vals.neg_trans [OF that(1) k(2,1)]
      cell_neg [of a t u x] cell_neg [of a t v x]
    by (auto simp: hx_leq_def addon_less_cell vals.equiv_key_def hash_key_def)
  ultimately show ?thesis
    using assms(5) w by (auto simp: hx_within_def split: option.splits)
qed

section \<open>Correctness of the hash index\<close>

text \<open>The empty index of a type.\<close>

lemma make_hash_index_inv:
  assumes "make_hash_index t a = Inr x"
  shows "hx_inv a t x" "hx_entries x = []" "native_i64 a \<or> addon_compare a \<noteq> None"
  using assms
  by (auto simp: ints.array_empty vals.array_empty make_hash_index_def result_simps hx_inv_def hx_entries_def ensure_def split: if_splits)

lemma make_hash_index_get: "make_hash_index t a = Inr x \<Longrightarrow> hx_valid a t v \<Longrightarrow> hx_get x v = None"
  using make_hash_index_inv [of t a x] hxl.lookup_iff [of a t x v] by (cases "hx_get x v") auto

text \<open>
  C19. The hash index is a unique map from keys to row locations. A fresh index
  is empty; lookups never fail on a valid key; an insertion is refused with a
  constraint error exactly when an equal key is present and otherwise changes
  the lookup of exactly the equal keys; an erasure is refused with a state
  error exactly when the key does not lead to that location and otherwise
  removes exactly that key. Every operation keeps the index invariant.
\<close>

theorem hash_index_unique_map:
  assumes "hx_inv a t x" and "hx_valid a t v"
  shows "hx_lookup x v = Inr (hx_get x v)
    \<and> (make_hash_index t a = Inr x \<longrightarrow> hx_get x v = None)
    \<and> (case hx_insert x v p of
         Inl e \<Rightarrow> e = E_constraint \<and> hx_get x v \<noteq> None
       | Inr y \<Rightarrow> hx_get x v = None \<and> hx_inv a t y
           \<and> (\<forall>w. hx_valid a t w \<longrightarrow> hx_get y w = (if hx_same a t v w then Some p else hx_get x w)))
    \<and> (case hx_erase x v p of
         Inl e \<Rightarrow> e = E_state \<and> hx_get x v \<noteq> Some p
       | Inr y \<Rightarrow> hx_get x v = Some p \<and> hx_inv a t y
           \<and> (\<forall>w. hx_valid a t w \<longrightarrow> hx_get y w = (if hx_same a t v w then None else hx_get x w)))"
proof (intro conjI)
  show "case hx_insert x v p of
         Inl e \<Rightarrow> e = E_constraint \<and> hx_get x v \<noteq> None
       | Inr y \<Rightarrow> hx_get x v = None \<and> hx_inv a t y
           \<and> (\<forall>w. hx_valid a t w \<longrightarrow> hx_get y w = (if hx_same a t v w then Some p else hx_get x w))"
    using hx.insert_dup [OF assms, of p] hx.insert_new [OF assms, of p] by (cases "hx_get x v = None") auto
  show "case hx_erase x v p of
         Inl e \<Rightarrow> e = E_state \<and> hx_get x v \<noteq> Some p
       | Inr y \<Rightarrow> hx_get x v = Some p \<and> hx_inv a t y
           \<and> (\<forall>w. hx_valid a t w \<longrightarrow> hx_get y w = (if hx_same a t v w then None else hx_get x w))"
    using hx.erase_wrong [OF assms, of p] hx.erase_found [OF assms, of p] by (cases "hx_get x v = Some p") auto
qed (use hx_lookup_spec(1) [OF assms] make_hash_index_get assms(2) in auto)

text \<open>
  C20. A range scan of the hash index returns exactly the locations of the keys
  between its bounds, each entry once, whether it probes the partitions of a
  narrow span or scans every partition; it never claims a certified result.
\<close>

theorem hash_index_range_exact:
  assumes "hx_inv a t x" and "native_i64 a \<or> addon_compare a \<noteq> None"
    and "\<forall>u. lo = Some u \<or> hi = Some u \<longrightarrow> hx_valid a t u"
  shows "\<exists>r. hx_range x lo hi = Inr (Some r) \<and> \<not> result_exact r
    \<and> mset (result_rows r) = mset (map snd (filter (\<lambda>e. hx_within a t lo hi (fst e)) (hx_entries x)))
    \<and> (\<forall>p. p \<in> set (result_rows r) \<longleftrightarrow> (\<exists>v. hx_valid a t v \<and> hx_within a t lo hi v \<and> hx_get x v = Some p))"
proof -
  obtain r where r: "hx_range x lo hi = Inr (Some r)" "\<not> result_exact r"
    "mset (result_rows r) = mset (map snd (filter (\<lambda>e. hx_within a t lo hi (fst e)) (hx_entries x)))"
    using hx_range_native [OF assms(1), of lo hi] hx_range_values [OF assms(1), of lo hi] assms(2,3) by fastforce
  have S: "set (result_rows r) = snd ` {e \<in> set (hx_entries x). hx_within a t lo hi (fst e)}"
    using arg_cong [OF r(3), of set_mset] by simp
  have "p \<in> set (result_rows r) \<longleftrightarrow> (\<exists>v. hx_valid a t v \<and> hx_within a t lo hi v \<and> hx_get x v = Some p)" for p
  proof
    assume "p \<in> set (result_rows r)"
    then obtain e where e: "e \<in> set (hx_entries x)" "hx_within a t lo hi (fst e)" "p = snd e" using S by auto
    then show "\<exists>v. hx_valid a t v \<and> hx_within a t lo hi v \<and> hx_get x v = Some p"
      using hxl.lookup_entry [OF assms(1) e(1)] hx_entries_valid [OF assms(1) e(1)] by blast
  next
    assume "\<exists>v. hx_valid a t v \<and> hx_within a t lo hi v \<and> hx_get x v = Some p"
    then obtain v e where v: "hx_valid a t v" "hx_within a t lo hi v"
      and e: "e \<in> set (hx_entries x)" "hx_same a t (fst e) v" "snd e = p"
      using hxl.lookup_iff [OF assms(1)] by blast
    have "hx_within a t lo hi (fst e)"
      using within_same [OF hx_entries_valid [OF assms(1) e(1)] v(1) e(2) _ v(2)] assms(3) by blast
    then show "p \<in> set (result_rows r)" using S e by auto
  qed
  then show ?thesis using r by blast
qed

text \<open>
  C21. For rows at distinct locations, validation of the hash index succeeds
  exactly when the index maps every key to the row holding it and to nothing
  else; otherwise it reports a state error.
\<close>

theorem hash_index_validate_exact:
  assumes "hx_inv a t x" and "\<forall>e \<in> set source. hx_valid a t (fst e)" and "distinct (map snd source)"
  shows "hx_validate x source =
    (if \<forall>v p. hx_valid a t v \<longrightarrow> (hx_get x v = Some p \<longleftrightarrow> (\<exists>e \<in> set source. hx_same a t (fst e) v \<and> snd e = p))
     then Inr () else Inl E_state)"
proof (cases "\<forall>v p. hx_valid a t v \<longrightarrow> (hx_get x v = Some p \<longleftrightarrow> (\<exists>e \<in> set source. hx_same a t (fst e) v \<and> snd e = p))")
  case True
  then have H: "hx_get x v = Some p \<longleftrightarrow> (\<exists>e \<in> set source. hx_same a t (fst e) v \<and> snd e = p)" if "hx_valid a t v" for v p
    using that by blast
  show ?thesis
    using hxl.count_exact [OF assms H] True by (simp add: hx_validate_spec [OF assms(1,2)])
next
  case False
  have "\<not> (length (hx_entries x) = length source \<and> (\<forall>e \<in> set source. hx_get x (fst e) = Some (snd e)))"
  proof
    assume A: "length (hx_entries x) = length source \<and> (\<forall>e \<in> set source. hx_get x (fst e) = Some (snd e))"
    have "hx_get x v = Some p \<longleftrightarrow> (\<exists>e \<in> set source. hx_same a t (fst e) v \<and> snd e = p)" if v: "hx_valid a t v" for v p
    proof
      assume "\<exists>e \<in> set source. hx_same a t (fst e) v \<and> snd e = p"
      then obtain e where e: "e \<in> set source" "hx_same a t (fst e) v" "snd e = p" by blast
      then obtain d where d: "d \<in> set (hx_entries x)" "hx_same a t (fst d) (fst e)" "snd d = p"
        using A hxl.lookup_iff [OF assms(1)] assms(2) by blast
      then have "hx_same a t (fst d) v"
        using hxl.same_trans [OF hx_entries_valid [OF assms(1) d(1)] _ v] assms(2) e by blast
      then show "hx_get x v = Some p" using hxl.lookup_iff [OF assms(1) v] d by blast
    qed (use hxl.locations_exact [OF assms] A v in blast)
    then show False using False by blast
  qed
  then show ?thesis using False by (simp add: hx_validate_spec [OF assms(1,2)])
qed

section \<open>A sample index\<close>

definition sample_addon :: TypeAddon where
  "sample_addon = scalar_integer (\<lambda>_. 0)"

definition sample_hash :: HashIndex where
  "sample_hash = \<lparr>hx_addon = sample_addon, hx_parameters = type_parameters integer_type, hx_native = True,
     hx_buckets = replicate hash_partitions None, hx_integers = replicate hash_partitions None\<rparr>"

lemma sample_native [simp]: "native_i64 sample_addon"
  by (simp add: sample_addon_def scalar_integer_def native_i64_def)

lemma sample_hash_make: "make_hash_index integer_type sample_addon = Inr sample_hash"
  by (simp add: make_hash_index_def sample_hash_def sample_addon_def scalar_integer_def native_i64_def ensure_def)

lemma sample_hash_valid [simp]: "hx_valid sample_addon integer_type (VInt k)"
  by (simp add: hx_valid_def i64_payload_def is_ok_def)

lemma sample_hash_same [simp]: "hx_same sample_addon integer_type (VInt j) (VInt k) \<longleftrightarrow> j = k"
  by (simp add: hx_same_def i64_payload_def)

lemma sample_hash_inv: "hx_inv sample_addon integer_type sample_hash" "hx_get sample_hash (VInt k) = None"
  using make_hash_index_inv [OF sample_hash_make] make_hash_index_get [OF sample_hash_make] by simp_all

lemma sample_hash_one:
  obtains x where "hx_insert sample_hash (VInt 5) (RowLocation 2 3) = Inr x" "hx_inv sample_addon integer_type x"
    "\<forall>v. hx_valid sample_addon integer_type v \<longrightarrow>
       hx_get x v = (if i64_payload v = Inr 5 then Some (RowLocation 2 3) else None)"
proof -
  obtain x where x: "hx_insert sample_hash (VInt 5) (RowLocation 2 3) = Inr x" "hx_inv sample_addon integer_type x"
    "\<forall>w. hx_valid sample_addon integer_type w \<longrightarrow> hx_get x w =
       (if hx_same sample_addon integer_type (VInt 5) w then Some (RowLocation 2 3) else hx_get sample_hash w)"
    using hx.insert_new [OF sample_hash_inv(1) sample_hash_valid sample_hash_inv(2), of 5 "RowLocation 2 3"] by blast
  show thesis
    by (rule that [OF x(1,2)])
      (use x(3) make_hash_index_get [OF sample_hash_make] in
        \<open>auto simp: hx_same_def i64_payload_def [of "VInt 5"]\<close>)
qed

theorem hash_index_unique_map_witness:
  "hx_lookup sample_hash (VInt 5) = Inr None
   \<and> (\<exists>y. hx_insert sample_hash (VInt 5) (RowLocation 2 3) = Inr y \<and> hx_get y (VInt 5) = Some (RowLocation 2 3))
   \<and> hx_erase sample_hash (VInt 5) (RowLocation 2 3) = Inl E_state"
  using hash_index_unique_map [OF sample_hash_inv(1) sample_hash_valid, of 5 "RowLocation 2 3"]
  by (auto simp: sample_hash_inv(2) split: sum.splits)

theorem hash_index_range_exact_witness:
  "\<exists>x r. hx_insert sample_hash (VInt 5) (RowLocation 2 3) = Inr x
     \<and> hx_range x (Some (VInt 3)) (Some (VInt 9)) = Inr (Some r) \<and> RowLocation 2 3 \<in> set (result_rows r)"
proof -
  obtain x where x: "hx_insert sample_hash (VInt 5) (RowLocation 2 3) = Inr x" "hx_inv sample_addon integer_type x"
    "\<forall>v. hx_valid sample_addon integer_type v \<longrightarrow>
       hx_get x v = (if i64_payload v = Inr 5 then Some (RowLocation 2 3) else None)"
    by (rule sample_hash_one)
  have "hx_get x (VInt 5) = Some (RowLocation 2 3)" using spec [OF x(3), of "VInt 5"] by (simp add: i64_payload_def)
  moreover have "hx_within sample_addon integer_type (Some (VInt 3)) (Some (VInt 9)) (VInt 5)"
    by (simp add: hx_within_def hx_leq_def i64_payload_def)
  moreover have "\<forall>u. Some (VInt 3) = Some u \<or> Some (VInt 9) = Some u \<longrightarrow> hx_valid sample_addon integer_type u"
    by auto
  moreover have "native_i64 sample_addon \<or> addon_compare sample_addon \<noteq> None" by simp
  ultimately show ?thesis
    using hash_index_range_exact [OF x(2), of "Some (VInt 3)" "Some (VInt 9)"] x(1) sample_hash_valid [of 5]
    by blast
qed

theorem hash_index_validate_exact_witness:
  "\<exists>x. hx_insert sample_hash (VInt 5) (RowLocation 2 3) = Inr x
     \<and> hx_validate x [(VInt 5, RowLocation 2 3)] = Inr () \<and> hx_validate x [(VInt 6, RowLocation 2 3)] = Inl E_state"
proof -
  obtain x where x: "hx_insert sample_hash (VInt 5) (RowLocation 2 3) = Inr x" "hx_inv sample_addon integer_type x"
    "\<forall>v. hx_valid sample_addon integer_type v \<longrightarrow>
       hx_get x v = (if i64_payload v = Inr 5 then Some (RowLocation 2 3) else None)"
    by (rule sample_hash_one)
  have s: "hx_same sample_addon integer_type (VInt k) v \<longleftrightarrow> i64_payload v = Inr k" for k v
    by (auto simp: hx_same_def i64_payload_def [of "VInt k"])
  have "\<exists>v. hx_valid sample_addon integer_type v \<and> hx_get x v = Some (RowLocation 2 3) \<and> i64_payload v \<noteq> Inr 6"
    using spec [OF x(3), of "VInt 5"] by (intro exI [of _ "VInt 5"]) (simp add: i64_payload_def)
  then show ?thesis
    using x(1) hash_index_validate_exact [OF x(2), of "[(VInt 5, RowLocation 2 3)]"]
      hash_index_validate_exact [OF x(2), of "[(VInt 6, RowLocation 2 3)]"] x(3)
    by (auto simp: s)
qed

end
