(* ===== verification/Key_Index.thy ===== *)
theory Key_Index
  imports Hash_Index
begin

text \<open>
  The postings index of a key extractor, src/key_index.cpp: every key a stored
  value yields leads to the locations of the rows that yield it, kept as sparse
  masks of 128 slots.

  Buckets and postings are shared between snapshots and copied before they are
  changed, so they are values here. An \<open>unordered_map\<close> is the list of its
  entries: only its find, insert, erase and size are used, never its order.
  Registration refuses extractors whose key type lacks equality or hashing.
\<close>

section \<open>Keys of a value\<close>

record KeyBinding =
  kb_extractor :: KeyExtractor
  kb_addon :: TypeAddon

definition binding_keys :: "KeyBinding \<Rightarrow> Value \<Rightarrow> Value list result" where
  "binding_keys b v =
     (let t = key_type (kb_extractor b) in
      bindE (fn_extract (kb_extractor b) v) (\<lambda>ks.
      bindE (forE (\<lambda>k.
        bindE (ensure (\<not> is_null k) E_type) (\<lambda>_.
        bindE (ensure (holds_layout (kb_addon b) t k) E_type) (\<lambda>_.
        addon_validate_value (kb_addon b) (type_parameters t) k))) ks) (\<lambda>_.
      Inr ks)))"

definition key_hash :: "KeyBinding \<Rightarrow> Value \<Rightarrow> nat" where
  "key_hash b k =
     (case addon_hash (kb_addon b) of
        Some f \<Rightarrow> unat (f (type_parameters (key_type (kb_extractor b))) k) | None \<Rightarrow> 0)"

definition key_equal :: "KeyBinding \<Rightarrow> Value \<Rightarrow> Value \<Rightarrow> bool" where
  "key_equal b j k =
     (case addon_equal (kb_addon b) of
        Some f \<Rightarrow> f (type_parameters (key_type (kb_extractor b))) j k | None \<Rightarrow> False)"

definition binding_matches :: "KeyBinding \<Rightarrow> Value \<Rightarrow> Value \<Rightarrow> bool result" where
  "binding_matches b source key =
     bindE (binding_keys b source) (\<lambda>ks. Inr (list_ex (\<lambda>k. key_equal b k key) ks))"

section \<open>Postings\<close>

type_synonym Mask = "u64 \<times> u64"
type_synonym Posting = "(RowLocation \<times> Mask) list"
type_synonym Bucket = "(Value \<times> Posting) list"

definition mask_word :: "nat \<Rightarrow> Mask \<Rightarrow> u64" where
  "mask_word w m = (if w = 0 then fst m else snd m)"

definition mask_update :: "nat \<Rightarrow> (u64 \<Rightarrow> u64) \<Rightarrow> Mask \<Rightarrow> Mask" where
  "mask_update w f m = (if w = 0 then (f (fst m), snd m) else (fst m, f (snd m)))"

definition slot_block :: "RowLocation \<Rightarrow> RowLocation" where
  "slot_block l = RowLocation (loc_chunk l) (loc_slot l div 128 * 128)"

definition slot_word :: "RowLocation \<Rightarrow> nat" where
  "slot_word l = unat (loc_slot l mod 128 div 64)"

definition slot_bit :: "RowLocation \<Rightarrow> u64" where
  "slot_bit l = push_bit (unat (loc_slot l mod 64)) 1"

text \<open>\<open>(*posting)[block][word] |= bit\<close> on the ordered map of masks.\<close>

fun posting_set :: "RowLocation \<Rightarrow> nat \<Rightarrow> u64 \<Rightarrow> Posting \<Rightarrow> Posting" where
  "posting_set l w b [] = [(l, mask_update w (\<lambda>m. m OR b) (0, 0))]"
| "posting_set l w b ((k, m) # ps) =
     (if k < l then (k, m) # posting_set l w b ps
      else if k = l then (k, mask_update w (\<lambda>m. m OR b) m) # ps
      else (l, mask_update w (\<lambda>m. m OR b) (0, 0)) # (k, m) # ps)"

text \<open>Clearing a bit; the block goes with its last bit. \<open>None\<close> when there is no such block.\<close>

fun posting_clear :: "RowLocation \<Rightarrow> nat \<Rightarrow> u64 \<Rightarrow> Posting \<Rightarrow> Posting option" where
  "posting_clear l w b [] = None"
| "posting_clear l w b ((k, m) # ps) =
     (if k = l then
        let m' = mask_update w (\<lambda>m. m AND NOT b) m in
        Some (if fst m' OR snd m' = 0 then ps else (k, m') # ps)
      else map_option (\<lambda>qs. (k, m) # qs) (posting_clear l w b ps))"

section \<open>The index\<close>

fun bucket_posting :: "(Value \<Rightarrow> Value \<Rightarrow> bool) \<Rightarrow> Value \<Rightarrow> Bucket \<Rightarrow> Posting option" where
  "bucket_posting eq k [] = None"
| "bucket_posting eq k ((j, p) # b) = (if eq j k then Some p else bucket_posting eq k b)"

fun bucket_put :: "(Value \<Rightarrow> Value \<Rightarrow> bool) \<Rightarrow> Value \<Rightarrow> (Posting \<Rightarrow> Posting) \<Rightarrow> Bucket \<Rightarrow> Bucket" where
  "bucket_put eq k f [] = [(k, f [])]"
| "bucket_put eq k f ((j, p) # b) = (if eq j k then (j, f p) # b else (j, p) # bucket_put eq k f b)"

fun bucket_remove :: "(Value \<Rightarrow> Value \<Rightarrow> bool) \<Rightarrow> Value \<Rightarrow> (Posting \<Rightarrow> Posting option) \<Rightarrow> Bucket \<Rightarrow> Bucket" where
  "bucket_remove eq k f [] = []"
| "bucket_remove eq k f ((j, p) # b) =
     (if eq j k then
        (case f p of None \<Rightarrow> (j, p) # b | Some q \<Rightarrow> if q = [] then b else (j, q) # b)
      else (j, p) # bucket_remove eq k f b)"

record KeyIndex =
  kx_binding :: KeyBinding
  kx_buckets :: "Bucket option list"

definition make_key_index :: "KeyExtractor \<Rightarrow> TypeAddon \<Rightarrow> KeyIndex" where
  "make_key_index x a =
     \<lparr>kx_binding = \<lparr>kb_extractor = x, kb_addon = a\<rparr>, kx_buckets = replicate 256 None\<rparr>"

definition change_key :: "KeyBinding \<Rightarrow> RowLocation \<Rightarrow> bool \<Rightarrow> Value \<Rightarrow> Bucket option list \<Rightarrow> Bucket option list" where
  "change_key kb location inserting key buckets =
     (let block = slot_block location; w = slot_word location; b = slot_bit location;
          n = key_hash kb key mod 256;
          bucket = bucket_of buckets n
      in buckets[n := Some
           (if inserting then bucket_put (key_equal kb) key (posting_set block w b) bucket
            else bucket_remove (key_equal kb) key (posting_clear block w b) bucket)])"

definition kx_change :: "KeyIndex \<Rightarrow> Value \<Rightarrow> RowLocation \<Rightarrow> bool \<Rightarrow> KeyIndex result" where
  "kx_change x source location inserting =
     bindE (binding_keys (kx_binding x) source) (\<lambda>ks.
     Inr (x\<lparr>kx_buckets := fold (change_key (kx_binding x) location inserting) ks (kx_buckets x)\<rparr>))"

definition kx_insert :: "KeyIndex \<Rightarrow> Value \<Rightarrow> RowLocation \<Rightarrow> KeyIndex result" where
  "kx_insert x v p = kx_change x v p True"

definition kx_erase :: "KeyIndex \<Rightarrow> Value \<Rightarrow> RowLocation \<Rightarrow> KeyIndex result" where
  "kx_erase x v p = kx_change x v p False"

definition same_bucket :: "KeyBinding \<Rightarrow> Bucket \<Rightarrow> Bucket \<Rightarrow> bool" where
  "same_bucket kb actual wanted \<longleftrightarrow>
     length actual = length wanted
     \<and> list_all (\<lambda>(k, p). bucket_posting (key_equal kb) k actual = Some p) wanted"

definition kx_validate :: "KeyIndex \<Rightarrow> (Value \<times> RowLocation) list \<Rightarrow> unit result" where
  "kx_validate x source =
     bindE (foldE (\<lambda>e y. kx_insert y (fst e) (snd e)) source
       (make_key_index (kb_extractor (kx_binding x)) (kb_addon (kx_binding x)))) (\<lambda>expected.
     forE (\<lambda>i. ensure (same_bucket (kx_binding x) (bucket_of (kx_buckets x) i) (bucket_of (kx_buckets expected) i))
         E_state) [0..<length (kx_buckets x)])"

definition kx_validate_search :: "string \<Rightarrow> unit result" where
  "kx_validate_search operation = ensure (operation = ''equal'') E_unsupported"

definition kx_search_type :: "KeyIndex \<Rightarrow> string \<Rightarrow> Type result" where
  "kx_search_type x operation =
     bindE (kx_validate_search operation) (\<lambda>_. Inr (key_type (kb_extractor (kx_binding x))))"

definition countr_zero :: "u64 \<Rightarrow> nat" where
  "countr_zero m = length (takeWhile (\<lambda>i. \<not> bit m i) [0..<64])"

text \<open>\<open>while (bits) { ... bits &= bits - 1; }\<close>, at most 64 rounds.\<close>

fun mask_bits :: "nat \<Rightarrow> u64 \<Rightarrow> nat list" where
  "mask_bits 0 m = []"
| "mask_bits (Suc n) m = (if m = 0 then [] else countr_zero m # mask_bits n (m AND (m - 1)))"

definition block_locations :: "RowLocation \<times> Mask \<Rightarrow> RowLocation list" where
  "block_locations e =
     concat (map (\<lambda>w. map (\<lambda>i. RowLocation (loc_chunk (fst e)) (loc_slot (fst e) + of_nat (w * 64) + of_nat i))
        (mask_bits 64 (mask_word w (snd e)))) [0, 1])"

definition kx_search :: "KeyIndex \<Rightarrow> string \<Rightarrow> Value \<Rightarrow> IndexResult result" where
  "kx_search x operation key =
     bindE (kx_validate_search operation) (\<lambda>_.
     let bucket = kx_buckets x ! (key_hash (kx_binding x) key mod 256) in
     (case bucket of
        None \<Rightarrow> Inr \<lparr>result_rows = [], result_exact = False\<rparr>
      | Some b \<Rightarrow>
          (case bucket_posting (key_equal (kx_binding x)) key b of
             None \<Rightarrow> Inr \<lparr>result_rows = [], result_exact = False\<rparr>
           | Some p \<Rightarrow> Inr \<lparr>result_rows = concat (map block_locations p), result_exact = True\<rparr>)))"

definition kx_matches :: "KeyIndex \<Rightarrow> string \<Rightarrow> Value \<Rightarrow> Value \<Rightarrow> bool result" where
  "kx_matches x operation source key =
     bindE (kx_validate_search operation) (\<lambda>_. binding_matches (kx_binding x) source key)"

end
