(* ===== verification/Key_Postings.thy ===== *)
theory Key_Postings
  imports Key_Index Hash_Buckets
begin

text \<open>
  Slot masks, postings and buckets of the postings index: what setting, clearing
  and enumerating bits does, and buckets under a lawful key equality.
\<close>

unbundle bit_operations_syntax

section \<open>Bits of a mask\<close>

lemma takeWhile_stops: "\<exists>x \<in> set xs. P x \<Longrightarrow> length (takeWhile (\<lambda>x. \<not> P x) xs) < length xs"
  by (induction xs) auto

lemma countr_zero_lowest:
  assumes "m \<noteq> 0"
  shows "countr_zero m < 64" "bit m (countr_zero m)" "i < countr_zero m \<Longrightarrow> \<not> bit m i"
proof -
  have "\<exists>i < 64. bit m i" using assms bit_word_eqI [of m 0] by auto
  then have c: "length (takeWhile (\<lambda>i. \<not> bit m i) [0..<64]) < length [0..<64]"
    by (intro takeWhile_stops) auto
  then show c64: "countr_zero m < 64" by (simp add: countr_zero_def)
  show "bit m (countr_zero m)"
    using nth_length_takeWhile [OF c] c64 by (simp add: countr_zero_def)
  assume "i < countr_zero m"
  then have i: "i < length (takeWhile (\<lambda>i. \<not> bit m i) [0..<64])" by (simp add: countr_zero_def)
  then have "takeWhile (\<lambda>i. \<not> bit m i) [0..<64] ! i = i"
    using c by (simp add: takeWhile_nth)
  then show "\<not> bit m i" using set_takeWhileD [OF nth_mem [OF i]] by simp
qed

lemma clear_lowest:
  fixes m :: u64
  assumes "m \<noteq> 0"
  shows "bit (m AND (m - 1)) i \<longleftrightarrow> bit m i \<and> i \<noteq> countr_zero m"
proof -
  let ?k = "countr_zero m"
  note L = countr_zero_lowest [OF assms]
  define r where "r = m AND NOT (2 ^ ?k)"
  have rb: "bit r i \<longleftrightarrow> bit m i \<and> i \<noteq> ?k" for i
    by (auto simp: r_def bit_simps dest: bit_imp_le_length)
  have "r AND 2 ^ ?k = 0" by (intro bit_word_eqI) (simp add: rb bit_simps)
  then have "r + 2 ^ ?k = r OR 2 ^ ?k" by (rule disjunctive_add_eq_or)
  also have "\<dots> = m" using L by (intro bit_word_eqI) (auto simp: rb bit_simps)
  finally have m: "m = r + 2 ^ ?k" by simp
  have "r AND mask ?k = 0" using L(3) by (intro bit_word_eqI) (auto simp: rb bit_simps)
  then have "r + mask ?k = r OR mask ?k" by (rule disjunctive_add_eq_or)
  moreover have "m - 1 = r + mask ?k" using m by (simp add: mask_eq_exp_minus_1)
  ultimately have "m - 1 = r OR mask ?k" by simp
  then have "bit (m AND (m - 1)) i \<longleftrightarrow> bit m i \<and> (bit r i \<or> i < ?k)"
    by (auto simp: bit_simps dest: bit_imp_le_length)
  then show ?thesis using L(3) rb by auto
qed

lemma mask_bits_filter:
  assumes "length (filter (bit m) [0..<64]) \<le> n"
  shows "mask_bits n m = filter (bit m) [0..<64]"
  using assms
proof (induction n arbitrary: m)
  case 0
  then show ?case by simp
next
  case (Suc n)
  show ?case
  proof (cases "m = 0")
    case False
    let ?k = "countr_zero m" and ?r = "m AND (m - 1)"
    note L = countr_zero_lowest [OF False]
    have split: "[0..<64] = [0..<?k] @ ?k # [Suc ?k..<64]"
      using L(1) by (metis append_Cons append_Nil le_add_same_cancel1 less_imp_le_nat upt_add_eq_append upt_conv_Cons
          le_add_diff_inverse zero_le)
    have z: "filter (bit m) [0..<?k] = []" "filter (bit ?r) [0..<?k] = []"
      using L(3) clear_lowest [OF False] by (auto simp: filter_empty_conv)
    have s: "filter (bit ?r) [Suc ?k..<64] = filter (bit m) [Suc ?k..<64]"
      using clear_lowest [OF False] by (intro filter_cong) auto
    have k: "\<not> bit ?r ?k" using clear_lowest [OF False] by simp
    have f: "filter (bit m) [0..<64] = ?k # filter (bit ?r) [0..<64]"
      unfolding split using z s k L(2) by simp
    then show ?thesis using Suc.IH [of ?r] Suc.prems False by simp
  qed simp
qed

lemma mask_bits_64: "mask_bits 64 m = filter (bit m) [0..<64]"
  by (rule mask_bits_filter) (metis length_filter_le length_upt diff_zero)

section \<open>Slots\<close>

lemma slot_parts:
  "unat (loc_slot l) = unat (loc_slot (slot_block l)) + 64 * slot_word l + unat (loc_slot l mod 64)"
  "slot_word l < 2" "unat (loc_slot l mod 64) < 64"
  "loc_chunk (slot_block l) = loc_chunk l" "unat (loc_slot (slot_block l)) = unat (loc_slot l) div 128 * 128"
proof -
  let ?s = "loc_slot l"
  have w: "slot_word l = unat ?s mod 128 div 64" by (simp add: slot_word_def unat_div unat_mod)
  have "unat (?s div 128 * 128) = unat (?s div 128) * 128"
  proof -
    have "unat ?s < 2 ^ 32" using unsigned_less [of ?s] by simp
    then have "unat (?s div 128) * unat (128 :: u32) < 2 ^ LENGTH(32)" by (simp add: unat_div)
    then show ?thesis using unat_mult_lem [of "?s div 128" "128 :: u32"] by simp
  qed
  then show b: "unat (loc_slot (slot_block l)) = unat ?s div 128 * 128"
    by (simp add: slot_block_def unat_div)
  show "slot_word l < 2" unfolding w by (simp add: less_mult_imp_div_less)
  show "unat (?s mod 64) < 64" by (simp add: unat_mod)
  show "loc_chunk (slot_block l) = loc_chunk l" by (simp add: slot_block_def)
  have "unat ?s = unat ?s div 128 * 128 + unat ?s mod 128" by simp
  also have "unat ?s mod 128 = 64 * (unat ?s mod 128 div 64) + unat ?s mod 64"
    using mod_mod_cancel [of 64 128 "unat ?s"] mult_div_mod_eq [of 64 "unat ?s mod 128"] by simp
  finally show "unat ?s = unat (loc_slot (slot_block l)) + 64 * slot_word l + unat (?s mod 64)"
    by (simp add: b w unat_mod)
qed

lemma slot_eq_iff:
  "p = q \<longleftrightarrow> slot_block p = slot_block q \<and> slot_word p = slot_word q \<and> unat (loc_slot p mod 64) = unat (loc_slot q mod 64)"
proof
  assume a: "slot_block p = slot_block q \<and> slot_word p = slot_word q \<and> unat (loc_slot p mod 64) = unat (loc_slot q mod 64)"
  then have "unat (loc_slot p) = unat (loc_slot q)" using slot_parts(1) [of p] slot_parts(1) [of q] by simp
  moreover have "loc_chunk p = loc_chunk q" using a slot_parts(4) by metis
  ultimately show "p = q" by (intro RowLocation.expand) (simp add: word_unat_eq_iff)
qed simp

text \<open>A location from its block, word and bit.\<close>

definition block_base :: "RowLocation \<Rightarrow> bool" where
  "block_base k \<longleftrightarrow> unat (loc_slot k) mod 128 = 0"

lemma block_base_slot [simp]: "block_base (slot_block l)"
  by (simp add: block_base_def slot_parts(5))

lemma word_digits:
  fixes a b c d :: nat
  assumes "64 * a + b = 64 * c + d" "b < 64" "d < 64"
  shows "a = c" "b = d"
proof -
  have "(64 * a + b) div 64 = a" "(64 * c + d) div 64 = c" using assms(2,3) by simp_all
  then show "a = c" using assms(1) by metis
  then show "b = d" using assms(1) by simp
qed

lemma slot_compose:
  assumes "block_base k" "w < 2" "i < 64"
  defines "l \<equiv> RowLocation (loc_chunk k) (loc_slot k + of_nat (w * 64) + of_nat i)"
  shows "slot_block l = k" "slot_word l = w" "unat (loc_slot l mod 64) = i"
    "unat (loc_slot l) = unat (loc_slot k) + 64 * w + i"
proof -
  have k: "unat (loc_slot k) + 127 < 2 ^ 32"
  proof -
    obtain d where d: "unat (loc_slot k) = 128 * d" using assms(1) by (auto simp: block_base_def)
    moreover have "unat (loc_slot k) < 2 ^ 32" using unsigned_less [of "loc_slot k"] by simp
    ultimately have "d < 2 ^ 25" by simp
    then show ?thesis using d by simp
  qed
  have wi: "64 * w + i < 128" using assms(2,3) by (cases w) auto
  have sum: "loc_slot l = loc_slot k + of_nat (64 * w + i)" by (simp add: l_def ac_simps)
  show u: "unat (loc_slot l) = unat (loc_slot k) + 64 * w + i"
  proof -
    define n where "n = 64 * w + i"
    have "unat (of_nat n :: u32) = n" using wi by (simp add: unat_of_nat n_def [symmetric])
    then have "unat (loc_slot k + of_nat n) = unat (loc_slot k) + n"
      using k wi unat_add_lem [of "loc_slot k" "of_nat n"] by (simp add: n_def [symmetric])
    then show ?thesis unfolding sum n_def [symmetric] by (simp add: n_def)
  qed
  have m: "unat (loc_slot l) div 128 * 128 = unat (loc_slot k)"
    using u wi assms(1) by (auto simp: block_base_def)
  then have "unat (loc_slot (slot_block l)) = unat (loc_slot k)" using slot_parts(5) [of l] by simp
  then show B: "slot_block l = k" using slot_parts(4) [of l] by (intro RowLocation.expand) (simp add: l_def word_unat_eq_iff)
  have "64 * slot_word l + unat (loc_slot l mod 64) = 64 * w + i" using slot_parts(1) [of l] u B by simp
  then show "slot_word l = w" "unat (loc_slot l mod 64) = i"
    using word_digits [OF _ slot_parts(3) [of l] assms(3)] by simp_all
qed

section \<open>Postings\<close>

definition posting_ok :: "Posting \<Rightarrow> bool" where
  "posting_ok p \<longleftrightarrow> sorted_wrt (<) (map fst p) \<and> (\<forall>(k, m) \<in> set p. block_base k \<and> m \<noteq> (0, 0))"

definition mask_has :: "Mask \<Rightarrow> RowLocation \<Rightarrow> bool" where
  "mask_has m l \<longleftrightarrow> bit (mask_word (slot_word l) m) (unat (loc_slot l mod 64))"

definition posting_has :: "Posting \<Rightarrow> RowLocation \<Rightarrow> bool" where
  "posting_has p l \<longleftrightarrow> (\<exists>m. (slot_block l, m) \<in> set p \<and> mask_has m l)"

lemma mask_has_zero [simp]: "\<not> mask_has (0, 0) l"
  by (simp add: mask_has_def mask_word_def)

lemma slot_bit_iff: "bit (slot_bit l) i \<longleftrightarrow> i = unat (loc_slot l mod 64)"
  using slot_parts(3) [of l] by (auto simp: slot_bit_def bit_simps)

lemma mask_update_set:
  assumes "slot_block q = slot_block l"
  shows "mask_has (mask_update (slot_word l) (\<lambda>m. m OR slot_bit l) m) q \<longleftrightarrow> q = l \<or> mask_has m q"
  using assms slot_parts(2) [of l] slot_parts(2) [of q] slot_eq_iff [of q l]
  by (auto simp: mask_has_def mask_update_def mask_word_def bit_simps slot_bit_iff less_2_cases_iff)

lemma mask_update_clear:
  assumes "slot_block q = slot_block l"
  shows "mask_has (mask_update (slot_word l) (\<lambda>m. m AND NOT (slot_bit l)) m) q \<longleftrightarrow> q \<noteq> l \<and> mask_has m q"
  using assms slot_parts(2) [of l] slot_parts(2) [of q] slot_parts(3) [of q] slot_eq_iff [of q l]
  by (auto simp: mask_has_def mask_update_def mask_word_def bit_simps slot_bit_iff less_2_cases_iff)

lemma mask_set_nonzero: "mask_update (slot_word l) (\<lambda>m. m OR slot_bit l) m \<noteq> (0, 0)"
  using mask_update_set [of l l m] mask_has_zero [of l] by metis

lemma posting_set_keys: "fst ` set (posting_set l w b p) = insert l (fst ` set p)"
  by (induction l w b p rule: posting_set.induct) auto

lemma posting_set_ok: "posting_ok p \<Longrightarrow> posting_ok (posting_set (slot_block l) (slot_word l) (slot_bit l) p)"
proof (induction p)
  case (Cons e p)
  obtain k m where e: "e = (k, m)" by (cases e)
  have P: "posting_ok p" "\<forall>j \<in> fst ` set p. k < j" "block_base k" "m \<noteq> (0, 0)"
    using Cons.prems by (auto simp: posting_ok_def e)
  then have IH: "posting_ok (posting_set (slot_block l) (slot_word l) (slot_bit l) p)" using Cons.IH by blast
  have keys: "\<forall>j \<in> fst ` set (posting_set (slot_block l) (slot_word l) (slot_bit l) p). k < j" if "k < slot_block l"
    using P(2) that by (simp add: posting_set_keys)
  show ?case
    using IH P keys mask_set_nonzero by (auto simp: e posting_ok_def intro: less_trans)
qed (simp add: posting_ok_def mask_set_nonzero)

lemma posting_has_Nil [simp]: "\<not> posting_has [] q"
  by (simp add: posting_has_def)

lemma posting_has_Cons:
  assumes "\<forall>j \<in> fst ` set p. k < j"
  shows "posting_has ((k, m) # p) q \<longleftrightarrow> (if slot_block q = k then mask_has m q else posting_has p q)"
proof -
  have "(k, n) \<notin> set p" for n
  proof
    assume "(k, n) \<in> set p"
    then have "k \<in> fst ` set p" by (rule image_eqI [rotated]) simp
    then show False using assms by auto
  qed
  then show ?thesis unfolding posting_has_def by (cases "slot_block q = k") (simp_all del: split_paired_Ex)
qed

lemma posting_set_has:
  assumes "posting_ok p"
  shows "posting_has (posting_set (slot_block l) (slot_word l) (slot_bit l) p) q \<longleftrightarrow> q = l \<or> posting_has p q"
  using assms
proof (induction p)
  case Nil
  then show ?case using mask_update_set [of q l "(0, 0)"] by (auto simp: posting_has_Cons)
next
  case (Cons e p)
  obtain k m where e: "e = (k, m)" by (cases e)
  have P: "posting_ok p" "\<forall>j \<in> fst ` set p. k < j" using Cons.prems by (auto simp: posting_ok_def e)
  consider "k < slot_block l" | "k = slot_block l" | "slot_block l < k" by force
  then show ?case
  proof cases
    case 1
    then have "\<forall>j \<in> fst ` set (posting_set (slot_block l) (slot_word l) (slot_bit l) p). k < j"
      using P(2) by (simp add: posting_set_keys)
    then show ?thesis using 1 Cons.IH [OF P(1)] P(2) by (auto simp: e posting_has_Cons)
  next
    case 2
    then show ?thesis using P(2) mask_update_set [of q l m] by (auto simp: e posting_has_Cons)
  next
    case 3
    have s: "\<forall>j \<in> fst ` set ((k, m) # p). slot_block l < j" using 3 P(2) less_trans by auto
    have "\<not> posting_has ((k, m) # p) q" if "slot_block q = slot_block l"
      using s that by (force simp: posting_has_def)
    then show ?thesis
      using 3 mask_update_set [of q l "(0, 0)"] by (auto simp: e posting_has_Cons [OF s])
  qed
qed

lemma posting_clear_spec:
  assumes "posting_ok p"
  shows "case posting_clear (slot_block l) (slot_word l) (slot_bit l) p of
      None \<Rightarrow> \<not> posting_has p l
    | Some r \<Rightarrow> posting_ok r \<and> fst ` set r \<subseteq> fst ` set p \<and> (\<forall>q. posting_has r q \<longleftrightarrow> q \<noteq> l \<and> posting_has p q)"
  using assms
proof (induction p)
  case (Cons e p)
  obtain k m where e: "e = (k, m)" by (cases e)
  have P: "posting_ok p" "\<forall>j \<in> fst ` set p. k < j" "block_base k" "m \<noteq> (0, 0)"
    using Cons.prems by (auto simp: posting_ok_def e)
  have H: "posting_has ((k, n) # r) q \<longleftrightarrow> (if slot_block q = k then mask_has n q else posting_has r q)"
    if "fst ` set r \<subseteq> fst ` set p" for n r q
    using posting_has_Cons [of r k n q] P(2) that by blast
  have ok: "posting_ok ((k, n) # r)" if "posting_ok r" "fst ` set r \<subseteq> fst ` set p" "n \<noteq> (0, 0)" for n r
    using that P by (force simp: posting_ok_def)
  show ?case
  proof (cases "k = slot_block l")
    case True
    let ?n = "mask_update (slot_word l) (\<lambda>m. m AND NOT (slot_bit l)) m"
    have C: "mask_has ?n q \<longleftrightarrow> q \<noteq> l \<and> mask_has m q" if "slot_block q = k" for q
      using mask_update_clear that True by simp
    have N: "posting_has p q \<Longrightarrow> slot_block q \<noteq> k" for q using P(2) by (force simp: posting_has_def)
    have zero: "fst ?n OR snd ?n = 0 \<longleftrightarrow> ?n = (0, 0)" by (simp add: prod_eq_iff or_eq_0_iff)
    show ?thesis
    proof (cases "?n = (0, 0)")
      case z: True
      have "posting_has p q \<longleftrightarrow> q \<noteq> l \<and> posting_has ((k, m) # p) q" for q
        using C [of q] N [of q] z True H [of p m q] mask_has_zero [of q] by auto
      then show ?thesis using z True P(1) zero by (auto simp: e Let_def)
    next
      case nz: False
      have "posting_has ((k, ?n) # p) q \<longleftrightarrow> q \<noteq> l \<and> posting_has ((k, m) # p) q" for q
        using C [of q] True H [of p m q] H [of p ?n q] by auto
      then show ?thesis using nz True ok [OF P(1)] zero by (auto simp: e Let_def)
    qed
  next
    case False
    show ?thesis
    proof (cases "posting_clear (slot_block l) (slot_word l) (slot_bit l) p")
      case None
      then show ?thesis using Cons.IH [OF P(1)] False H [of p m l] by (simp add: e)
    next
      case (Some r)
      then have R: "posting_ok r" "fst ` set r \<subseteq> fst ` set p" "\<forall>q. posting_has r q \<longleftrightarrow> q \<noteq> l \<and> posting_has p q"
        using Cons.IH [OF P(1)] by simp_all
      have "posting_has ((k, m) # r) q \<longleftrightarrow> q \<noteq> l \<and> posting_has ((k, m) # p) q" for q
        using R(3) H [OF R(2), of m q] H [of p m q] False by auto
      then show ?thesis using Some R False ok [OF R(1,2) P(4)] by (auto simp: e)
    qed
  qed
qed (simp add: posting_has_def)

lemma posting_nonempty: "posting_ok p \<Longrightarrow> p \<noteq> [] \<Longrightarrow> \<exists>q. posting_has p q"
proof -
  assume p: "posting_ok p" "p \<noteq> []"
  then obtain k m where km: "(k, m) \<in> set p" by (metis list.set_intros(1) neq_Nil_conv surj_pair)
  have b: "block_base k" "m \<noteq> (0, 0)" using p(1) km by (auto simp: posting_ok_def)
  obtain w :: nat where w: "w < 2" "mask_word w m \<noteq> 0"
  proof (cases "fst m = 0")
    case True
    then have "mask_word 1 m \<noteq> 0" using b(2) by (cases m) (simp add: mask_word_def)
    then show ?thesis using that [of 1] by simp
  next
    case False
    then show ?thesis using that [of 0] by (simp add: mask_word_def)
  qed
  note L = countr_zero_lowest(1,2) [OF w(2)]
  let ?l = "RowLocation (loc_chunk k) (loc_slot k + of_nat (w * 64) + of_nat (countr_zero (mask_word w m)))"
  note S = slot_compose [OF b(1) w(1) L(1)]
  have "mask_has m ?l" unfolding mask_has_def S(2,3) by (rule L(2))
  then have "posting_has p ?l" unfolding posting_has_def S(1) using km by blast
  then show ?thesis by (rule exI)
qed

section \<open>Enumerating a posting\<close>

lemma location_less: "p < q \<longleftrightarrow> loc_chunk p < loc_chunk q \<or> loc_chunk p = loc_chunk q \<and> unat (loc_slot p) < unat (loc_slot q)"
  by (simp add: less_RowLocation_def word_less_nat_alt)

lemma ex_less_2: "(\<exists>w < 2. P w) \<longleftrightarrow> P 0 \<or> P (1 :: nat)"
  by (auto simp: less_2_cases_iff)

lemma block_locations_set:
  assumes "block_base k"
  shows "set (block_locations (k, m)) = {l. slot_block l = k \<and> mask_has m l}"
proof (rule set_eqI)
  fix l
  have "l \<in> set (block_locations (k, m)) \<longleftrightarrow> (\<exists>w < 2. \<exists>i < 64. bit (mask_word w m) i
      \<and> l = RowLocation (loc_chunk k) (loc_slot k + of_nat (w * 64) + of_nat i))"
    unfolding ex_less_2 block_locations_def mask_bits_64 by auto
  also have "\<dots> \<longleftrightarrow> slot_block l = k \<and> mask_has m l"
  proof
    assume "\<exists>w < 2. \<exists>i < 64. bit (mask_word w m) i \<and> l = RowLocation (loc_chunk k) (loc_slot k + of_nat (w * 64) + of_nat i)"
    then show "slot_block l = k \<and> mask_has m l" using slot_compose [OF assms] by (auto simp: mask_has_def)
  next
    assume l: "slot_block l = k \<and> mask_has m l"
    have "l = RowLocation (loc_chunk k) (loc_slot k + of_nat (slot_word l * 64) + of_nat (unat (loc_slot l mod 64)))"
      using slot_eq_iff [of l] slot_compose(1-3) [OF assms slot_parts(2,3)] l by metis
    then show "\<exists>w < 2. \<exists>i < 64. bit (mask_word w m) i \<and> l = RowLocation (loc_chunk k) (loc_slot k + of_nat (w * 64) + of_nat i)"
      using l slot_parts(2,3) [of l] unfolding mask_has_def by blast
  qed
  finally show "l \<in> set (block_locations (k, m)) \<longleftrightarrow> l \<in> {l. slot_block l = k \<and> mask_has m l}" by simp
qed

lemma block_locations_sorted:
  assumes "block_base k"
  shows "sorted_wrt (<) (block_locations (k, m))"
proof -
  let ?f = "\<lambda>w i. RowLocation (loc_chunk k) (loc_slot k + of_nat (w * 64) + of_nat i)"
  have u: "unat (loc_slot (?f w i)) = unat (loc_slot k) + 64 * w + i" if "w < 2" "i < 64" for w i
    using slot_compose(4) [OF assms that] .
  have lt: "?f w i < ?f v j" if "w < 2" "v < 2" "i < 64" "j < 64" "w < v \<or> w = v \<and> i < j" for w v i j
  proof -
    have "64 * w + i < 64 * v + j" using that by auto
    then show ?thesis using u [OF that(1,3)] u [OF that(2,4)] by (simp add: location_less)
  qed
  have one: "sorted_wrt (<) (map (?f w) (filter (bit n) [0..<64]))" if "w < 2" for w n
    using sorted_wrt_filter [OF sorted_wrt_upt, of "bit n" 0 64] lt [OF that that]
    by (simp only: sorted_wrt_map) (rule sorted_wrt_mono_rel, auto)
  show ?thesis
    using one [of 0] one [of 1] lt [of 0 1]
    by (auto simp: block_locations_def mask_bits_64 sorted_wrt_append simp del: upt_Suc)
qed

lemma block_below:
  assumes "slot_block p < slot_block q" shows "p < q"
proof (cases "loc_chunk p = loc_chunk q")
  case True
  have "unat (loc_slot p) div 128 * 128 < unat (loc_slot q) div 128 * 128"
    using assms True slot_parts(4,5) [of p] slot_parts(4,5) [of q] by (simp add: location_less)
  then have "unat (loc_slot p) < unat (loc_slot q)" using div_le_mono [of "unat (loc_slot q)" "unat (loc_slot p)" 128] by linarith
  then show ?thesis using True by (simp add: location_less)
next
  case False
  then show ?thesis using assms slot_parts(4) [of p] slot_parts(4) [of q] by (auto simp: location_less)
qed

lemma posting_enumerates:
  assumes "posting_ok p"
  shows "set (concat (map block_locations p)) = {l. posting_has p l} \<and> sorted_wrt (<) (concat (map block_locations p))"
  using assms
proof (induction p)
  case (Cons e p)
  obtain k m where e: "e = (k, m)" by (cases e)
  have P: "posting_ok p" "\<forall>j \<in> fst ` set p. k < j" "block_base k" using Cons.prems by (auto simp: posting_ok_def e)
  note IH = Cons.IH [OF P(1)]
  have b: "k < slot_block l" if "posting_has p l" for l
  proof -
    have "slot_block l \<in> fst ` set p" using that by (auto simp: posting_has_def intro: rev_image_eqI)
    then show ?thesis using P(2) by blast
  qed
  have "x < y" if "x \<in> set (block_locations (k, m))" "posting_has p y" for x y
  proof (rule block_below)
    show "slot_block x < slot_block y" using that b [of y] block_locations_set [OF P(3), of m] by auto
  qed
  moreover have "{l. posting_has (e # p) l} = {l. slot_block l = k \<and> mask_has m l} \<union> {l. posting_has p l}"
    using b by (auto simp: e posting_has_Cons [OF P(2)] split: if_splits)
  ultimately show ?case
    using IH block_locations_set [OF P(3), of m] block_locations_sorted [OF P(3), of m]
    by (auto simp: e sorted_wrt_append)
qed simp

section \<open>Buckets under a lawful key equality\<close>

text \<open>What a bucket relies on: key equality is an equivalence on valid keys and equal keys share a partition.\<close>

locale key_equality =
  fixes eq :: "Value \<Rightarrow> Value \<Rightarrow> bool" and valid :: "Value \<Rightarrow> bool" and part :: "Value \<Rightarrow> nat"
  assumes eq_refl: "valid j \<Longrightarrow> eq j j"
    and eq_sym: "valid j \<Longrightarrow> valid k \<Longrightarrow> eq j k \<Longrightarrow> eq k j"
    and eq_trans: "valid i \<Longrightarrow> valid j \<Longrightarrow> valid k \<Longrightarrow> eq i j \<Longrightarrow> eq j k \<Longrightarrow> eq i k"
    and part_eq: "valid j \<Longrightarrow> valid k \<Longrightarrow> eq j k \<Longrightarrow> part j = part k"
begin

definition bucket_inv :: "nat \<Rightarrow> Bucket \<Rightarrow> bool" where
  "bucket_inv n b \<longleftrightarrow> sorted_wrt (\<lambda>x y. \<not> eq (fst x) (fst y)) b
     \<and> (\<forall>(k, p) \<in> set b. valid k \<and> part k = n \<and> posting_ok p \<and> p \<noteq> [])"

definition bucket_has :: "Bucket \<Rightarrow> Value \<Rightarrow> RowLocation \<Rightarrow> bool" where
  "bucket_has b k l \<longleftrightarrow> (case bucket_posting eq k b of None \<Rightarrow> False | Some p \<Rightarrow> posting_has p l)"

lemma bucket_has_Nil [simp]: "\<not> bucket_has [] k l"
  by (simp add: bucket_has_def)

lemma bucket_has_Cons: "bucket_has ((j, p) # b) k l \<longleftrightarrow> (if eq j k then posting_has p l else bucket_has b k l)"
  by (simp add: bucket_has_def)

lemma bucket_inv_Cons:
  "bucket_inv n ((j, p) # b) \<longleftrightarrow> bucket_inv n b \<and> (\<forall>x \<in> set b. \<not> eq j (fst x)) \<and> valid j \<and> part j = n \<and> posting_ok p \<and> p \<noteq> []"
  by (auto simp: bucket_inv_def)

lemma eq_cong: "valid i \<Longrightarrow> valid j \<Longrightarrow> valid k \<Longrightarrow> eq i j \<Longrightarrow> eq i k \<longleftrightarrow> eq j k"
  using eq_sym eq_trans by blast

lemma absent_key:
  assumes "bucket_inv n b" "\<forall>x \<in> set b. \<not> eq j (fst x)" "valid j" "valid k" "eq j k"
  shows "\<not> bucket_has b k l"
  using assms
proof (induction b)
  case (Cons e b)
  obtain i p where e: "e = (i, p)" by (cases e)
  have "valid i" using Cons.prems(1) by (simp add: e bucket_inv_Cons)
  then have "\<not> eq i k" using Cons.prems eq_sym eq_trans by (metis e fst_conv list.set_intros(1))
  then show ?case using Cons by (simp add: e bucket_inv_Cons bucket_has_Cons)
qed simp

lemma bucket_put_keys:
  "x \<in> set (bucket_put eq k f b) \<Longrightarrow> fst x = k \<or> fst x \<in> fst ` set b"
  by (induction eq k f b rule: bucket_put.induct) (auto split: if_splits)

lemma bucket_put_spec:
  assumes "bucket_inv n b" "valid k" "part k = n"
  shows "bucket_inv n (bucket_put eq k (posting_set (slot_block l) (slot_word l) (slot_bit l)) b)
    \<and> (\<forall>j q. valid j \<longrightarrow> bucket_has (bucket_put eq k (posting_set (slot_block l) (slot_word l) (slot_bit l)) b) j q
        \<longleftrightarrow> (eq k j \<and> q = l) \<or> bucket_has b j q)"
  using assms(1)
proof (induction b)
  case Nil
  have "posting_ok []" by (simp add: posting_ok_def)
  then show ?case
    using assms posting_set_ok [of "[]" l] posting_set_has [of "[]" l]
    by (auto simp: bucket_inv_def bucket_has_Cons)
next
  case (Cons e b)
  let ?f = "posting_set (slot_block l) (slot_word l) (slot_bit l)"
  obtain i p where e: "e = (i, p)" by (cases e)
  have I: "bucket_inv n b" "\<forall>x \<in> set b. \<not> eq i (fst x)" "valid i" "part i = n" "posting_ok p" "p \<noteq> []"
    using Cons.prems by (simp_all add: e bucket_inv_Cons)
  show ?case
  proof (cases "eq i k")
    case True
    have ne: "?f p \<noteq> []" by (metis I(5) posting_has_Nil posting_set_has)
    have "bucket_has ((i, ?f p) # b) j q \<longleftrightarrow> (eq k j \<and> q = l) \<or> bucket_has ((i, p) # b) j q" if "valid j" for j q
      using posting_set_has [OF I(5), of l q] eq_cong [OF I(3) assms(2) that True] by (auto simp: bucket_has_Cons)
    then show ?thesis using True I ne posting_set_ok [OF I(5)] by (auto simp: e bucket_inv_Cons)
  next
    case False
    note IH = Cons.IH [OF I(1)]
    have "\<not> eq i (fst x)" if "x \<in> set (bucket_put eq k ?f b)" for x
      using bucket_put_keys [OF that] I(2) False by auto
    then have "bucket_inv n ((i, p) # bucket_put eq k ?f b)" using IH I by (simp add: bucket_inv_Cons)
    moreover have "\<not> eq k j" if "valid j" "eq i j" for j
      using False that eq_sym eq_trans I(3) assms(2) by blast
    ultimately show ?thesis using False IH by (auto simp: e bucket_has_Cons)
  qed
qed

lemma bucket_remove_keys:
  "x \<in> set (bucket_remove eq k f b) \<Longrightarrow> fst x \<in> fst ` set b"
  by (induction eq k f b rule: bucket_remove.induct) (auto split: if_splits option.splits)

lemma bucket_remove_spec:
  assumes "bucket_inv n b" "valid k" "part k = n"
  shows "bucket_inv n (bucket_remove eq k (posting_clear (slot_block l) (slot_word l) (slot_bit l)) b)
    \<and> (\<forall>j q. valid j \<longrightarrow> bucket_has (bucket_remove eq k (posting_clear (slot_block l) (slot_word l) (slot_bit l)) b) j q
        \<longleftrightarrow> bucket_has b j q \<and> \<not> (eq k j \<and> q = l))"
  using assms(1)
proof (induction b)
  case (Cons e b)
  let ?f = "posting_clear (slot_block l) (slot_word l) (slot_bit l)"
  obtain i p where e: "e = (i, p)" by (cases e)
  have I: "bucket_inv n b" "\<forall>x \<in> set b. \<not> eq i (fst x)" "valid i" "part i = n" "posting_ok p" "p \<noteq> []"
    using Cons.prems by (simp_all add: e bucket_inv_Cons)
  note C = posting_clear_spec [OF I(5), of l]
  show ?case
  proof (cases "eq i k")
    case True
    have eq: "eq i j \<longleftrightarrow> eq k j" if "valid j" for j using eq_cong [OF I(3) assms(2) that True] .
    have ab: "\<not> bucket_has b j q" if "valid j" "eq i j" for j q
      using absent_key [OF I(1,2,3) that] .
    show ?thesis
      using True I C eq ab
      by (cases "?f p") (auto simp: e bucket_inv_Cons bucket_has_Cons)
  next
    case False
    note IH = Cons.IH [OF I(1)]
    have "\<not> eq i (fst x)" if "x \<in> set (bucket_remove eq k ?f b)" for x
      using bucket_remove_keys [OF that] I(2) by auto
    then have "bucket_inv n ((i, p) # bucket_remove eq k ?f b)" using IH I by (simp add: bucket_inv_Cons)
    moreover have "\<not> eq k j" if "valid j" "eq i j" for j
      using False that eq_sym eq_trans I(3) assms(2) by blast
    ultimately show ?thesis using False IH by (auto simp: e bucket_has_Cons)
  qed
qed (simp add: bucket_inv_def)

end

end
