(* ===== verification/Key_Index_Spec.thy ===== *)
theory Key_Index_Spec
  imports Key_Postings
begin

text \<open>
  The postings index holds exactly the rows it was given: insertion, erasure and
  equality search.
\<close>

section \<open>The index over a set of rows\<close>

text \<open>
  The documented contract of \<open>TypeAddon\<close> for the key type: equality is an
  equivalence on its values and equal values hash identically.
\<close>

definition key_ok :: "KeyBinding \<Rightarrow> Value \<Rightarrow> bool" where
  "key_ok b k \<longleftrightarrow> \<not> is_null k \<and> holds_layout (kb_addon b) (key_type (kb_extractor b)) k
     \<and> addon_validate_value (kb_addon b) (type_parameters (key_type (kb_extractor b))) k = Inr ()"

definition key_lawful :: "KeyBinding \<Rightarrow> bool" where
  "key_lawful b \<longleftrightarrow>
     (\<forall>i j k. key_ok b i \<and> key_ok b j \<and> key_ok b k \<longrightarrow>
        key_equal b i i \<and> (key_equal b i j \<longrightarrow> key_equal b j i \<and> key_hash b i = key_hash b j)
        \<and> (key_equal b i j \<and> key_equal b j k \<longrightarrow> key_equal b i k))"

definition kx_key :: "KeyBinding \<Rightarrow> Value \<Rightarrow> bool" where
  "kx_key b k \<longleftrightarrow> key_lawful b \<and> key_ok b k"

interpretation kx: key_equality "key_equal b" "kx_key b" "\<lambda>k. key_hash b k mod 256" for b
proof unfold_locales
  fix i j k
  assume i: "kx_key b i"
  show "key_equal b i i" using i unfolding kx_key_def key_lawful_def by blast
  assume j: "kx_key b j"
  show "key_equal b j i" if "key_equal b i j" using i j that unfolding kx_key_def key_lawful_def by blast
  show "key_hash b i mod 256 = key_hash b j mod 256" if "key_equal b i j"
    using i j that unfolding kx_key_def key_lawful_def by metis
  assume k: "kx_key b k"
  show "key_equal b i k" if "key_equal b i j" "key_equal b j k"
    using i j k that unfolding kx_key_def key_lawful_def by blast
qed

definition kx_ok :: "KeyBinding \<Rightarrow> Bucket option list \<Rightarrow> bool" where
  "kx_ok b bs \<longleftrightarrow> length bs = 256 \<and> (\<forall>n < 256. kx.bucket_inv b n (bucket_of bs n))"

definition kx_has :: "KeyBinding \<Rightarrow> Bucket option list \<Rightarrow> Value \<Rightarrow> RowLocation \<Rightarrow> bool" where
  "kx_has b bs k l \<longleftrightarrow> kx.bucket_has b (bucket_of bs (key_hash b k mod 256)) k l"

definition row_key :: "KeyBinding \<Rightarrow> Value \<Rightarrow> Value \<Rightarrow> bool" where
  "row_key b v k \<longleftrightarrow> (\<exists>ks. binding_keys b v = Inr ks \<and> (\<exists>j \<in> set ks. key_equal b j k))"

text \<open>An index that holds exactly the given rows.\<close>

definition kx_represents :: "KeyIndex \<Rightarrow> (Value \<times> RowLocation) set \<Rightarrow> bool" where
  "kx_represents x R \<longleftrightarrow> key_lawful (kx_binding x) \<and> kx_ok (kx_binding x) (kx_buckets x)
     \<and> (\<forall>k l. kx_key (kx_binding x) k \<longrightarrow>
          (kx_has (kx_binding x) (kx_buckets x) k l \<longleftrightarrow> (\<exists>v. (v, l) \<in> R \<and> row_key (kx_binding x) v k)))"

lemma binding_keys_ok: "binding_keys b v = Inr ks \<Longrightarrow> k \<in> set ks \<Longrightarrow> key_ok b k"
  by (auto simp: binding_keys_def Let_def result_simps key_ok_def)

lemma row_key_matches: "row_key b v k \<longleftrightarrow> binding_matches b v k = Inr True"
  by (auto simp: row_key_def binding_matches_def result_simps list_ex_iff)

lemma change_key_spec:
  assumes "kx_ok b bs" "kx_key b k"
  shows "kx_ok b (change_key b l ins k bs)
    \<and> (\<forall>j q. kx_key b j \<longrightarrow> kx_has b (change_key b l ins k bs) j q \<longleftrightarrow>
         (if ins then kx_has b bs j q \<or> (key_equal b k j \<and> q = l) else kx_has b bs j q \<and> \<not> (key_equal b k j \<and> q = l)))"
proof -
  let ?n = "key_hash b k mod 256"
  have B: "kx.bucket_inv b ?n (bucket_of bs ?n)" "length bs = 256" using assms(1) by (simp_all add: kx_ok_def)
  note P = kx.bucket_put_spec [OF B(1) assms(2) refl, of l]
  note R = kx.bucket_remove_spec [OF B(1) assms(2) refl, of l]
  have n: "?n < length bs" using B(2) by simp
  have "kx_ok b (change_key b l ins k bs)"
    using assms(1) P R n by (auto simp: kx_ok_def change_key_def Let_def bucket_of_update)
  moreover have "kx_has b (change_key b l ins k bs) j q \<longleftrightarrow>
         (if ins then kx_has b bs j q \<or> (key_equal b k j \<and> q = l) else kx_has b bs j q \<and> \<not> (key_equal b k j \<and> q = l))"
    if j: "kx_key b j" for j q
  proof (cases "key_hash b j mod 256 = ?n")
    case True
    then show ?thesis using P R j n by (auto simp: kx_has_def change_key_def Let_def bucket_of_update)
  next
    case False
    then have "\<not> key_equal b k j" using kx.part_eq [OF assms(2) j] by metis
    then show ?thesis using False n by (simp add: kx_has_def change_key_def Let_def bucket_of_update)
  qed
  ultimately show ?thesis by blast
qed

lemma change_keys_spec:
  assumes "kx_ok b bs" "\<forall>k \<in> set ks. kx_key b k"
  shows "kx_ok b (fold (change_key b l ins) ks bs)
    \<and> (\<forall>j q. kx_key b j \<longrightarrow> kx_has b (fold (change_key b l ins) ks bs) j q \<longleftrightarrow>
         (if ins then kx_has b bs j q \<or> ((\<exists>k \<in> set ks. key_equal b k j) \<and> q = l)
          else kx_has b bs j q \<and> \<not> ((\<exists>k \<in> set ks. key_equal b k j) \<and> q = l)))"
  using assms
proof (induction ks arbitrary: bs)
  case (Cons k ks)
  have C: "kx_ok b (change_key b l ins k bs)"
    "\<forall>j q. kx_key b j \<longrightarrow> kx_has b (change_key b l ins k bs) j q \<longleftrightarrow>
         (if ins then kx_has b bs j q \<or> (key_equal b k j \<and> q = l) else kx_has b bs j q \<and> \<not> (key_equal b k j \<and> q = l))"
    using change_key_spec [OF Cons.prems(1), of k] Cons.prems(2) by auto
  show ?case using Cons.IH [OF C(1)] Cons.prems(2) C(2) by auto
qed simp

lemma make_key_index_represents:
  "key_lawful \<lparr>kb_extractor = x, kb_addon = a\<rparr> \<Longrightarrow> kx_represents (make_key_index x a) {}"
  by (auto simp: kx_represents_def make_key_index_def kx_ok_def kx_has_def bucket_of_def kx.bucket_inv_def kx.bucket_has_def)

lemma kx_change_represents:
  assumes "kx_represents x R" "binding_keys (kx_binding x) v = Inr ks"
  shows "\<exists>y. kx_insert x v l = Inr y \<and> kx_binding y = kx_binding x \<and> kx_represents y (insert (v, l) R)"
    and "\<forall>w. (w, l) \<in> R \<longrightarrow> w = v \<Longrightarrow>
      \<exists>y. kx_erase x v l = Inr y \<and> kx_binding y = kx_binding x \<and> kx_represents y (R - {(v, l)})"
proof -
  let ?b = "kx_binding x"
  have X: "key_lawful ?b" "kx_ok ?b (kx_buckets x)" "\<And>k l. kx_key ?b k \<Longrightarrow>
      kx_has ?b (kx_buckets x) k l \<longleftrightarrow> (\<exists>v. (v, l) \<in> R \<and> row_key ?b v k)"
    using assms(1) by (simp_all add: kx_represents_def)
  have ks: "\<forall>k \<in> set ks. kx_key ?b k" using binding_keys_ok [OF assms(2)] X(1) by (simp add: kx_key_def)
  have rk: "row_key ?b v k \<longleftrightarrow> (\<exists>j \<in> set ks. key_equal ?b j k)" for k using assms(2) by (simp add: row_key_def)
  note C = change_keys_spec [OF X(2) ks, of l]
  show "\<exists>y. kx_insert x v l = Inr y \<and> kx_binding y = kx_binding x \<and> kx_represents y (insert (v, l) R)"
  proof -
    have "kx_has ?b (fold (change_key ?b l True) ks (kx_buckets x)) k q \<longleftrightarrow> (\<exists>w. (w, q) \<in> insert (v, l) R \<and> row_key ?b w k)"
      if k: "kx_key ?b k" for k q
      using C [of True] k X(3) [OF k] rk [of k, symmetric] by auto
    then show ?thesis
      using C [of True] X(1) assms(2) by (auto simp: kx_insert_def kx_change_def kx_represents_def)
  qed
  assume u: "\<forall>w. (w, l) \<in> R \<longrightarrow> w = v"
  have "kx_has ?b (fold (change_key ?b l False) ks (kx_buckets x)) k q \<longleftrightarrow> (\<exists>w. (w, q) \<in> R - {(v, l)} \<and> row_key ?b w k)"
    if k: "kx_key ?b k" for k q
  proof -
    have "kx_has ?b (fold (change_key ?b l False) ks (kx_buckets x)) k q \<longleftrightarrow>
        (\<exists>w. (w, q) \<in> R \<and> row_key ?b w k) \<and> \<not> (row_key ?b v k \<and> q = l)"
      using C [of False] k X(3) [OF k] rk by simp
    also have "\<dots> \<longleftrightarrow> (\<exists>w. (w, q) \<in> R - {(v, l)} \<and> row_key ?b w k)" using u by auto
    finally show ?thesis .
  qed
  then show "\<exists>y. kx_erase x v l = Inr y \<and> kx_binding y = kx_binding x \<and> kx_represents y (R - {(v, l)})"
    using C [of False] X(1) assms(2) by (auto simp: kx_erase_def kx_change_def kx_represents_def)
qed

lemma kx_search_represents:
  assumes "kx_represents x R" "kx_key (kx_binding x) k"
  shows "\<exists>r. kx_search x ''equal'' k = Inr r \<and> sorted_wrt (<) (result_rows r)
    \<and> set (result_rows r) = {l. \<exists>v. (v, l) \<in> R \<and> row_key (kx_binding x) v k}"
proof -
  let ?b = "kx_binding x" and ?n = "key_hash (kx_binding x) k mod 256"
  have B: "kx.bucket_inv ?b ?n (bucket_of (kx_buckets x) ?n)"
    using assms(1) by (simp add: kx_represents_def kx_ok_def)
  have H: "kx_has ?b (kx_buckets x) k l \<longleftrightarrow> (\<exists>v. (v, l) \<in> R \<and> row_key ?b v k)" for l
    using assms by (simp add: kx_represents_def)
  have post: "posting_ok p" if "bucket_posting (key_equal ?b) k c = Some p" "kx.bucket_inv ?b ?n c" for p c
    using that by (induction c) (auto simp: kx.bucket_inv_def split: if_splits)
  show ?thesis
  proof (cases "bucket_posting (key_equal ?b) k (bucket_of (kx_buckets x) ?n)")
    case None
    then have "\<not> kx_has ?b (kx_buckets x) k l" for l by (simp add: kx_has_def kx.bucket_has_def)
    then have "{l. \<exists>v. (v, l) \<in> R \<and> row_key ?b v k} = {}" using H by blast
    then show ?thesis
      using None by (auto simp: kx_search_def kx_validate_search_def ensure_def bucket_of_def split: option.splits)
  next
    case (Some p)
    then have "kx_has ?b (kx_buckets x) k l \<longleftrightarrow> posting_has p l" for l by (simp add: kx_has_def kx.bucket_has_def)
    then have "{l. \<exists>v. (v, l) \<in> R \<and> row_key ?b v k} = {l. posting_has p l}" using H by auto
    then show ?thesis
      using Some posting_enumerates [OF post [OF Some B]]
      by (auto simp: kx_search_def kx_validate_search_def ensure_def bucket_of_def split: option.splits)
  qed
qed

text \<open>
  C22. A postings index maintained by insertions and erasures of rows answers an
  equality search with exactly the locations of the rows that yield an equal
  key, in order and without repetition, the rows the predicate itself accepts.
  A value whose keys the extractor rejects is refused by both operations.
\<close>

theorem key_index_exact:
  assumes "kx_represents x R" and "kx_key (kx_binding x) k" and "\<forall>w. (w, l) \<in> R \<longrightarrow> w = v"
  shows "(\<exists>r. kx_search x ''equal'' k = Inr r \<and> sorted_wrt (<) (result_rows r)
      \<and> (\<forall>p. p \<in> set (result_rows r) \<longleftrightarrow> (\<exists>w. (w, p) \<in> R \<and> kx_matches x ''equal'' w k = Inr True)))
    \<and> (case binding_keys (kx_binding x) v of
         Inl e \<Rightarrow> kx_insert x v l = Inl e \<and> kx_erase x v l = Inl e
       | Inr _ \<Rightarrow> (\<exists>y. kx_insert x v l = Inr y \<and> kx_represents y (insert (v, l) R))
           \<and> (\<exists>y. kx_erase x v l = Inr y \<and> kx_represents y (R - {(v, l)})))"
proof
  show "\<exists>r. kx_search x ''equal'' k = Inr r \<and> sorted_wrt (<) (result_rows r)
      \<and> (\<forall>p. p \<in> set (result_rows r) \<longleftrightarrow> (\<exists>w. (w, p) \<in> R \<and> kx_matches x ''equal'' w k = Inr True))"
    using kx_search_represents [OF assms(1,2)] row_key_matches
    by (auto simp: kx_matches_def kx_validate_search_def ensure_def)
  show "case binding_keys (kx_binding x) v of
         Inl e \<Rightarrow> kx_insert x v l = Inl e \<and> kx_erase x v l = Inl e
       | Inr _ \<Rightarrow> (\<exists>y. kx_insert x v l = Inr y \<and> kx_represents y (insert (v, l) R))
           \<and> (\<exists>y. kx_erase x v l = Inr y \<and> kx_represents y (R - {(v, l)}))"
    using kx_change_represents [OF assms(1)] assms(3)
    by (cases "binding_keys (kx_binding x) v") (fastforce simp: kx_insert_def kx_erase_def kx_change_def)+
qed

text \<open>A sample: the extractor that yields the value itself.\<close>

definition sample_extractor :: KeyExtractor where
  "sample_extractor = \<lparr>extractor_name = ''self'', source_type = integer_type, key_type = integer_type,
     fn_extract = (\<lambda>v. Inr [v])\<rparr>"

definition sample_key_index :: KeyIndex where
  "sample_key_index = make_key_index sample_extractor (scalar_integer (\<lambda>_. 0))"

lemma sample_binding: "kx_binding sample_key_index = \<lparr>kb_extractor = sample_extractor, kb_addon = scalar_integer (\<lambda>_. 0)\<rparr>"
  by (simp add: sample_key_index_def make_key_index_def)

lemma sample_key_ok: "key_ok (kx_binding sample_key_index) k \<longleftrightarrow> (\<exists>i. k = VInt i)"
  by (auto simp: key_ok_def sample_binding sample_extractor_def holds_layout_def scalar_integer_def is_null_def split: Value.splits)

lemma sample_key_equal: "key_equal (kx_binding sample_key_index) (VInt i) (VInt j) \<longleftrightarrow> i = j"
  by (simp add: key_equal_def sample_binding scalar_integer_def)

lemma sample_key_lawful: "key_lawful (kx_binding sample_key_index)"
  by (auto simp: key_lawful_def sample_key_ok sample_key_equal)

lemma sample_key_represents: "kx_represents sample_key_index {}"
  using make_key_index_represents [of sample_extractor "scalar_integer (\<lambda>_. 0)"] sample_key_lawful
  unfolding sample_key_index_def [symmetric] sample_binding .

theorem key_index_exact_witness:
  "\<exists>y. kx_insert sample_key_index (VInt 7) (RowLocation 1 130) = Inr y
     \<and> kx_represents y {(VInt 7, RowLocation 1 130)}"
proof -
  have "binding_keys (kx_binding sample_key_index) (VInt 7) = Inr [VInt 7]"
    using sample_key_ok [of "VInt 7"]
    by (auto simp: binding_keys_def sample_binding sample_extractor_def key_ok_def ensure_def)
  then show ?thesis
    using key_index_exact [OF sample_key_represents, of "VInt 7" "RowLocation 1 130" "VInt 7"]
      sample_key_lawful sample_key_ok by (simp add: kx_key_def)
qed

end
