(* ===== verification/Queries.thy ===== *)
theory Queries
  imports Rows
begin

text \<open>
  The logical queries of include/coresql/core.hpp: expressions, predicates,
  joins, queries and table constraints.
\<close>

datatype ExprKind =
    K_column | K_literal | K_call | K_aggregate | K_row_id | K_parameter
  | K_subquery | K_conditional | K_exists | K_coalesce | K_membership

datatype Compare = C_equal | C_less | C_greater | C_not_equal | C_less_equal | C_greater_equal

datatype PredicateKind = P_comparison | P_all | P_any | P_negation | P_contains

datatype JoinKind = J_inner | J_left | J_right | J_full

datatype SetOperation = S_union_all | S_union_distinct | S_intersect | S_except

record IndexSearch =
  search_column :: string
  search_operation :: string
  search_value :: Value

datatype Expr =
    Expr (expr_kind: ExprKind) (expr_name: string) (expr_value: Value)
      (expr_arguments: "Expr list") (expr_qualifier: string) (expr_subquery: "Query option")
      (expr_distinct: bool) (expr_parameters: "string list")
and Predicate =
    Predicate (pred_left: Expr) (pred_operation: Compare) (pred_right: Expr)
      (pred_kind: PredicateKind) (pred_children: "Predicate list") (pred_extractor: string)
and Join =
    Join (join_table: string) (join_alias: string) (join_left: Expr) (join_right: Expr)
      (join_cross: bool) (join_right_where: "Predicate option") (join_kind: JoinKind)
      (join_on: "Predicate option")
and Query =
    Query (query_table: string) (query_select: "Expr list") (query_where: "Predicate option")
      (query_order_by: "(Expr \<times> bool) list") (query_limit: nat) (query_alias: string)
      (query_join: "Join option") (query_search: "IndexSearch option") (query_distinct: bool)
      (query_joins: "Join list") (query_source_where: "Predicate option")
      (query_compounds: "(SetOperation \<times> Query) list") (query_group_by: "Expr list")
      (query_having: "Predicate option") (query_repeatable: bool)
      (query_relations: "(string \<times> Query \<times> Column list) list") (query_offset: nat)

text \<open>The constructors the queries of an application are built with.\<close>

definition column_expr :: "string \<Rightarrow> Expr" where
  "column_expr name = Expr K_column name (VInt 0) [] [] None False []"

definition literal_expr :: "Value \<Rightarrow> Expr" where
  "literal_expr v = Expr K_literal [] v [] [] None False []"

definition qualified_column :: "string \<Rightarrow> string \<Rightarrow> Expr" where
  "qualified_column qualifier name = Expr K_column name (VInt 0) [] qualifier None False []"

definition row_id_expr :: Expr where
  "row_id_expr = Expr K_row_id [] (VInt 0) [] [] None False []"

definition parameter_expr :: "string \<Rightarrow> Expr" where
  "parameter_expr name = Expr K_parameter name (VInt 0) [] [] None False []"

definition coalesce_expr :: "Expr list \<Rightarrow> Expr" where
  "coalesce_expr arguments = Expr K_coalesce [] (VInt 0) arguments [] None False []"

definition choose_expr :: "(Expr \<times> Expr) list \<Rightarrow> Expr option \<Rightarrow> Expr" where
  "choose_expr branches otherwise =
     Expr K_conditional [] (VInt 0)
       (concat (map (\<lambda>(c, r). [c, r]) branches) @ (case otherwise of None \<Rightarrow> [] | Some e \<Rightarrow> [e]))
       [] None False []"

definition choose_matching ::
    "Expr \<Rightarrow> string \<Rightarrow> (Expr \<times> Expr) list \<Rightarrow> Expr option \<Rightarrow> Expr result" where
  "choose_matching base equality branches otherwise =
     bindE (ensure (equality \<noteq> []) E_schema) (\<lambda>_.
     case choose_expr branches otherwise of
       Expr k _ v arguments q s d ps \<Rightarrow> Inr (Expr k equality v (base # arguments) q s d ps))"

definition membership_expr :: "Expr \<Rightarrow> Expr list \<Rightarrow> string \<Rightarrow> Expr" where
  "membership_expr v candidates equality =
     Expr K_membership equality (VInt 0) (v # candidates) [] None False []"

definition membership_query :: "Expr \<Rightarrow> Query \<Rightarrow> string \<Rightarrow> (string \<times> Expr) list \<Rightarrow> Expr" where
  "membership_query v candidates equality bindings =
     Expr K_membership equality (VInt 0) (v # map snd bindings) [] (Some candidates) False (map fst bindings)"

definition scalar_subquery :: "Query \<Rightarrow> (string \<times> Expr) list \<Rightarrow> Expr" where
  "scalar_subquery q bindings =
     Expr K_subquery [] (VInt 0) (map snd bindings) [] (Some q) False (map fst bindings)"

definition exists_expr :: "Query \<Rightarrow> (string \<times> Expr) list \<Rightarrow> Expr" where
  "exists_expr q bindings =
     Expr K_exists [] (VInt 0) (map snd bindings) [] (Some q) False (map fst bindings)"

definition aggregate_expr :: "string \<Rightarrow> Expr list \<Rightarrow> bool \<Rightarrow> Expr" where
  "aggregate_expr name arguments distinct_rows =
     Expr K_aggregate name (VInt 0) arguments [] None distinct_rows []"

definition all_of :: "Predicate list \<Rightarrow> Predicate" where
  "all_of children = Predicate (literal_expr (VInt 0)) C_equal (literal_expr (VInt 0)) P_all children []"

definition any_of :: "Predicate list \<Rightarrow> Predicate" where
  "any_of children = Predicate (literal_expr (VInt 0)) C_equal (literal_expr (VInt 0)) P_any children []"

definition not_of :: "Predicate \<Rightarrow> Predicate" where
  "not_of child = Predicate (literal_expr (VInt 0)) C_equal (literal_expr (VInt 0)) P_negation [child] []"

definition contains_of :: "Expr \<Rightarrow> string \<Rightarrow> Expr \<Rightarrow> Predicate" where
  "contains_of source extractor key = Predicate source C_equal key P_contains [] extractor"

definition call_expr :: "string \<Rightarrow> Expr list \<Rightarrow> Expr" where
  "call_expr name arguments = Expr K_call name (VInt 0) arguments [] None False []"

section \<open>Constraints\<close>

record CheckConstraint =
  check_name :: string
  check_expression :: Expr

record ForeignKey =
  fk_name :: string
  fk_columns :: "string list"
  fk_table :: string
  fk_referenced :: "string list"

record TableConstraints =
  checks_of :: "CheckConstraint list"
  foreign_keys_of :: "ForeignKey list"

end
