(* ===== verification/Tables.thy ===== *)
theory Tables
  imports Queries Key_Index Chunk_Map
begin

text \<open>
  Chunks, tables and states of src/state.hpp, their byte accounting in
  src/core.cpp, the index bindings of src/index.cpp and the row checks of
  src/schema.cpp.

  A table's chunk directory is its sequence of entries, sorted by chunk id: the
  contents of the copy-on-write directory of the theory \<open>Chunk_Map\<close>. Chunks and
  tables are shared between snapshots and compared by identity, so each carries
  the number of its image, drawn from the counter in the state, which is fresh
  whenever the code creates or detaches the object. A paged chunk reads as the
  chunk itself.
\<close>

section \<open>Chunks\<close>

record Chunk =
  chunk_rows :: "Row list"
  chunk_rowids :: "i64 list"
  chunk_payload :: nat
  chunk_encoded :: nat
  chunk_slots :: "u32 list"
  chunk_image :: nat

definition max_chunk_rows :: nat where
  "max_chunk_rows = 128"

definition max_chunk_bytes :: nat where
  "max_chunk_bytes = 16 * 1024"

definition new_chunk :: "nat \<Rightarrow> Chunk" where
  "new_chunk img = \<lparr>chunk_rows = [], chunk_rowids = [], chunk_payload = 0, chunk_encoded = 0,
     chunk_slots = [], chunk_image = img\<rparr>"

definition chunk_slot :: "Chunk \<Rightarrow> nat \<Rightarrow> u32" where
  "chunk_slot c position = (if chunk_slots c = [] then of_nat position else chunk_slots c ! position)"

definition next_slot :: "Chunk \<Rightarrow> u64" where
  "next_slot c = (if chunk_slots c = [] then of_nat (length (chunk_rows c))
     else ucast (last (chunk_slots c)) + 1)"

definition chunk_position :: "Chunk \<Rightarrow> u32 \<Rightarrow> nat" where
  "chunk_position c slot =
     (if chunk_slots c = [] then
        (if unat slot < length (chunk_rows c) then unat slot else length (chunk_rows c))
      else
        let found = lower_bound (\<lambda>s. s < slot) (chunk_slots c) in
        if found \<noteq> length (chunk_slots c) \<and> chunk_slots c ! found = slot then found
        else length (chunk_rows c))"

text \<open>Payload and encoded bytes of one value; every encoded value has an eight-byte tag.\<close>

definition value_payload :: "Value \<Rightarrow> nat" where
  "value_payload v =
     (case v of VInt _ \<Rightarrow> 8 | VReal _ \<Rightarrow> 8 | VText s \<Rightarrow> length s | Opaque _ bs \<Rightarrow> length bs
      | Compact _ bs \<Rightarrow> length bs | Null _ \<Rightarrow> 0)"

definition value_prefix :: "Value \<Rightarrow> nat" where
  "value_prefix v = (case v of VText _ \<Rightarrow> 8 | Opaque _ _ \<Rightarrow> 8 | Compact _ _ \<Rightarrow> 8 | _ \<Rightarrow> 0)"

definition refresh_chunk :: "Chunk \<Rightarrow> Chunk" where
  "refresh_chunk c =
     (let vs = concat (chunk_rows c) in
      c\<lparr>chunk_payload := sum_list (map value_payload vs),
        chunk_encoded := 8 * length (chunk_rows c)
          + sum_list (map (\<lambda>v. value_payload v + value_prefix v + 8) vs)\<rparr>)"

section \<open>Index bindings\<close>

text \<open>The indexes the engine itself provides; both implement the interface \<open>Index\<close>.\<close>

datatype IndexData = HashData HashIndex | KeyData KeyIndex

definition ix_insert :: "IndexData \<Rightarrow> Value \<Rightarrow> RowLocation \<Rightarrow> IndexData result" where
  "ix_insert x v p =
     (case x of HashData h \<Rightarrow> bindE (hx_insert h v p) (\<lambda>h'. Inr (HashData h'))
      | KeyData k \<Rightarrow> bindE (kx_insert k v p) (\<lambda>k'. Inr (KeyData k')))"

definition ix_erase :: "IndexData \<Rightarrow> Value \<Rightarrow> RowLocation \<Rightarrow> IndexData result" where
  "ix_erase x v p =
     (case x of HashData h \<Rightarrow> bindE (hx_erase h v p) (\<lambda>h'. Inr (HashData h'))
      | KeyData k \<Rightarrow> bindE (kx_erase k v p) (\<lambda>k'. Inr (KeyData k')))"

definition ix_validate :: "IndexData \<Rightarrow> (Value \<times> RowLocation) list \<Rightarrow> unit result" where
  "ix_validate x source =
     (case x of HashData h \<Rightarrow> hx_validate h source | KeyData k \<Rightarrow> kx_validate k source)"

definition ix_lookup :: "IndexData \<Rightarrow> Value \<Rightarrow> RowLocation option result" where
  "ix_lookup x v = (case x of HashData h \<Rightarrow> hx_lookup h v | KeyData _ \<Rightarrow> Inl E_unsupported)"

definition ix_range :: "IndexData \<Rightarrow> Value option \<Rightarrow> Value option \<Rightarrow> IndexResult option result" where
  "ix_range x lo hi = (case x of HashData h \<Rightarrow> hx_range h lo hi | KeyData _ \<Rightarrow> Inr None)"

definition ix_search :: "IndexData \<Rightarrow> string \<Rightarrow> Value \<Rightarrow> IndexResult result" where
  "ix_search x operation v =
     (case x of HashData _ \<Rightarrow> Inl E_unsupported | KeyData k \<Rightarrow> kx_search k operation v)"

definition registry_index :: "Registry \<Rightarrow> string \<Rightarrow> Type \<Rightarrow> bool \<Rightarrow> IndexData result" where
  "registry_index r name t require_unique =
     bindE (registry_validate_type r t) (\<lambda>_.
     case reg_indexes r name of
       None \<Rightarrow> Inl E_type
     | Some i \<Rightarrow>
         bindE (ensure (require_unique \<longrightarrow> index_unique i) E_unsupported) (\<lambda>_.
         bindE (registry_addon r t) (\<lambda>a.
         case index_provider i of
           Hash_provider \<Rightarrow> bindE (make_hash_index t a) (\<lambda>h. Inr (HashData h))
         | Key_provider x ka \<Rightarrow>
             bindE (ensure (t = source_type x) E_type) (\<lambda>_. Inr (KeyData (make_key_index x ka))))))"

record IndexBinding =
  binding_column :: nat
  binding_data :: IndexData

section \<open>Tables and states\<close>

record Table =
  table_selection :: "RowLocation list option"
  table_columns :: "Column list"
  table_constraints :: TableConstraints
  table_chunks :: "(u64 \<times> Chunk) list"
  table_next_chunk :: u64
  table_next_rowid :: i64
  table_row_count :: nat
  table_payload :: nat
  table_primary :: "IndexBinding option"
  table_indexes :: "IndexBinding list"
  table_definitions :: "IndexDefinition list"
  table_ordered :: "OrderedIndex list"
  table_pk_known :: bool
  table_pk_max :: "i64 option"
  table_image :: nat

definition empty_table :: "nat \<Rightarrow> Table" where
  "empty_table img =
     \<lparr>table_selection = None, table_columns = [],
      table_constraints = \<lparr>checks_of = [], foreign_keys_of = []\<rparr>, table_chunks = [],
      table_next_chunk = 0, table_next_rowid = 1, table_row_count = 0, table_payload = 0,
      table_primary = None, table_indexes = [], table_definitions = [], table_ordered = [],
      table_pk_known = False, table_pk_max = None, table_image = img\<rparr>"

type_synonym Tables = "(string \<times> Table) list"

record Stats =
  stat_tables :: nat
  stat_rows :: nat
  stat_payload :: nat
  stat_peak :: nat

record State =
  state_epoch :: nat
  state_tables :: Tables
  state_stats :: Stats
  state_images :: nat

definition empty_state :: State where
  "empty_state = \<lparr>state_epoch = 0, state_tables = [],
     state_stats = \<lparr>stat_tables = 0, stat_rows = 0, stat_payload = 0, stat_peak = 0\<rparr>, state_images = 1\<rparr>"

definition require_table :: "Tables \<Rightarrow> string \<Rightarrow> Table result" where
  "require_table ts name = (case map_of ts name of None \<Rightarrow> Inl E_schema | Some t \<Rightarrow> Inr t)"

text \<open>Assignment into a sorted map: \<open>m[k] = v\<close>.\<close>

definition assign :: "'k::linorder \<Rightarrow> 'v \<Rightarrow> ('k \<times> 'v) list \<Rightarrow> ('k \<times> 'v) list" where
  "assign k v es = takeWhile (\<lambda>e. fst e < k) es @ (k, v) # dropWhile (\<lambda>e. fst e \<le> k) es"

definition refresh_table :: "Table \<Rightarrow> Table" where
  "refresh_table t =
     t\<lparr>table_row_count := sum_list (map (\<lambda>e. length (chunk_rows (snd e))) (table_chunks t)),
       table_payload := sum_list (map (\<lambda>e. chunk_payload (snd e)) (table_chunks t))\<rparr>"

definition measure_state :: "State \<Rightarrow> Stats" where
  "measure_state s =
     (let payload = sum_list (map (\<lambda>e. table_payload (snd e)) (state_tables s)) in
      \<lparr>stat_tables = length (state_tables s),
       stat_rows = sum_list (map (\<lambda>e. table_row_count (snd e)) (state_tables s)),
       stat_payload = payload, stat_peak = max (stat_peak (state_stats s)) payload\<rparr>)"

section \<open>Making indexes\<close>

fun make_index :: "Registry \<Rightarrow> Column list \<Rightarrow> nat \<Rightarrow> IndexBinding option \<Rightarrow> IndexBinding option result" where
  "make_index r [] i found = Inr found"
| "make_index r (c # cs) i found =
     (if column_primary_key c then
        bindE (ensure (found = None) E_schema) (\<lambda>_.
        bindE (registry_index r (if column_index c = [] then ''core.hash'' else column_index c)
            (column_type c) True) (\<lambda>d.
        make_index r cs (Suc i) (Some \<lparr>binding_column = i, binding_data = d\<rparr>)))
      else make_index r cs (Suc i) found)"

fun inline_indexes :: "Registry \<Rightarrow> Column list \<Rightarrow> nat \<Rightarrow> IndexBinding list result" where
  "inline_indexes r [] i = Inr []"
| "inline_indexes r (c # cs) i =
     (if \<not> column_primary_key c \<and> column_index c \<noteq> [] then
        bindE (registry_index r (column_index c) (column_type c) False) (\<lambda>d.
        bindE (inline_indexes r cs (Suc i)) (\<lambda>bs.
        Inr (\<lparr>binding_column = i, binding_data = d\<rparr> # bs)))
      else inline_indexes r cs (Suc i))"

fun make_ordered :: "Registry \<Rightarrow> Column list \<Rightarrow> string list \<Rightarrow> IndexDefinition list \<Rightarrow> OrderedIndex list result" where
  "make_ordered r cs names [] = Inr []"
| "make_ordered r cs names (d # ds) =
     bindE (ensure (index_name d \<notin> set names) E_schema) (\<lambda>_.
     bindE (ordered_index_new d cs r) (\<lambda>x.
     bindE (make_ordered r cs (index_name d # names) ds) (\<lambda>xs.
     Inr (x # xs))))"

definition make_indexes :: "Registry \<Rightarrow> Table \<Rightarrow> Table result" where
  "make_indexes r t =
     bindE (forE (\<lambda>c.
       bindE (ensure (\<not> (column_nullable c \<and> column_primary_key c)) E_schema) (\<lambda>_.
       ensure (\<not> (column_nullable c \<and> column_index c \<noteq> [])) E_unsupported)) (table_columns t)) (\<lambda>_.
     bindE (make_ordered r (table_columns t) [] (table_definitions t)) (\<lambda>ordered.
     bindE (make_index r (table_columns t) 0 None) (\<lambda>primary.
     bindE (inline_indexes r (table_columns t) 0) (\<lambda>indexes.
     Inr (t\<lparr>table_ordered := ordered, table_primary := primary, table_indexes := indexes\<rparr>)))))"

definition table_lookup :: "Table \<Rightarrow> Value \<Rightarrow> RowLocation option result" where
  "table_lookup t v =
     (case table_primary t of None \<Rightarrow> Inl E_state | Some b \<Rightarrow> ix_lookup (binding_data b) v)"

section \<open>Row checks\<close>

definition validate_stored :: "Registry \<Rightarrow> Column \<Rightarrow> Value \<Rightarrow> unit result" where
  "validate_stored r c v =
     bindE (ensure (\<not> (is_null v \<and> \<not> column_nullable c)) E_constraint) (\<lambda>_.
     registry_validate r v (column_type c))"

fun fill_defaults :: "Row \<Rightarrow> Column list \<Rightarrow> Row" where
  "fill_defaults row [] = row"
| "fill_defaults row (c # cs) =
     (case column_default c of None \<Rightarrow> row | Some v \<Rightarrow> fill_defaults (row @ [v]) cs)"

definition prepare_row :: "Registry \<Rightarrow> Column list \<Rightarrow> Row \<Rightarrow> Row result" where
  "prepare_row r cs row =
     (let row = fill_defaults row (drop (length row) cs) in
      bindE (ensure (length row = length cs) E_schema) (\<lambda>_.
      bindE (forE (\<lambda>(c, v). validate_stored r c v) (zip cs row)) (\<lambda>_.
      Inr row)))"

end
