(* ===== verification/Snapshot.thy ===== *)
theory Snapshot
  imports Tables
begin

text \<open>
  The wire formats of src/snapshot.cpp: values, expressions, schemas, full
  snapshots, change records, streamed checkpoints and cached pages, with the
  readers that check every count, flag and identity they take from the bytes.

  A writer appends to the bytes produced so far and may refuse to grow them
  beyond the configured limit. A reader is the bytes still to be consumed.
\<close>

section \<open>Fields\<close>

definition max_encoded_bytes :: nat where
  "max_encoded_bytes = 1024 * 1024 * 1024"

definition fnv_step :: "u64 \<Rightarrow> byte \<Rightarrow> u64" where
  "fnv_step hash b = (hash XOR ucast b) * 1099511628211"

definition fnv_offset :: u64 where
  "fnv_offset = 14695981039346656037"

definition checksum :: "bytes \<Rightarrow> u64" where
  "checksum bs = foldl fnv_step fnv_offset bs"

definition put_u64 :: "u64 \<Rightarrow> bytes \<Rightarrow> bytes result" where
  "put_u64 n out = Inr (out @ enc_u64 n)"

definition put_size :: "nat \<Rightarrow> bytes \<Rightarrow> bytes result" where
  "put_size n out = put_u64 (of_nat n) out"

definition put_field :: "bytes \<Rightarrow> bytes \<Rightarrow> bytes result" where
  "put_field bs out =
     bindE (ensure (\<not> (length bs > max_encoded_bytes - 8
         \<or> length out > max_encoded_bytes - 8 - length bs)) E_format) (\<lambda>_.
     Inr (out @ enc_u64 (of_nat (length bs)) @ bs))"

definition get_field :: "Reader \<Rightarrow> (bytes \<times> Reader) result" where
  "get_field r =
     bindE (reader_u64 r) (\<lambda>(n, r).
     bindE (ensure (unat n \<le> remaining r) E_format) (\<lambda>_.
     reader_take (unat n) r))"

definition get_string :: "Reader \<Rightarrow> (string \<times> Reader) result" where
  "get_string r = bindE (get_field r) (\<lambda>(bs, r). Inr (unview bs, r))"

definition get_count :: "Reader \<Rightarrow> (nat \<times> Reader) result" where
  "get_count r =
     bindE (reader_u64 r) (\<lambda>(n, r).
     bindE (ensure (unat n \<le> remaining r div 8) E_format) (\<lambda>_. Inr (unat n, r)))"

text \<open>A flag is a number that must be zero or one.\<close>

definition get_flag :: "Reader \<Rightarrow> (bool \<times> Reader) result" where
  "get_flag r =
     bindE (reader_u64 r) (\<lambda>(n, r).
     bindE (ensure (\<not> n > 1) E_format) (\<lambda>_. Inr (n \<noteq> 0, r)))"

text \<open>A counted loop that reads one item per round.\<close>

primrec timesE :: "nat \<Rightarrow> ('s \<Rightarrow> ('a \<times> 's) result) \<Rightarrow> 's \<Rightarrow> ('a list \<times> 's) result" where
  "timesE 0 f s = Inr ([], s)"
| "timesE (Suc n) f s =
     bindE (f s) (\<lambda>(x, s). bindE (timesE n f s) (\<lambda>(xs, s). Inr (x # xs, s)))"

section \<open>Values\<close>

definition emit_value ::
    "(u64 \<Rightarrow> 's \<Rightarrow> 's result) \<Rightarrow> (bytes \<Rightarrow> 's \<Rightarrow> 's result) \<Rightarrow> Value \<Rightarrow> 's \<Rightarrow> 's result" where
  "emit_value number bytes_field v s =
     bindE (number (of_bool (is_null v)) s) (\<lambda>s.
     if is_null v then Inr s
     else
       (case v of
          VInt i \<Rightarrow> number i s
        | VReal d \<Rightarrow> number d s
        | VText t \<Rightarrow> bytes_field (view t) s
        | Compact t bs \<Rightarrow>
            if length bs = 8 then
              bindE (number 8 s) (\<lambda>s. bindE (i64_payload v) (\<lambda>p. number p s))
            else bytes_field bs s
        | Opaque t bs \<Rightarrow> bytes_field bs s
        | Null t \<Rightarrow> Inl E_state))"

definition write_value :: "Value \<Rightarrow> bytes \<Rightarrow> bytes result" where
  "write_value v out = emit_value put_u64 put_field v out"

definition read_value :: "Type \<Rightarrow> Registry \<Rightarrow> bool \<Rightarrow> Reader \<Rightarrow> (Value \<times> Reader) result" where
  "read_value t reg tagged r =
     bindE (if tagged then get_flag r else Inr (False, r)) (\<lambda>(null, r).
     if null then Inr (Null t, r)
     else
       bindE (registry_addon reg t) (\<lambda>a.
       (case addon_layout a of
          L_i64 \<Rightarrow>
            if t = integer_type then bindE (reader_u64 r) (\<lambda>(n, r). Inr (VInt n, r))
            else
              bindE (get_field r) (\<lambda>(bs, r).
              bindE (ensure (length bs = 8) E_format) (\<lambda>_.
              bindE (reader_u64 bs) (\<lambda>(n, payload).
              bindE (reader_end payload) (\<lambda>_.
              bindE (compact_i64 t n) (\<lambda>v. Inr (v, r))))))
        | L_f64 \<Rightarrow> bindE (reader_u64 r) (\<lambda>(n, r). Inr (VReal n, r))
        | L_text \<Rightarrow> bindE (get_string r) (\<lambda>(s, r). Inr (VText s, r))
        | L_i128 \<Rightarrow>
            bindE (get_field r) (\<lambda>(bs, r).
            bindE (ensure (length bs = 16) E_format) (\<lambda>_.
            bindE (compact_i128 t bs) (\<lambda>v. Inr (v, r))))
        | L_bytes \<Rightarrow> bindE (get_field r) (\<lambda>(bs, r). Inr (Opaque t bs, r)))))"

section \<open>Check expressions\<close>

fun kind_number :: "ExprKind \<Rightarrow> nat" where
  "kind_number K_column = 0"
| "kind_number K_literal = 1"
| "kind_number K_call = 2"
| "kind_number K_aggregate = 3"
| "kind_number K_row_id = 4"
| "kind_number K_parameter = 5"
| "kind_number K_subquery = 6"
| "kind_number K_conditional = 7"
| "kind_number K_exists = 8"
| "kind_number K_coalesce = 9"
| "kind_number K_membership = 10"

definition expr_kinds :: "ExprKind list" where
  "expr_kinds = [K_column, K_literal, K_call, K_aggregate, K_row_id, K_parameter, K_subquery,
     K_conditional, K_exists, K_coalesce, K_membership]"

definition put_type :: "Type \<Rightarrow> bytes \<Rightarrow> bytes result" where
  "put_type t out =
     bindE (put_field (view (type_id t)) out) (\<lambda>out.
     bindE (put_u64 (ucast (type_version t)) out) (\<lambda>out.
     put_field (type_parameters t) out))"

definition allowed_in_check :: "ExprKind set" where
  "allowed_in_check = {K_column, K_literal, K_call, K_conditional, K_coalesce, K_membership}"

fun visit_check :: "Expr \<Rightarrow> nat \<Rightarrow> nat \<Rightarrow> nat result" where
  "visit_check (Expr kind name v arguments qualifier subquery dist parameters) depth nodes =
     bindE (ensure (\<not> (Suc nodes > 4096 \<or> depth > 64)) E_schema) (\<lambda>_.
     bindE (ensure (\<not> (subquery \<noteq> None \<or> qualifier \<noteq> [] \<or> parameters \<noteq> [] \<or> dist
         \<or> kind \<notin> allowed_in_check)) E_unsupported) (\<lambda>_.
     foldE (\<lambda>child nodes. visit_check child (Suc depth) nodes) arguments (Suc nodes)))"

definition validate_check_expression :: "Expr \<Rightarrow> unit result" where
  "validate_check_expression e = bindE (visit_check e 0 0) (\<lambda>_. Inr ())"

fun write_expr :: "Expr \<Rightarrow> bytes \<Rightarrow> bytes result" where
  "write_expr (Expr kind name v arguments qualifier subquery dist parameters) out =
     bindE (put_size (kind_number kind) out) (\<lambda>out.
     bindE (put_field (view name) out) (\<lambda>out.
     bindE (if kind = K_literal then bindE (put_type (type_of v) out) (write_value v) else Inr out) (\<lambda>out.
     bindE (put_size (length arguments) out) (\<lambda>out.
     foldE write_expr arguments out))))"

text \<open>
  \<open>read_expr\<close> at nesting depth \<open>65 - d\<close>: the recursion stops with an error at
  depth 65. The number of nodes read so far is threaded with the reader.
\<close>

primrec read_expr :: "nat \<Rightarrow> Registry \<Rightarrow> nat \<times> Reader \<Rightarrow> (Expr \<times> nat \<times> Reader) result" where
  "read_expr 0 reg s = Inl E_format"
| "read_expr (Suc d) reg s =
     (case s of (nodes, r) \<Rightarrow>
      let nodes = Suc nodes in
      bindE (ensure (\<not> nodes > 4096) E_format) (\<lambda>_.
      bindE (reader_u64 r) (\<lambda>(kind, r).
      bindE (ensure (\<not> kind > 10) E_format) (\<lambda>_.
      bindE (get_string r) (\<lambda>(name, r).
      let kind = expr_kinds ! unat kind in
      bindE (if kind = K_literal then
               bindE (get_string r) (\<lambda>(tid, r).
               bindE (reader_u64 r) (\<lambda>(version, r).
               bindE (get_field r) (\<lambda>(parameters, r).
               bindE (ensure (\<not> (version = 0 \<or> version > ucast UINT32_MAX)) E_format) (\<lambda>_.
               let t = \<lparr>type_id = tid, type_version = ucast version, type_parameters = parameters\<rparr> in
               bindE (registry_validate_type reg t) (\<lambda>_.
               bindE (read_value t reg True r) (\<lambda>(v, r).
               bindE (registry_validate reg v t) (\<lambda>_. Inr (v, r))))))))
             else Inr (VInt 0, r)) (\<lambda>(v, r).
      bindE (get_count r) (\<lambda>(width, r).
      bindE (ensure (\<not> width > 4096 - nodes) E_format) (\<lambda>_.
      bindE (timesE width (read_expr d reg) (nodes, r)) (\<lambda>(arguments, s).
      Inr (Expr kind name v arguments [] None False [], s))))))))))"

definition read_check :: "Registry \<Rightarrow> Reader \<Rightarrow> (Expr \<times> Reader) result" where
  "read_check reg r = bindE (read_expr 65 reg (0, r)) (\<lambda>(e, nodes, r). Inr (e, r))"

section \<open>Schemas\<close>

definition write_column :: "Column \<Rightarrow> bytes \<Rightarrow> bytes result" where
  "write_column c out =
     bindE (put_field (view (column_name c)) out) (\<lambda>out.
     bindE (put_type (column_type c) out) (\<lambda>out.
     bindE (put_u64 (of_bool (column_primary_key c)) out) (\<lambda>out.
     bindE (put_u64 (of_bool (column_nullable c)) out) (\<lambda>out.
     bindE (put_field (view (column_index c)) out) (\<lambda>out.
     bindE (put_u64 (of_bool (column_default c \<noteq> None)) out) (\<lambda>out.
     case column_default c of None \<Rightarrow> Inr out | Some v \<Rightarrow> write_value v out))))))"

definition write_definition :: "IndexDefinition \<Rightarrow> bytes \<Rightarrow> bytes result" where
  "write_definition d out =
     bindE (put_field (view (index_name d)) out) (\<lambda>out.
     bindE (put_u64 (of_bool (index_is_unique d) OR (if index_constraint_owned d then 2 else 0)) out) (\<lambda>out.
     bindE (put_size (length (index_columns d)) out) (\<lambda>out.
     foldE (\<lambda>i out.
       bindE (put_field (view (index_columns d ! i)) out) (\<lambda>out.
       put_u64 (of_bool (index_descending d \<noteq> [] \<and> index_descending d ! i)) out))
       [0..<length (index_columns d)] out)))"

definition write_names :: "string list \<Rightarrow> bytes \<Rightarrow> bytes result" where
  "write_names names out =
     bindE (put_size (length names) out) (\<lambda>out. foldE (\<lambda>n out. put_field (view n) out) names out)"

definition write_check :: "CheckConstraint \<Rightarrow> bytes \<Rightarrow> bytes result" where
  "write_check c out =
     bindE (put_field (view (check_name c)) out) (\<lambda>out.
     bindE (validate_check_expression (check_expression c)) (\<lambda>_.
     write_expr (check_expression c) out))"

definition write_foreign_key :: "ForeignKey \<Rightarrow> bytes \<Rightarrow> bytes result" where
  "write_foreign_key k out =
     bindE (put_field (view (fk_name k)) out) (\<lambda>out.
     bindE (put_field (view (fk_table k)) out) (\<lambda>out.
     bindE (write_names (fk_columns k) out) (\<lambda>out.
     write_names (fk_referenced k) out)))"

definition write_schema :: "Table \<Rightarrow> bytes \<Rightarrow> bytes result" where
  "write_schema t out =
     bindE (put_size (length (table_columns t)) out) (\<lambda>out.
     bindE (foldE write_column (table_columns t) out) (\<lambda>out.
     bindE (put_size (length (table_definitions t)) out) (\<lambda>out.
     bindE (foldE write_definition (table_definitions t) out) (\<lambda>out.
     bindE (put_size (length (checks_of (table_constraints t))) out) (\<lambda>out.
     bindE (foldE write_check (checks_of (table_constraints t)) out) (\<lambda>out.
     bindE (put_size (length (foreign_keys_of (table_constraints t))) out) (\<lambda>out.
     foldE write_foreign_key (foreign_keys_of (table_constraints t)) out)))))))"

text \<open>The features a format version has, from the oldest to the current one.\<close>

record Features =
  has_primary :: bool
  has_indexes :: bool
  is_extended :: bool
  is_tagged :: bool
  is_constrained :: bool
  has_owned_indexes :: bool

definition read_column :: "Features \<Rightarrow> Registry \<Rightarrow> string list \<times> Reader \<Rightarrow> (Column \<times> string list \<times> Reader) result" where
  "read_column f reg s =
     (case s of (names, r) \<Rightarrow>
      bindE (get_string r) (\<lambda>(name, r).
      bindE (get_string r) (\<lambda>(tid, r).
      bindE (reader_u64 r) (\<lambda>(version, r).
      bindE (get_field r) (\<lambda>(parameters, r).
      bindE (ensure (\<not> (name = [] \<or> name \<in> set names \<or> version = 0 \<or> version > ucast UINT32_MAX)) E_format) (\<lambda>_.
      let t = \<lparr>type_id = tid, type_version = ucast version, type_parameters = parameters\<rparr> in
      bindE (registry_validate_type reg t) (\<lambda>_.
      bindE (if has_primary f then get_flag r else Inr (False, r)) (\<lambda>(pk, r).
      bindE (if is_tagged f then get_flag r else Inr (False, r)) (\<lambda>(nullable, r).
      bindE (if has_indexes f then get_string r else Inr ([], r)) (\<lambda>(index, r).
      let c = \<lparr>column_name = name, column_type = t, column_primary_key = pk, column_index = index,
               column_default = None, column_nullable = nullable\<rparr> in
      bindE (if is_extended f then
               bindE (get_flag r) (\<lambda>(present, r).
               if present then
                 bindE (read_value t reg (is_tagged f) r) (\<lambda>(v, r).
                 bindE (validate_stored reg c v) (\<lambda>_. Inr (Some v, r)))
               else Inr (None, r))
             else Inr (None, r)) (\<lambda>(default, r).
      Inr (c\<lparr>column_default := default\<rparr>, name # names, r))))))))))))"

definition read_definition :: "bool \<Rightarrow> Reader \<Rightarrow> (IndexDefinition \<times> Reader) result" where
  "read_definition owned r =
     bindE (get_string r) (\<lambda>(name, r).
     bindE (reader_u64 r) (\<lambda>(flags, r).
     bindE (ensure (\<not> (flags > (if owned then 3 else 1) \<or> flags = 2)) E_format) (\<lambda>_.
     bindE (get_count r) (\<lambda>(width, r).
     bindE (timesE width (\<lambda>r.
         bindE (get_string r) (\<lambda>(c, r). bindE (get_flag r) (\<lambda>(descending, r). Inr ((c, descending), r)))) r)
       (\<lambda>(columns, r).
     Inr (\<lparr>index_name = name, index_columns = map fst columns, index_is_unique = (flags AND 1 \<noteq> 0),
           index_descending = map snd columns,
           index_constraint_owned =
             (if owned then flags AND 2 \<noteq> 0
              else flags AND 1 \<noteq> 0 \<and> take 11 name = ''sql.unique.'')\<rparr>, r))))))"

definition read_constraint :: "Registry \<Rightarrow> Reader \<Rightarrow> (CheckConstraint \<times> Reader) result" where
  "read_constraint reg r =
     bindE (get_string r) (\<lambda>(name, r).
     bindE (read_check reg r) (\<lambda>(e, r).
     bindE (validate_check_expression e) (\<lambda>_.
     Inr (\<lparr>check_name = name, check_expression = e\<rparr>, r))))"

definition read_foreign_key :: "Reader \<Rightarrow> (ForeignKey \<times> Reader) result" where
  "read_foreign_key r =
     bindE (get_string r) (\<lambda>(name, r).
     bindE (get_string r) (\<lambda>(parent, r).
     bindE (get_count r) (\<lambda>(n, r).
     bindE (timesE n get_string r) (\<lambda>(columns, r).
     bindE (get_count r) (\<lambda>(m, r).
     bindE (timesE m get_string r) (\<lambda>(referenced, r).
     Inr (\<lparr>fk_name = name, fk_columns = columns, fk_table = parent, fk_referenced = referenced\<rparr>, r)))))))"

definition read_schema :: "Features \<Rightarrow> Registry \<Rightarrow> Reader \<Rightarrow> (Table \<times> Reader) result" where
  "read_schema f reg r =
     bindE (get_count r) (\<lambda>(n, r).
     bindE (ensure (n \<noteq> 0) E_format) (\<lambda>_.
     bindE (timesE n (read_column f reg) ([], r)) (\<lambda>(columns, _, r).
     bindE (if is_extended f then
              bindE (get_count r) (\<lambda>(n, r). timesE n (read_definition (has_owned_indexes f)) r)
            else Inr ([], r)) (\<lambda>(definitions, r).
     bindE (if is_constrained f then
              bindE (get_count r) (\<lambda>(n, r).
              bindE (timesE n (read_constraint reg) r) (\<lambda>(checks, r).
              bindE (get_count r) (\<lambda>(n, r).
              bindE (timesE n read_foreign_key r) (\<lambda>(keys, r).
              Inr (\<lparr>checks_of = checks, foreign_keys_of = keys\<rparr>, r)))))
            else Inr (\<lparr>checks_of = [], foreign_keys_of = []\<rparr>, r)) (\<lambda>(constraints, r).
     bindE (make_indexes reg ((empty_table 0)\<lparr>table_columns := columns, table_definitions := definitions,
         table_constraints := constraints\<rparr>)) (\<lambda>t.
     Inr (t, r)))))))"

section \<open>Snapshots\<close>

definition within_limit :: "bytes \<Rightarrow> unit result" where
  "within_limit out = ensure (\<not> length out > max_encoded_bytes - 8) E_format"

definition write_row :: "Row \<Rightarrow> bytes \<Rightarrow> bytes result" where
  "write_row row out = foldE write_value row out"

definition write_rows :: "Chunk \<Rightarrow> bytes \<Rightarrow> bytes result" where
  "write_rows c out =
     foldE (\<lambda>i out. bindE (put_u64 (chunk_rowids c ! i) out) (write_row (chunk_rows c ! i)))
       [0..<length (chunk_rows c)] out"

definition finish_record :: "bytes \<Rightarrow> bytes result" where
  "finish_record out =
     bindE (within_limit out) (\<lambda>_. put_u64 (checksum out) out)"

definition encode_state :: "State \<Rightarrow> bytes result" where
  "encode_state s =
     bindE (put_field (view ''CORESQL7'') []) (\<lambda>out.
     bindE (put_size (length (state_tables s)) out) (\<lambda>out.
     bindE (foldE (\<lambda>(name, t) out.
       bindE (put_field (view name) out) (\<lambda>out.
       bindE (write_schema t out) (\<lambda>out.
       bindE (put_u64 (table_next_rowid t) out) (\<lambda>out.
       bindE (put_size (table_row_count t) out) (\<lambda>out.
       foldE (\<lambda>(_, c) out.
         foldE (\<lambda>i out.
           bindE (put_u64 (chunk_rowids c ! i) out) (\<lambda>out.
           bindE (write_row (chunk_rows c ! i) out) (\<lambda>out.
           bindE (within_limit out) (\<lambda>_. Inr out)))) [0..<length (chunk_rows c)] out)
         (table_chunks t) out)))))
       (state_tables s) out) (\<lambda>out.
     finish_record out)))"

definition validate_snapshot :: "bytes \<Rightarrow> unit result" where
  "validate_snapshot bs =
     bindE (ensure (\<not> (length bs < 8 \<or> length bs > max_encoded_bytes)) E_format) (\<lambda>_.
     bindE (reader_u64 (drop (length bs - 8) bs)) (\<lambda>(sum, _).
     ensure (checksum (take (length bs - 8) bs) = sum) E_format))"

section \<open>Change records\<close>

definition checkpoint_size :: "State \<Rightarrow> nat result" where
  "checkpoint_size s =
     foldE (\<lambda>(name, t) size.
       bindE (write_schema t []) (\<lambda>schema.
       let size = size + (40 + length name) + length schema
             + (16 * length (table_chunks t) + sum_list (map (\<lambda>e. chunk_encoded (snd e)) (table_chunks t))) in
       bindE (ensure (\<not> size > max_encoded_bytes) E_format) (\<lambda>_. Inr size)))
       (state_tables s) 32"

definition same_table :: "Tables \<Rightarrow> string \<times> Table \<Rightarrow> bool" where
  "same_table base e = (case map_of base (fst e) of
     None \<Rightarrow> False | Some old \<Rightarrow> table_image old = table_image (snd e))"

definition write_chunk_change :: "u64 \<times> Chunk option \<Rightarrow> bytes \<Rightarrow> bytes result" where
  "write_chunk_change e out =
     (case snd e of
        None \<Rightarrow> bindE (put_u64 (fst e) out) (put_u64 0)
      | Some c \<Rightarrow>
          bindE (put_u64 (fst e) out) (\<lambda>out.
          bindE (put_size (length (chunk_rows c)) out) (\<lambda>out.
          write_rows c out)))"

definition chunk_changes :: "(u64 \<times> Chunk) list \<Rightarrow> (u64 \<times> Chunk) list \<Rightarrow> (u64 \<times> Chunk option) list" where
  "chunk_changes after before =
     changes_entries (map (\<lambda>(k, c). (k, Some c)) after) (map (\<lambda>(k, c). (k, Some c)) before)"

definition write_table_change :: "Tables \<Rightarrow> string \<times> Table \<Rightarrow> bytes \<Rightarrow> bytes result" where
  "write_table_change base e out =
     (case e of (name, t) \<Rightarrow>
      let previous = (case map_of base name of None \<Rightarrow> [] | Some old \<Rightarrow> table_chunks old);
          changes = chunk_changes (table_chunks t) previous in
      bindE (put_field (view name) out) (\<lambda>out.
      bindE (write_schema t out) (\<lambda>out.
      bindE (put_u64 (table_next_chunk t) out) (\<lambda>out.
      bindE (put_u64 (table_next_rowid t) out) (\<lambda>out.
      bindE (put_size (length changes) out) (\<lambda>out.
      foldE write_chunk_change changes out))))))"

definition encode_changes :: "State \<Rightarrow> State \<Rightarrow> bytes result" where
  "encode_changes base next =
     bindE (checkpoint_size next) (\<lambda>_.
     bindE (put_field (view ''CORECHG8'') []) (\<lambda>out.
     let changed = filter (\<lambda>e. \<not> same_table (state_tables base) e) (state_tables next) in
     bindE (put_size (length changed) out) (\<lambda>out.
     bindE (foldE (write_table_change (state_tables base)) changed out) (\<lambda>out.
     finish_record out))))"

end
