(* ===== verification/Snapshot_Apply.thy ===== *)
theory Snapshot_Apply
  imports Snapshot
begin

text \<open>
  The rest of src/snapshot.cpp: replaying a change record on a base state,
  streaming a checkpoint through a bounded buffer, and cached pages.
\<close>

section \<open>Replaying changes\<close>

definition change_features :: "string \<Rightarrow> Features result" where
  "change_features format =
     (let tagged = format \<in> {''CORECHG6'', ''CORECHG7'', ''CORECHG8''};
          extended = tagged \<or> format = ''CORECHG5'' in
      bindE (ensure (format \<in> {''CORECHG2'', ''CORECHG3'', ''CORECHG4'', ''CORECHG5'', ''CORECHG6'',
          ''CORECHG7'', ''CORECHG8''}) E_format) (\<lambda>_.
      Inr \<lparr>has_primary = (format \<noteq> ''CORECHG2''), has_indexes = (format = ''CORECHG4'' \<or> extended),
           is_extended = extended, is_tagged = tagged,
           is_constrained = (format = ''CORECHG7'' \<or> format = ''CORECHG8''),
           has_owned_indexes = (format = ''CORECHG8'')\<rparr>))"

fun read_cells :: "Registry \<Rightarrow> bool \<Rightarrow> Column list \<Rightarrow> Reader \<Rightarrow> (Row \<times> Reader) result" where
  "read_cells reg tagged [] r = Inr ([], r)"
| "read_cells reg tagged (c # cs) r =
     bindE (read_value (column_type c) reg tagged r) (\<lambda>(v, r).
     bindE (validate_stored reg c v) (\<lambda>_.
     bindE (read_cells reg tagged cs r) (\<lambda>(row, r). Inr (v # row, r))))"

definition read_change_row ::
    "Features \<Rightarrow> Registry \<Rightarrow> Column list \<Rightarrow> i64 \<times> Reader \<Rightarrow> ((i64 \<times> Row) \<times> i64 \<times> Reader) result" where
  "read_change_row f reg columns s =
     (case s of (next_rowid, r) \<Rightarrow>
      bindE (if is_extended f then bindE (reader_u64 r) (\<lambda>(rowid, r). Inr (rowid, next_rowid, r))
             else Inr (next_rowid, next_rowid + 1, r)) (\<lambda>(rowid, next_rowid, r).
      bindE (ensure (\<not> (rowid = 0 \<or> rowid \<ge> next_rowid)) E_format) (\<lambda>_.
      bindE (read_cells reg (is_tagged f) columns r) (\<lambda>(row, r).
      Inr ((rowid, row), next_rowid, r)))))"

definition read_change_chunk ::
    "Features \<Rightarrow> Registry \<Rightarrow> u64 list \<times> Table \<times> nat \<times> Reader \<Rightarrow> (unit \<times> u64 list \<times> Table \<times> nat \<times> Reader) result" where
  "read_change_chunk f reg s =
     (case s of (ids, t, images, r) \<Rightarrow>
      bindE (reader_u64 r) (\<lambda>(cid, r).
      bindE (reader_u64 r) (\<lambda>(rows, r).
      bindE (ensure (\<not> (cid \<ge> table_next_chunk t \<or> cid \<in> set ids \<or> unat rows > max_chunk_rows
          \<or> unat rows > remaining r div 8 div length (table_columns t))) E_format) (\<lambda>_.
      if rows = 0 then
        bindE (ensure (map_of (table_chunks t) cid \<noteq> None) E_format) (\<lambda>_.
        Inr ((), cid # ids, t\<lparr>table_chunks := filter (\<lambda>e. fst e \<noteq> cid) (table_chunks t)\<rparr>, images, r))
      else
        bindE (timesE (unat rows) (read_change_row f reg (table_columns t)) (table_next_rowid t, r))
          (\<lambda>(read, next_rowid, r).
        let c = refresh_chunk ((new_chunk images)\<lparr>chunk_rows := map snd read, chunk_rowids := map fst read\<rparr>) in
        Inr ((), cid # ids, t\<lparr>table_chunks := assign cid c (table_chunks t), table_next_rowid := next_rowid\<rparr>,
          Suc images, r))))))"

definition read_table_change ::
    "Features \<Rightarrow> Registry \<Rightarrow> Tables \<Rightarrow> string list \<times> State \<times> Reader \<Rightarrow> (unit \<times> string list \<times> State \<times> Reader) result" where
  "read_table_change f reg base s =
     (case s of (seen, next, r) \<Rightarrow>
      bindE (get_string r) (\<lambda>(name, r).
      bindE (ensure (\<not> (name = [] \<or> name \<in> set seen)) E_format) (\<lambda>_.
      let images = state_images next;
          t = (case map_of base name of None \<Rightarrow> empty_table images | Some old \<Rightarrow> old\<lparr>table_image := images\<rparr>) in
      bindE (read_schema f reg r) (\<lambda>(declared, r).
      bindE (if map_of base name \<noteq> None then
               bindE (ensure (\<not> (length (table_columns declared) < length (table_columns t)
                   \<or> take (length (table_columns t)) (table_columns declared) \<noteq> table_columns t)) E_format) (\<lambda>_.
               ensure (\<not> (length (table_columns declared) \<noteq> length (table_columns t) \<and> \<not> is_extended f)) E_format)
             else Inr ()) (\<lambda>_.
      let t = t\<lparr>table_constraints := table_constraints declared, table_columns := table_columns declared,
                table_definitions := table_definitions declared\<rparr> in
      bindE (reader_u64 r) (\<lambda>(next_id, r).
      bindE (ensure (\<not> next_id < table_next_chunk t) E_format) (\<lambda>_.
      let t = t\<lparr>table_next_chunk := next_id\<rparr> in
      bindE (if is_extended f then
               bindE (reader_u64 r) (\<lambda>(next_rowid, r).
               bindE (ensure (\<not> (next_rowid < table_next_rowid t \<or> next_rowid > INT64_MAX)) E_format) (\<lambda>_.
               Inr (t\<lparr>table_next_rowid := next_rowid\<rparr>, r)))
             else Inr (t, r)) (\<lambda>(t, r).
      bindE (get_count r) (\<lambda>(chunks, r).
      bindE (timesE chunks (read_change_chunk f reg) ([], t, Suc images, r)) (\<lambda>(_, _, t, images, r).
      bindE (ensure (distinct (concat (map (\<lambda>e. chunk_rowids (snd e)) (table_chunks t)))) E_format) (\<lambda>_.
      bindE (ensure (list_all (\<lambda>e. list_all (\<lambda>row. length row = length (table_columns t)) (chunk_rows (snd e)))
          (table_chunks t)) E_format) (\<lambda>_.
      Inr ((), name # seen,
        next\<lparr>state_tables := assign name (refresh_table t) (state_tables next), state_images := images\<rparr>, r)))))))))))))"

definition apply_changes :: "State \<Rightarrow> bytes \<Rightarrow> Registry \<Rightarrow> State result" where
  "apply_changes base bs reg =
     bindE (validate_snapshot bs) (\<lambda>_.
     bindE (get_string (take (length bs - 8) bs)) (\<lambda>(format, r).
     bindE (change_features format) (\<lambda>f.
     bindE (get_count r) (\<lambda>(tables, r).
     bindE (timesE tables (read_table_change f reg (state_tables base)) ([], base, r)) (\<lambda>(_, _, next, r).
     bindE (reader_end r) (\<lambda>_.
     bindE (checkpoint_size next) (\<lambda>_.
     Inr (next\<lparr>state_stats := measure_state next\<rparr>))))))))"

section \<open>Streaming a checkpoint\<close>

text \<open>
  The encoder keeps the running checksum and size, a small buffer, and the
  blocks handed to the sink so far. It notes where each chunk record lies.
\<close>

record Emitter =
  em_hash :: u64
  em_size :: nat
  em_buffer :: bytes
  em_sink :: "bytes list"
  em_notes :: "(nat \<times> nat \<times> nat) list"

definition buffer_limit :: nat where
  "buffer_limit = 64 * 1024"

definition em_flush :: "Emitter \<Rightarrow> Emitter" where
  "em_flush em = (if em_buffer em \<noteq> [] then em\<lparr>em_sink := em_sink em @ [em_buffer em], em_buffer := []\<rparr> else em)"

definition emit :: "bytes \<Rightarrow> Emitter \<Rightarrow> Emitter result" where
  "emit bs em =
     bindE (ensure (\<not> (length bs > max_encoded_bytes - 8
         \<or> em_size em > max_encoded_bytes - 8 - length bs)) E_format) (\<lambda>_.
     let em = em\<lparr>em_size := em_size em + length bs, em_hash := foldl fnv_step (em_hash em) bs\<rparr>;
         em = (if length (em_buffer em) + length bs > buffer_limit then em_flush em else em) in
     Inr (if length bs \<ge> buffer_limit then em\<lparr>em_sink := em_sink em @ [bs]\<rparr>
          else em\<lparr>em_buffer := em_buffer em @ bs\<rparr>))"

definition emit_number :: "u64 \<Rightarrow> Emitter \<Rightarrow> Emitter result" where
  "emit_number v em = emit (enc_u64 v) em"

definition emit_field :: "bytes \<Rightarrow> Emitter \<Rightarrow> Emitter result" where
  "emit_field bs em = bindE (emit_number (of_nat (length bs)) em) (emit bs)"

definition emit_chunk :: "(nat \<Rightarrow> bytes list option) \<Rightarrow> u64 \<times> Chunk \<Rightarrow> Emitter \<Rightarrow> Emitter result" where
  "emit_chunk reuse e em =
     (case e of (cid, c) \<Rightarrow>
      let start = em_size em in
      bindE (case reuse (chunk_image c) of
               Some blocks \<Rightarrow> foldE emit blocks em
             | None \<Rightarrow>
                 bindE (emit_number cid em) (\<lambda>em.
                 bindE (emit_number (of_nat (length (chunk_rows c))) em) (\<lambda>em.
                 foldE (\<lambda>i em.
                   bindE (emit_number (chunk_rowids c ! i) em) (\<lambda>em.
                   foldE (emit_value emit_number emit_field) (chunk_rows c ! i) em))
                   [0..<length (chunk_rows c)] em))) (\<lambda>em.
      Inr (em\<lparr>em_notes := em_notes em @ [(chunk_image c, start, em_size em - start)]\<rparr>)))"

definition emit_table :: "(nat \<Rightarrow> bytes list option) \<Rightarrow> string \<times> Table \<Rightarrow> Emitter \<Rightarrow> Emitter result" where
  "emit_table reuse e em =
     (case e of (name, t) \<Rightarrow>
      bindE (emit_field (view name) em) (\<lambda>em.
      bindE (write_schema t []) (\<lambda>schema.
      bindE (emit schema em) (\<lambda>em.
      bindE (emit_number (table_next_chunk t) em) (\<lambda>em.
      bindE (emit_number (table_next_rowid t) em) (\<lambda>em.
      bindE (emit_number (of_nat (length (table_chunks t))) em) (\<lambda>em.
      foldE (emit_chunk reuse) (table_chunks t) em)))))))"

definition encode_checkpoint :: "State \<Rightarrow> (nat \<Rightarrow> bytes list option) \<Rightarrow> Emitter result" where
  "encode_checkpoint s reuse =
     bindE (checkpoint_size s) (\<lambda>_.
     bindE (emit_field (view ''CORECHG8'')
       \<lparr>em_hash = fnv_offset, em_size = 0, em_buffer = [], em_sink = [], em_notes = []\<rparr>) (\<lambda>em.
     bindE (emit_number (of_nat (length (state_tables s))) em) (\<lambda>em.
     bindE (foldE (emit_table reuse) (state_tables s) em) (\<lambda>em.
     let em = em_flush em in
     Inr (em\<lparr>em_sink := em_sink em @ [enc_u64 (em_hash em)]\<rparr>)))))"

section \<open>Cached pages\<close>

definition encode_page :: "Chunk \<Rightarrow> bytes result" where
  "encode_page c =
     bindE (put_size (length (chunk_rows c)) []) (\<lambda>out.
     bindE (put_size (length (chunk_slots c)) out) (\<lambda>out.
     bindE (foldE (\<lambda>s out. put_u64 (ucast s) out) (chunk_slots c) out) (\<lambda>out.
     bindE (write_rows c out) (\<lambda>out.
     put_u64 (checksum out) out))))"

definition read_slot :: "u32 list \<times> Reader \<Rightarrow> (u32 \<times> u32 list \<times> Reader) result" where
  "read_slot s =
     (case s of (slots, r) \<Rightarrow>
      bindE (reader_u64 r) (\<lambda>(slot, r).
      bindE (ensure (\<not> (slot > ucast UINT32_MAX \<or> (slots \<noteq> [] \<and> slot \<le> ucast (last slots)))) E_format) (\<lambda>_.
      Inr (ucast slot, slots @ [ucast slot], r))))"

fun read_page_cells :: "Registry \<Rightarrow> Column list \<Rightarrow> Reader \<Rightarrow> (Row \<times> Reader) result" where
  "read_page_cells reg [] r = Inr ([], r)"
| "read_page_cells reg (c # cs) r =
     bindE (read_value (column_type c) reg True r) (\<lambda>(v, r).
     bindE (read_page_cells reg cs r) (\<lambda>(row, r). Inr (v # row, r)))"

definition read_page_row :: "Registry \<Rightarrow> Column list \<Rightarrow> Reader \<Rightarrow> ((i64 \<times> Row) \<times> Reader) result" where
  "read_page_row reg columns r =
     bindE (reader_u64 r) (\<lambda>(rowid, r).
     bindE (read_page_cells reg columns r) (\<lambda>(row, r). Inr ((rowid, row), r)))"

definition decode_page :: "bytes \<Rightarrow> Column list \<Rightarrow> Registry \<Rightarrow> nat \<Rightarrow> Chunk result" where
  "decode_page bs columns reg img =
     bindE (validate_snapshot bs) (\<lambda>_.
     bindE (reader_u64 (take (length bs - 8) bs)) (\<lambda>(rows, r).
     bindE (reader_u64 r) (\<lambda>(slots, r).
     bindE (ensure (\<not> (unat rows > max_chunk_rows \<or> (slots \<noteq> 0 \<and> slots \<noteq> rows))) E_format) (\<lambda>_.
     bindE (timesE (unat slots) read_slot ([], r)) (\<lambda>(_, slots, r).
     bindE (timesE (unat rows) (read_page_row reg columns) r) (\<lambda>(read, r).
     bindE (reader_end r) (\<lambda>_.
     Inr (refresh_chunk ((new_chunk img)\<lparr>chunk_rows := map snd read, chunk_rowids := map fst read,
       chunk_slots := slots\<rparr>)))))))))"

end
