(* ===== verification/Codec_Bytes.thy ===== *)
theory Codec_Bytes
  imports Snapshot_Apply Hash_Index_Spec Chunk_Map_Spec
begin

text \<open>
  Reference encodings for src/snapshot.cpp: the bytes of each item as a pure
  function of it, and that every writer either fails or appends exactly them.
\<close>

section \<open>Reference encodings\<close>

text \<open>What each writer appends, as a function of the item alone.\<close>

definition size_bytes :: "nat \<Rightarrow> bytes" where
  "size_bytes n = enc_u64 (of_nat n)"

definition field_bytes :: "bytes \<Rightarrow> bytes" where
  "field_bytes bs = size_bytes (length bs) @ bs"

definition value_bytes :: "Value \<Rightarrow> bytes" where
  "value_bytes v = enc_u64 (of_bool (is_null v)) @
     (case v of VInt i \<Rightarrow> enc_u64 i | VReal d \<Rightarrow> enc_u64 d | VText s \<Rightarrow> field_bytes (view s)
      | Opaque _ bs \<Rightarrow> field_bytes bs | Compact _ bs \<Rightarrow> field_bytes bs | Null _ \<Rightarrow> [])"

definition type_bytes :: "Type \<Rightarrow> bytes" where
  "type_bytes t = field_bytes (view (type_id t)) @ enc_u64 (ucast (type_version t)) @ field_bytes (type_parameters t)"

fun expr_bytes :: "Expr \<Rightarrow> bytes" where
  "expr_bytes (Expr kind name v arguments qualifier subquery dist parameters) =
     size_bytes (kind_number kind) @ field_bytes (view name)
     @ (if kind = K_literal then type_bytes (type_of v) @ value_bytes v else [])
     @ size_bytes (length arguments) @ concat (map expr_bytes arguments)"

definition list_bytes :: "('a \<Rightarrow> bytes) \<Rightarrow> 'a list \<Rightarrow> bytes" where
  "list_bytes f xs = size_bytes (length xs) @ concat (map f xs)"

definition column_bytes :: "Column \<Rightarrow> bytes" where
  "column_bytes c = field_bytes (view (column_name c)) @ type_bytes (column_type c)
     @ enc_u64 (of_bool (column_primary_key c)) @ enc_u64 (of_bool (column_nullable c))
     @ field_bytes (view (column_index c)) @ enc_u64 (of_bool (column_default c \<noteq> None))
     @ (case column_default c of None \<Rightarrow> [] | Some v \<Rightarrow> value_bytes v)"

definition directions :: "IndexDefinition \<Rightarrow> bool list" where
  "directions d = (if index_descending d = [] then replicate (length (index_columns d)) False else index_descending d)"

definition definition_bytes :: "IndexDefinition \<Rightarrow> bytes" where
  "definition_bytes d = field_bytes (view (index_name d))
     @ enc_u64 (of_bool (index_is_unique d) OR (if index_constraint_owned d then 2 else 0))
     @ list_bytes (\<lambda>(c, b). field_bytes (view c) @ enc_u64 (of_bool b)) (zip (index_columns d) (directions d))"

definition names_bytes :: "string list \<Rightarrow> bytes" where
  "names_bytes = list_bytes (\<lambda>n. field_bytes (view n))"

definition check_bytes :: "CheckConstraint \<Rightarrow> bytes" where
  "check_bytes c = field_bytes (view (check_name c)) @ expr_bytes (check_expression c)"

definition foreign_key_bytes :: "ForeignKey \<Rightarrow> bytes" where
  "foreign_key_bytes k = field_bytes (view (fk_name k)) @ field_bytes (view (fk_table k))
     @ names_bytes (fk_columns k) @ names_bytes (fk_referenced k)"

definition schema_bytes :: "Table \<Rightarrow> bytes" where
  "schema_bytes t = list_bytes column_bytes (table_columns t) @ list_bytes definition_bytes (table_definitions t)
     @ list_bytes check_bytes (checks_of (table_constraints t))
     @ list_bytes foreign_key_bytes (foreign_keys_of (table_constraints t))"

definition row_bytes :: "i64 \<times> Row \<Rightarrow> bytes" where
  "row_bytes e = enc_u64 (fst e) @ concat (map value_bytes (snd e))"

definition rows_bytes :: "Chunk \<Rightarrow> bytes" where
  "rows_bytes c = concat (map row_bytes (zip (chunk_rowids c) (chunk_rows c)))"

definition chunk_change_bytes :: "u64 \<times> Chunk option \<Rightarrow> bytes" where
  "chunk_change_bytes e = enc_u64 (fst e) @ (case snd e of None \<Rightarrow> size_bytes 0
     | Some c \<Rightarrow> size_bytes (length (chunk_rows c)) @ rows_bytes c)"

section \<open>The writers produce them\<close>

text \<open>
  A writer that either fails or appends the given bytes, and that fails on
  one output but not on another only where the record would grow too long.
\<close>

definition appends :: "(bytes \<Rightarrow> bytes result) \<Rightarrow> bytes \<Rightarrow> bool" where
  "appends w bs \<longleftrightarrow> (\<forall>out out'. w out = Inr out' \<longrightarrow> out' = out @ bs
     \<and> (\<forall>p. length p + length bs \<le> max_encoded_bytes - 8 \<longrightarrow> w p = Inr (p @ bs)))"

named_theorems appends_intros \<open>writers and the bytes they append\<close>

lemma appendsD: "appends w bs \<Longrightarrow> w out = Inr out' \<Longrightarrow> out' = out @ bs"
  unfolding appends_def by blast

lemma appends_moved:
  "appends w bs \<Longrightarrow> w out = Inr out' \<Longrightarrow> length p + length bs \<le> max_encoded_bytes - 8 \<Longrightarrow> w p = Inr (p @ bs)"
  unfolding appends_def by blast

lemma appends_eq: "appends w bs \<Longrightarrow> (\<And>out. w' out = w out) \<Longrightarrow> bs' = bs \<Longrightarrow> appends w' bs'"
  using ext [of w' w] by blast

lemma appends_bind [appends_intros]:
  assumes "appends v as" "appends w bs"
  shows "appends (\<lambda>out. bindE (v out) w) (as @ bs)"
  unfolding appends_def
proof (intro allI impI)
  fix out out'
  assume "bindE (v out) w = Inr out'"
  then obtain mid where m: "v out = Inr mid" "w mid = Inr out'" by (auto simp: bindE_Inr_iff)
  have "out' = out @ as @ bs" using appendsD [OF assms(1) m(1)] appendsD [OF assms(2) m(2)] by simp
  moreover have "bindE (v p) w = Inr (p @ as @ bs)" if "length p + length (as @ bs) \<le> max_encoded_bytes - 8" for p
    using appends_moved [OF assms(1) m(1), of p] appends_moved [OF assms(2) m(2), of "p @ as"] that by simp
  ultimately show "out' = out @ as @ bs \<and> (\<forall>p. length p + length (as @ bs) \<le> max_encoded_bytes - 8
      \<longrightarrow> bindE (v p) w = Inr (p @ as @ bs))" by blast
qed

lemma appends_check [appends_intros]:
  assumes "\<And>x. appends (w x) bs"
  shows "appends (\<lambda>out. bindE m (\<lambda>x. w x out)) bs"
  using assms unfolding appends_def by (fastforce simp: bindE_Inr_iff)

lemma appends_return [appends_intros]: "appends Inr []"
  by (simp add: appends_def)

lemma appends_u64 [appends_intros]: "appends (put_u64 n) (enc_u64 n)"
  by (simp add: appends_def put_u64_def)

lemma appends_size [appends_intros]: "appends (put_size n) (size_bytes n)"
  by (simp add: appends_def put_size_def put_u64_def size_bytes_def)

lemma appends_field [appends_intros]: "appends (put_field bs) (field_bytes bs)"
  by (auto simp: appends_def put_field_def field_bytes_def size_bytes_def bindE_Inr_iff ensure_Inr_iff)

lemma appends_fold [appends_intros]:
  assumes "\<And>x. x \<in> set xs \<Longrightarrow> appends (f x) (g x)"
  shows "appends (\<lambda>out. foldE f xs out) (concat (map g xs))"
  using assms
proof (induction xs)
  case Nil
  then show ?case by (simp add: appends_def)
next
  case (Cons x xs)
  then have "appends (\<lambda>out. bindE (f x out) (\<lambda>out. foldE f xs out)) (g x @ concat (map g xs))"
    by (intro appends_bind) auto
  then show ?case by simp
qed

lemma appends_list [appends_intros]:
  assumes "\<And>x. x \<in> set xs \<Longrightarrow> appends (f x) (g x)"
  shows "appends (\<lambda>out. bindE (put_size (length xs) out) (\<lambda>out. foldE f xs out)) (list_bytes g xs)"
  unfolding list_bytes_def by (intro appends_bind appends_size appends_fold assms)

lemma enc_le_word: "length bs = 8 \<Longrightarrow> enc_u64 (le_word bs) = bs"
  using le_bytes_le_word [of bs, where 'a = 64] by (simp add: enc_u64_def)

lemma appends_value [appends_intros]: "appends (write_value v) (value_bytes v)"
  unfolding appends_def
  by (cases v) (auto simp: write_value_def emit_value_def value_bytes_def put_u64_def put_field_def
      field_bytes_def size_bytes_def bindE_Inr_iff ensure_Inr_iff i64_payload_def enc_le_word)

lemma appends_type [appends_intros]: "appends (put_type t) (type_bytes t)"
  unfolding put_type_def [abs_def] type_bytes_def by (intro appends_bind appends_field appends_u64)

lemma appends_expr [appends_intros]: "appends (write_expr e) (expr_bytes e)"
proof (induction e rule: expr_bytes.induct)
  case (1 kind name v arguments qualifier subquery dist parameters)
  have L: "appends (\<lambda>out. if kind = K_literal then bindE (put_type (type_of v) out) (write_value v) else Inr out)
      (if kind = K_literal then type_bytes (type_of v) @ value_bytes v else [])"
    using appends_bind [OF appends_type appends_value, of "type_of v" v] appends_return
    by (cases "kind = K_literal") simp_all
  have F: "appends (\<lambda>out. foldE write_expr arguments out) (concat (map expr_bytes arguments))"
    by (rule appends_fold) (rule 1)
  have "appends (\<lambda>out. bindE (put_size (kind_number kind) out) (\<lambda>out.
     bindE (put_field (view name) out) (\<lambda>out.
     bindE (if kind = K_literal then bindE (put_type (type_of v) out) (write_value v) else Inr out) (\<lambda>out.
     bindE (put_size (length arguments) out) (\<lambda>out.
     foldE write_expr arguments out)))))
     (size_bytes (kind_number kind) @ field_bytes (view name)
     @ (if kind = K_literal then type_bytes (type_of v) @ value_bytes v else [])
     @ size_bytes (length arguments) @ concat (map expr_bytes arguments))"
    by (rule appends_bind [OF appends_size appends_bind [OF appends_field
        appends_bind [OF L appends_bind [OF appends_size F]]]])
  then show ?case by (rule appends_eq) simp_all
qed

lemma appends_column [appends_intros]: "appends (write_column c) (column_bytes c)"
proof -
  have "appends (\<lambda>out. case column_default c of None \<Rightarrow> Inr out | Some v \<Rightarrow> write_value v out)
      (case column_default c of None \<Rightarrow> [] | Some v \<Rightarrow> value_bytes v)"
    using appends_value appends_return by (cases "column_default c") simp_all
  then show ?thesis
    unfolding write_column_def [abs_def] column_bytes_def by (intro appends_bind appends_field appends_type appends_u64)
qed

lemma appends_names [appends_intros]: "appends (write_names ns) (names_bytes ns)"
  unfolding write_names_def [abs_def] names_bytes_def by (intro appends_list appends_field)

lemma appends_check_constraint [appends_intros]: "appends (write_check c) (check_bytes c)"
  unfolding write_check_def [abs_def] check_bytes_def by (intro appends_bind appends_field appends_check appends_expr)

lemma appends_foreign_key [appends_intros]: "appends (write_foreign_key k) (foreign_key_bytes k)"
  unfolding write_foreign_key_def [abs_def] foreign_key_bytes_def by (intro appends_bind appends_field appends_names)

lemma appends_definition [appends_intros]:
  assumes "index_descending d = [] \<or> length (index_descending d) = length (index_columns d)"
  shows "appends (write_definition d) (definition_bytes d)"
proof -
  let ?g = "\<lambda>(c, b). field_bytes (view c) @ enc_u64 (of_bool b)"
  let ?zs = "zip (index_columns d) (directions d)"
  have len: "length (directions d) = length (index_columns d)" using assms by (auto simp: directions_def)
  have "concat (map ?g ?zs) = concat (map (\<lambda>i. ?g (?zs ! i)) [0..<length ?zs])"
    by (metis (no_types, lifting) map_nth map_map comp_def map_eq_conv)
  then have eq: "concat (map ?g ?zs) = concat (map (\<lambda>i. field_bytes (view (index_columns d ! i))
      @ enc_u64 (of_bool (index_descending d \<noteq> [] \<and> index_descending d ! i))) [0..<length (index_columns d)])"
    using len by (auto simp: directions_def intro!: arg_cong [where f = concat])
  show ?thesis
    unfolding write_definition_def [abs_def] definition_bytes_def list_bytes_def eq using len
    by (auto intro!: appends_bind appends_field appends_u64 appends_size appends_fold)
qed

lemma appends_schema:
  assumes "\<forall>d \<in> set (table_definitions t). index_descending d = [] \<or> length (index_descending d) = length (index_columns d)"
  shows "appends (write_schema t) (schema_bytes t)"
  unfolding write_schema_def [abs_def] schema_bytes_def list_bytes_def append_assoc
  using assms by (intro appends_bind appends_size appends_fold appends_column appends_definition
      appends_check_constraint appends_foreign_key) auto

end
