(* ===== verification/Codec_Readers.thy ===== *)
theory Codec_Readers
  imports Codec_Bytes
begin

text \<open>
  The readers of src/snapshot.cpp invert the reference encodings: fields,
  values, check expressions, schemas and rows read back as they were written,
  whatever bytes follow.
\<close>

section \<open>The readers accept them\<close>

lemma unat_size [simp]: "n < 2 ^ 64 \<Longrightarrow> unat (of_nat n :: u64) = n"
  by (simp add: unat_of_nat)

lemma length_size_bytes [simp]: "length (size_bytes n) = 8"
  by (simp add: size_bytes_def)

lemma length_field_bytes [simp]: "length (field_bytes bs) = 8 + length bs"
  by (simp add: field_bytes_def)

lemma length_list_bytes: "length (list_bytes f xs) = 8 + sum_list (map (\<lambda>x. length (f x)) xs)"
  by (simp add: list_bytes_def length_concat comp_def)

lemma get_field_bytes [codec_simps]: "length bs < 2 ^ 64 \<Longrightarrow> get_field (field_bytes bs @ r) = Inr (bs, r)"
  by (simp add: get_field_def field_bytes_def size_bytes_def remaining_def)

lemma get_string_bytes [codec_simps]: "length s < 2 ^ 64 \<Longrightarrow> get_string (field_bytes (view s) @ r) = Inr (s, r)"
  by (simp add: get_string_def codec_simps)

lemma get_count_bytes [codec_simps]:
  "n < 2 ^ 64 \<Longrightarrow> 8 * n \<le> length r \<Longrightarrow> get_count (size_bytes n @ r) = Inr (n, r)"
  by (simp add: get_count_def size_bytes_def remaining_def less_eq_div_iff_mult_less_eq)

lemma get_flag_bytes [codec_simps]: "get_flag (enc_u64 (of_bool b) @ r) = Inr (b, r)"
  by (simp add: get_flag_def)

lemma timesE_codec:
  assumes "\<And>x r. x \<in> set xs \<Longrightarrow> f (enc x @ r) = Inr (x, r)"
  shows "timesE (length xs) f (concat (map enc xs) @ r) = Inr (xs, r)"
  using assms by (induction xs) auto

lemma timesE_fold:
  assumes "\<And>x s s' r. x \<in> set xs \<Longrightarrow> v x s = Inr s' \<Longrightarrow> f (s, enc x @ r) = Inr (x, s', r)"
    and "foldE v xs s = Inr s'"
  shows "timesE (length xs) f (s, concat (map enc xs) @ r) = Inr (xs, s', r)"
  using assms
proof (induction xs arbitrary: s)
  case (Cons x xs)
  then obtain t where t: "v x s = Inr t" "foldE v xs t = Inr s'" by (auto simp: bindE_Inr_iff)
  have "f (s, enc x @ concat (map enc xs) @ r) = Inr (x, t, concat (map enc xs) @ r)"
    using Cons.prems(1) t(1) by simp
  moreover have "timesE (length xs) f (t, concat (map enc xs) @ r) = Inr (xs, s', r)"
    using Cons.IH [OF _ t(2)] Cons.prems(1) by simp
  ultimately show ?case by simp
qed simp

text \<open>A counted list: the count is accepted because every item takes at least eight bytes.\<close>

lemma items_length: "\<forall>x \<in> set xs. 8 \<le> length (f x) \<Longrightarrow> 8 * length xs \<le> length (concat (map f xs))"
  by (induction xs) auto

lemma get_count_list:
  assumes "length (list_bytes f xs) < 2 ^ 64" "\<forall>x \<in> set xs. 8 \<le> length (f x)"
  shows "get_count (list_bytes f xs @ r) = Inr (length xs, concat (map f xs) @ r)"
  using assms items_length [OF assms(2)] by (simp add: list_bytes_def codec_simps)

lemma item_length: "x \<in> set xs \<Longrightarrow> length (f x) \<le> length (concat (map f xs))"
  by (induction xs) auto

lemma list_item_small: "length (list_bytes f xs) < n \<Longrightarrow> x \<in> set xs \<Longrightarrow> length (f x) < n"
  using item_length [of x xs f] by (simp add: list_bytes_def)

subsection \<open>Values\<close>

lemma length_value_bytes: "8 \<le> length (value_bytes v)"
  by (simp add: value_bytes_def)

lemma value_bytes_length: "value_wf v \<Longrightarrow> length (value_bytes v) = 8 + value_payload v + value_prefix v"
  by (cases v) (auto simp: value_bytes_def value_payload_def value_prefix_def value_wf_def)

lemma compact_eight: "length bs = 8 \<Longrightarrow> \<exists>n. bs = enc_u64 n"
  using enc_le_word by metis

lemma read_value_bytes [codec_simps]:
  assumes "registry_validate reg v t = Inr ()" "value_wf v" "length (value_bytes v) < 2 ^ 64"
  shows "read_value t reg True (value_bytes v @ r) = Inr (v, r)"
proof (cases "is_null v")
  case True
  then show ?thesis
    using assms(1) by (auto simp: is_null_iff read_value_def value_bytes_def registry_validate_def check_value_def
        result_simps codec_simps get_flag_def)
next
  case False
  obtain a where a: "registry_addon reg t = Inr a" "holds_layout a t v"
    using assms(1) False by (auto simp: registry_validate_def check_value_def result_simps split: if_splits)
  have nd: "reject_default_identity u = Inr ()" if "v = Compact u bs" for u bs
    using that assms(2) by (simp add: value_wf_def reject_default_identity_def ensure_def)
  show ?thesis
  proof (cases v)
    case (Compact u bs)
    then have u: "u = t" and l: "addon_layout a = L_i64 \<and> length bs = 8 \<and> t \<noteq> integer_type \<or> addon_layout a = L_i128 \<and> length bs = 16"
      using a(2) by (auto simp: holds_layout_def split: Layout.splits if_splits)
    show ?thesis
    proof (cases "length bs = 8")
      case True
      then obtain n where n: "bs = enc_u64 n" using compact_eight by blast
      show ?thesis
        using l True a(1) nd [OF Compact] assms(3) reader_u64_enc [of n "[]"]
        by (simp add: Compact u read_value_def value_bytes_def get_flag_def codec_simps compact_i64_def n)
    next
      case False
      then show ?thesis
        using l a(1) nd [OF Compact] assms(3)
        by (auto simp: Compact u read_value_def value_bytes_def get_flag_def codec_simps compact_i128_def)
    qed
  qed (use a assms(3) in \<open>auto simp: read_value_def value_bytes_def get_flag_def codec_simps holds_layout_def
      split: Layout.splits if_splits\<close>)
qed

subsection \<open>Check expressions\<close>

lemma length_type_bytes: "24 \<le> length (type_bytes t)"
  by (simp add: type_bytes_def)

lemma length_expr_bytes: "24 \<le> length (expr_bytes e)"
  by (cases e) simp

lemma length_expr_bytes8: "8 \<le> length (expr_bytes e)"
  using length_expr_bytes [of e] by simp

lemma kinds_number [simp]: "expr_kinds ! kind_number k = k" "kind_number k \<le> 10"
  by (cases k; simp add: expr_kinds_def)+

lemma kind_words [simp]:
  "unat (of_nat (kind_number k) :: u64) = kind_number k" "\<not> (10 :: u64) < of_nat (kind_number k)"
  by (cases k; simp)+

lemma literal_kind [simp]: "expr_kinds ! Suc 0 = K_literal"
  by (simp add: expr_kinds_def)

lemma version_roundtrip [simp]:
  "(ucast (ucast (n :: u32) :: u64) :: u32) = n" "(ucast n :: u64) = 0 \<longleftrightarrow> n = 0" "\<not> 4294967295 < (ucast n :: u64)"
proof -
  have l: "unat n < 2 ^ LENGTH(32)" by (rule unsigned_less)
  have u: "unat (ucast n :: u64) = unat n"
    using l by (simp add: unsigned_ucast_eq take_bit_nat_eq_self_iff)
  show i: "(ucast (ucast n :: u64) :: u32) = n" by (rule bit_word_eqI) (simp add: bit_simps)
  show "(ucast n :: u64) = 0 \<longleftrightarrow> n = 0" using i by (metis unsigned_0)
  have "unat n \<le> unat UINT32_MAX" using l by simp
  then show "\<not> 4294967295 < (ucast n :: u64)" using u by (simp add: not_less word_le_nat_alt)
qed

lemma validated_type:
  assumes "registry_ok reg" "registry_validate reg v t = Inr ()"
  shows "registry_validate_type reg t = Inr () \<and> type_version t \<noteq> 0"
proof -
  obtain a where a: "registry_addon reg t = Inr a" "registry_validate_type reg t = Inr ()"
    using assms(2) by (auto simp: registry_validate_def registry_validate_type_def result_simps)
  then have "addon_ok (type_id t, type_version t) a"
    using assms(1) by (auto simp: registry_addon_def registry_ok_def split: option.splits)
  then show ?thesis using a(2) by (auto simp: addon_ok_def)
qed

fun expr_ok :: "Registry \<Rightarrow> Expr \<Rightarrow> bool" where
  "expr_ok reg (Expr kind name v arguments qualifier subquery dist parameters) \<longleftrightarrow>
     (if kind = K_literal then registry_validate reg v (type_of v) = Inr () \<and> value_wf v else v = VInt 0)
     \<and> (\<forall>e \<in> set arguments. expr_ok reg e)"

lemma visit_check_bounds: "visit_check e depth nodes = Inr n \<Longrightarrow> nodes < n \<and> n \<le> 4096 \<and> depth \<le> 64"
proof (induction e depth nodes arbitrary: n rule: visit_check.induct)
  case (1 kind name v arguments qualifier subquery dist parameters depth nodes)
  have s: "Suc nodes \<le> 4096" "depth \<le> 64"
    "foldE (\<lambda>child nodes. visit_check child (Suc depth) nodes) arguments (Suc nodes) = Inr n"
    and e: "\<not> (Suc nodes > 4096 \<or> depth > 64)" "\<not> (subquery \<noteq> None \<or> qualifier \<noteq> [] \<or> parameters \<noteq> [] \<or> dist \<or> kind \<notin> allowed_in_check)"
    using "1.prems" by (auto simp: result_simps)
  have IH: "m < k \<and> k \<le> 4096 \<and> Suc depth \<le> 64" if "x \<in> set arguments" "visit_check x (Suc depth) m = Inr k" for x m k
    by (rule "1.IH" [of "()" "()" x m k]) (simp_all only: e that ensure_simps not_False_eq_True simp_thms)
  have "Suc nodes \<le> n \<and> n \<le> 4096"
  proof (rule foldE_invariant [OF s(3), of "\<lambda>m. Suc nodes \<le> m \<and> m \<le> 4096"])
    show "Suc nodes \<le> k \<and> k \<le> 4096" if "x \<in> set arguments" "Suc nodes \<le> m \<and> m \<le> 4096" "visit_check x (Suc depth) m = Inr k" for x m k
      using IH [OF that(1,3)] that(2) by linarith
  qed (use s(1) in simp)
  then show ?case using s(2) by simp
qed

lemma visit_children:
  assumes "foldE (\<lambda>child nodes. visit_check child depth nodes) es m = Inr n" "m \<le> 4096"
  shows "m + length es \<le> n \<and> n \<le> 4096"
  using assms
proof (induction es arbitrary: m)
  case (Cons e es)
  then obtain k where k: "visit_check e depth m = Inr k" "foldE (\<lambda>child nodes. visit_check child depth nodes) es k = Inr n"
    by (auto simp: bindE_Inr_iff)
  then show ?case using visit_check_bounds [OF k(1)] Cons.IH [OF k(2)] by auto
qed simp

lemma read_expr_bytes:
  assumes "visit_check e depth nodes = Inr n" "expr_ok reg e" "length (expr_bytes e) < 2 ^ 64" and R: "registry_ok reg"
  shows "read_expr (65 - depth) reg (nodes, expr_bytes e @ r) = Inr (e, n, r)"
  using assms(1-3)
proof (induction e depth nodes arbitrary: n r rule: visit_check.induct)
  case (1 kind name v arguments qualifier subquery dist parameters depth nodes)
  let ?rest = "concat (map expr_bytes arguments)"
  have s: "Suc nodes \<le> 4096" "depth \<le> 64" "subquery = None" "qualifier = []" "parameters = []" "\<not> dist"
    "foldE (\<lambda>child nodes. visit_check child (Suc depth) nodes) arguments (Suc nodes) = Inr n"
    using "1.prems"(1) by (auto simp: result_simps)
  have small: "length name < 2 ^ 64" "length ?rest < 2 ^ 64" "\<forall>e \<in> set arguments. length (expr_bytes e) < 2 ^ 64"
    using "1.prems"(3) item_length [of _ arguments expr_bytes] by fastforce+
  have width: "length arguments \<le> 4096 - Suc nodes" using visit_children [OF s(7) s(1)] by linarith
  have cnt: "get_count (enc_u64 (of_nat (length arguments)) @ ?rest @ q) = Inr (length arguments, ?rest @ q)" for q
  proof (rule get_count_bytes [unfolded size_bytes_def])
    have "\<forall>x \<in> set arguments. 8 \<le> length (expr_bytes x)" by (simp add: length_expr_bytes8)
    then show "8 * length arguments \<le> length (?rest @ q)" using items_length [of arguments expr_bytes] by simp
  qed (use width in simp)
  have d: "65 - depth = Suc (65 - Suc depth)" using s(2) by simp
  have args: "timesE (length arguments) (read_expr (65 - Suc depth) reg) (Suc nodes, ?rest @ r) = Inr (arguments, n, r)"
  proof (rule timesE_fold [where v = "\<lambda>child nodes. visit_check child (Suc depth) nodes"])
    show "read_expr (65 - Suc depth) reg (m, expr_bytes x @ q) = Inr (x, k, q)"
      if "x \<in> set arguments" "visit_check x (Suc depth) m = Inr k" for x m k q
    proof (rule "1.IH" [of "()" "()"])
      show "ensure (\<not> (4096 < Suc nodes \<or> 64 < depth)) E_schema = Inr ()" using s by simp
      show "ensure (\<not> (subquery \<noteq> None \<or> qualifier \<noteq> [] \<or> parameters \<noteq> [] \<or> dist \<or> kind \<notin> allowed_in_check)) E_unsupported = Inr ()"
        using "1.prems"(1) by (auto simp: result_simps)
    qed (use that "1.prems"(2) small(3) in auto)
  qed (rule s(7))
  show ?case
  proof (cases "kind = K_literal")
    case True
    let ?t = "type_of v"
    have V: "registry_validate reg v ?t = Inr ()" "value_wf v" using "1.prems"(2) True by simp_all
    then have vt: "registry_validate_type reg ?t = Inr ()" "type_version ?t \<noteq> 0"
      using validated_type [OF R] by blast+
    have small': "length (type_id ?t) < 2 ^ 64" "length (type_parameters ?t) < 2 ^ 64" "length (value_bytes v) < 2 ^ 64"
      using "1.prems"(3) True by (simp_all add: type_bytes_def)
    have T: "\<lparr>type_id = type_id ?t, type_version = type_version ?t, type_parameters = type_parameters ?t\<rparr> = ?t" by simp
    show ?thesis
      using s small small' width cnt args V vt True read_value_bytes [OF V small'(3)]
      by (simp add: d codec_simps Let_def size_bytes_def type_bytes_def T)
  next
    case False
    then show ?thesis
      using s small width cnt args "1.prems"(2)
      by (simp add: d codec_simps Let_def size_bytes_def)
  qed
qed

subsection \<open>Schemas\<close>

definition current_features :: Features where
  "current_features = \<lparr>has_primary = True, has_indexes = True, is_extended = True, is_tagged = True,
     is_constrained = True, has_owned_indexes = True\<rparr>"

lemma current_features_sel [simp]:
  "has_primary current_features" "has_indexes current_features" "is_extended current_features"
  "is_tagged current_features" "is_constrained current_features" "has_owned_indexes current_features"
  by (simp_all add: current_features_def)

definition column_ok :: "Registry \<Rightarrow> Column \<Rightarrow> bool" where
  "column_ok reg c \<longleftrightarrow> column_name c \<noteq> [] \<and> registry_validate_type reg (column_type c) = Inr ()
     \<and> (\<forall>v. column_default c = Some v \<longrightarrow> validate_stored reg c v = Inr () \<and> value_wf v)"

definition definition_ok :: "IndexDefinition \<Rightarrow> bool" where
  "definition_ok d \<longleftrightarrow> (index_descending d = [] \<or> length (index_descending d) = length (index_columns d))
     \<and> (index_constraint_owned d \<longrightarrow> index_is_unique d)"

definition definition_normal :: "IndexDefinition \<Rightarrow> IndexDefinition" where
  "definition_normal d = d\<lparr>index_descending := directions d\<rparr>"

definition check_ok :: "Registry \<Rightarrow> CheckConstraint \<Rightarrow> bool" where
  "check_ok reg c \<longleftrightarrow> validate_check_expression (check_expression c) = Inr () \<and> expr_ok reg (check_expression c)"

definition schema_only :: "Table \<Rightarrow> Table" where
  "schema_only t = (empty_table 0)\<lparr>table_columns := table_columns t,
     table_definitions := map definition_normal (table_definitions t), table_constraints := table_constraints t\<rparr>"

definition schema_ok :: "Registry \<Rightarrow> Table \<Rightarrow> bool" where
  "schema_ok reg t \<longleftrightarrow> table_columns t \<noteq> [] \<and> distinct (map column_name (table_columns t))
     \<and> (\<forall>c \<in> set (table_columns t). column_ok reg c) \<and> (\<forall>d \<in> set (table_definitions t). definition_ok d)
     \<and> (\<forall>c \<in> set (checks_of (table_constraints t)). check_ok reg c) \<and> is_ok (make_indexes reg (schema_only t))"

lemma type_version_nonzero:
  assumes "registry_ok reg" "registry_validate_type reg t = Inr ()"
  shows "type_version t \<noteq> 0"
proof -
  obtain a where "registry_addon reg t = Inr a" using assms(2) by (auto simp: registry_validate_type_def result_simps)
  then have "addon_ok (type_id t, type_version t) a"
    using assms(1) by (auto simp: registry_addon_def registry_ok_def split: option.splits)
  then show ?thesis by (auto simp: addon_ok_def)
qed

lemma type_eta [simp]: "\<lparr>type_id = type_id t, type_version = type_version t, type_parameters = type_parameters t\<rparr> = t"
  by simp

lemma validate_stored_default [simp]: "validate_stored reg (c\<lparr>column_default := d\<rparr>) v = validate_stored reg c v"
  by (simp add: validate_stored_def)

lemma column_eta:
  "\<lparr>column_name = column_name c, column_type = column_type c, column_primary_key = column_primary_key c,
    column_index = column_index c, column_default = d, column_nullable = column_nullable c\<rparr> = c\<lparr>column_default := d\<rparr>"
  by simp

lemma get_flag_numbers [codec_simps]:
  "get_flag (enc_u64 1 @ r) = Inr (True, r)" "get_flag (enc_u64 0 @ r) = Inr (False, r)"
  using get_flag_bytes [of True r] get_flag_bytes [of False r] by simp_all

lemma read_column_bytes:
  assumes "registry_ok reg" "column_ok reg c" "column_name c \<notin> set names" "length (column_bytes c) < 2 ^ 64"
  shows "read_column current_features reg (names, column_bytes c @ r) = Inr (c, column_name c # names, r)"
proof -
  let ?t = "column_type c"
  have t: "registry_validate_type reg ?t = Inr ()" "type_version ?t \<noteq> 0"
    using assms(1,2) type_version_nonzero by (auto simp: column_ok_def)
  have small: "length (column_name c) < 2 ^ 64" "length (type_id ?t) < 2 ^ 64" "length (type_parameters ?t) < 2 ^ 64"
    "length (column_index c) < 2 ^ 64" "\<And>v. column_default c = Some v \<Longrightarrow> length (value_bytes v) < 2 ^ 64"
    using assms(4) by (auto simp: column_bytes_def type_bytes_def)
  have default: "validate_stored reg c v = Inr ()" "read_value ?t reg True (value_bytes v @ q) = Inr (v, q)"
    if "column_default c = Some v" for v q
  proof -
    show s: "validate_stored reg c v = Inr ()" using assms(2) that by (simp add: column_ok_def)
    then have "registry_validate reg v ?t = Inr ()" by (auto simp: validate_stored_def result_simps)
    then show "read_value ?t reg True (value_bytes v @ q) = Inr (v, q)"
      using assms(2) that small(5) by (intro read_value_bytes) (auto simp: column_ok_def)
  qed
  show ?thesis
  proof (cases "column_default c")
    case None
    have "c\<lparr>column_default := None\<rparr> = c" using None by simp
    then show ?thesis
      using small t assms(2,3) None
      by (simp add: read_column_def column_bytes_def type_bytes_def codec_simps column_ok_def Let_def column_eta)
  next
    case (Some v)
    have "c\<lparr>column_default := Some v\<rparr> = c" using Some by simp
    then show ?thesis
      using small t assms(2,3) Some default [OF Some]
      by (simp add: read_column_def column_bytes_def type_bytes_def codec_simps column_ok_def Let_def column_eta)
  qed
qed

lemma read_columns_bytes:
  assumes "registry_ok reg" "\<forall>c \<in> set cs. column_ok reg c" "\<forall>c \<in> set cs. length (column_bytes c) < 2 ^ 64"
    and "distinct (map column_name cs)" "\<forall>c \<in> set cs. column_name c \<notin> set names"
  shows "timesE (length cs) (read_column current_features reg) (names, concat (map column_bytes cs) @ r)
    = Inr (cs, rev (map column_name cs) @ names, r)"
  using assms(2-5)
proof (induction cs arbitrary: names)
  case (Cons c cs)
  have "timesE (length cs) (read_column current_features reg) (column_name c # names, concat (map column_bytes cs) @ r)
    = Inr (cs, rev (map column_name cs) @ column_name c # names, r)"
    using Cons.prems by (intro Cons.IH) (auto simp: image_iff)
  then show ?case using read_column_bytes [OF assms(1), of c names] Cons.prems by simp
qed simp

lemma index_flags:
  fixes d
  defines "f \<equiv> (of_bool (index_is_unique d) :: u64) OR (if index_constraint_owned d then 2 else 0)"
  assumes "index_constraint_owned d \<longrightarrow> index_is_unique d"
  shows "\<not> f > 3" "f \<noteq> 2" "(f AND 1 \<noteq> 0) = index_is_unique d" "(f AND 2 \<noteq> 0) = index_constraint_owned d"
  using assms(2) unfolding f_def by (cases "index_is_unique d"; cases "index_constraint_owned d"; simp)+

lemma read_definition_bytes:
  assumes "definition_ok d" "length (definition_bytes d) < 2 ^ 64"
  shows "read_definition True (definition_bytes d @ r) = Inr (definition_normal d, r)"
proof -
  let ?enc = "\<lambda>(c, b). field_bytes (view c) @ enc_u64 (of_bool b)"
  let ?zs = "zip (index_columns d) (directions d)"
  have len: "length (directions d) = length (index_columns d)"
    using assms(1) by (auto simp: directions_def definition_ok_def)
  have small: "length (index_name d) < 2 ^ 64" "length (list_bytes ?enc ?zs) < 2 ^ 64"
    using assms(2) by (simp_all add: definition_bytes_def)
  have "length (view c) < 2 ^ 64" if "(c, b) \<in> set ?zs" for c b
    using list_item_small [OF small(2) that] by simp
  then have items: "timesE (length ?zs) (\<lambda>r. bindE (get_string r) (\<lambda>(c, r). bindE (get_flag r)
      (\<lambda>(descending, r). Inr ((c, descending), r)))) (concat (map ?enc ?zs) @ q) = Inr (?zs, q)" for q
    by (intro timesE_codec) (auto simp: codec_simps)
  have cnt: "get_count (list_bytes ?enc ?zs @ q) = Inr (length ?zs, concat (map ?enc ?zs) @ q)" for q
    using small(2) by (intro get_count_list) auto
  define f :: u64 where "f = of_bool (index_is_unique d) OR (if index_constraint_owned d then 2 else 0)"
  have "index_constraint_owned d \<longrightarrow> index_is_unique d" using assms(1) by (simp add: definition_ok_def)
  note F = index_flags [OF this, folded f_def]
  have eta: "\<lparr>index_name = index_name d, index_columns = map fst ?zs, index_is_unique = index_is_unique d,
      index_descending = map snd ?zs, index_constraint_owned = index_constraint_owned d\<rparr> = definition_normal d"
    using len by (simp add: definition_normal_def)
  have "definition_bytes d = field_bytes (view (index_name d)) @ enc_u64 f @ list_bytes ?enc ?zs"
    by (simp add: definition_bytes_def f_def)
  then show ?thesis
    using F items cnt eta len by (simp add: read_definition_def get_string_bytes [OF small(1)])
qed

lemma read_definitions_bytes:
  assumes "\<forall>d \<in> set ds. definition_ok d" "\<forall>d \<in> set ds. length (definition_bytes d) < 2 ^ 64"
  shows "timesE (length ds) (read_definition True) (concat (map definition_bytes ds) @ r) = Inr (map definition_normal ds, r)"
  using assms by (induction ds) (auto simp: read_definition_bytes)

lemma read_names_bytes:
  assumes "length (names_bytes ns) < 2 ^ 64"
  shows "get_count (names_bytes ns @ r) = Inr (length ns, concat (map (\<lambda>n. field_bytes (view n)) ns) @ r)"
    "timesE (length ns) get_string (concat (map (\<lambda>n. field_bytes (view n)) ns) @ r) = Inr (ns, r)"
proof -
  show "get_count (names_bytes ns @ r) = Inr (length ns, concat (map (\<lambda>n. field_bytes (view n)) ns) @ r)"
    using assms unfolding names_bytes_def by (intro get_count_list) auto
  have "length n < 2 ^ 64" if "n \<in> set ns" for n
    using list_item_small [OF assms [unfolded names_bytes_def] that] by simp
  then show "timesE (length ns) get_string (concat (map (\<lambda>n. field_bytes (view n)) ns) @ r) = Inr (ns, r)"
    by (intro timesE_codec) (auto simp: codec_simps)
qed

lemma read_foreign_key_bytes:
  assumes "length (foreign_key_bytes k) < 2 ^ 64"
  shows "read_foreign_key (foreign_key_bytes k @ r) = Inr (k, r)"
proof -
  have "length (fk_name k) < 2 ^ 64" "length (fk_table k) < 2 ^ 64" "length (names_bytes (fk_columns k)) < 2 ^ 64"
    "length (names_bytes (fk_referenced k)) < 2 ^ 64"
    using assms by (simp_all add: foreign_key_bytes_def)
  then show ?thesis by (simp add: read_foreign_key_def foreign_key_bytes_def codec_simps read_names_bytes)
qed

lemma read_constraint_bytes:
  assumes "registry_ok reg" "check_ok reg c" "length (check_bytes c) < 2 ^ 64"
  shows "read_constraint reg (check_bytes c @ r) = Inr (c, r)"
proof -
  obtain n where n: "visit_check (check_expression c) 0 0 = Inr n" "expr_ok reg (check_expression c)"
    using assms(2) by (auto simp: check_ok_def validate_check_expression_def result_simps)
  have "read_expr 65 reg (0, expr_bytes (check_expression c) @ q) = Inr (check_expression c, n, q)" for q
    using read_expr_bytes [OF n(1,2) _ assms(1)] assms(3) by (simp add: check_bytes_def)
  then show ?thesis
    using assms(2,3) by (simp add: read_constraint_def check_bytes_def codec_simps read_check_def check_ok_def)
qed

lemma constraints_eta [simp]: "\<lparr>checks_of = checks_of c, foreign_keys_of = foreign_keys_of c\<rparr> = c"
  by simp

lemma read_schema_bytes:
  assumes "registry_ok reg" "schema_ok reg t" "length (schema_bytes t) < 2 ^ 64"
  shows "\<exists>t'. make_indexes reg (schema_only t) = Inr t' \<and> read_schema current_features reg (schema_bytes t @ r) = Inr (t', r)"
proof -
  let ?cs = "table_columns t" and ?ds = "table_definitions t"
  let ?ks = "checks_of (table_constraints t)" and ?fs = "foreign_keys_of (table_constraints t)"
  have small: "length (list_bytes column_bytes ?cs) < 2 ^ 64" "length (list_bytes definition_bytes ?ds) < 2 ^ 64"
    "length (list_bytes check_bytes ?ks) < 2 ^ 64" "length (list_bytes foreign_key_bytes ?fs) < 2 ^ 64"
    using assms(3) by (simp_all add: schema_bytes_def)
  have cnt: "get_count (list_bytes column_bytes ?cs @ q) = Inr (length ?cs, concat (map column_bytes ?cs) @ q)"
    "get_count (list_bytes definition_bytes ?ds @ q) = Inr (length ?ds, concat (map definition_bytes ?ds) @ q)"
    "get_count (list_bytes check_bytes ?ks @ q) = Inr (length ?ks, concat (map check_bytes ?ks) @ q)"
    "get_count (list_bytes foreign_key_bytes ?fs @ q) = Inr (length ?fs, concat (map foreign_key_bytes ?fs) @ q)" for q
    using small by (auto intro!: get_count_list simp: column_bytes_def definition_bytes_def check_bytes_def foreign_key_bytes_def)
  have cols: "timesE (length ?cs) (read_column current_features reg) ([], concat (map column_bytes ?cs) @ q)
      = Inr (?cs, rev (map column_name ?cs), q)" for q
    using read_columns_bytes [OF assms(1), of ?cs "[]" q] assms(2) list_item_small [OF small(1)]
    by (simp add: schema_ok_def)
  have defs: "timesE (length ?ds) (read_definition True) (concat (map definition_bytes ?ds) @ q) = Inr (map definition_normal ?ds, q)" for q
    using read_definitions_bytes [of ?ds q] assms(2) list_item_small [OF small(2)] by (simp add: schema_ok_def)
  have checks: "timesE (length ?ks) (read_constraint reg) (concat (map check_bytes ?ks) @ q) = Inr (?ks, q)" for q
    using assms(1,2) list_item_small [OF small(3)] by (intro timesE_codec read_constraint_bytes) (auto simp: schema_ok_def)
  have keys: "timesE (length ?fs) read_foreign_key (concat (map foreign_key_bytes ?fs) @ q) = Inr (?fs, q)" for q
    using list_item_small [OF small(4)] by (intro timesE_codec read_foreign_key_bytes) auto
  obtain t' where t': "make_indexes reg (schema_only t) = Inr t'" using assms(2) by (auto simp: schema_ok_def is_ok_iff)
  have "read_schema current_features reg (schema_bytes t @ r) = Inr (t', r)"
    using assms(2) t'
    by (simp add: read_schema_def schema_bytes_def cnt cols defs checks keys schema_ok_def schema_only_def)
  then show ?thesis using t' by blast
qed

subsection \<open>Rows\<close>

definition row_ok :: "Registry \<Rightarrow> Column list \<Rightarrow> Row \<Rightarrow> bool" where
  "row_ok reg cs row \<longleftrightarrow> length row = length cs
     \<and> (\<forall>(c, v) \<in> set (zip cs row). validate_stored reg c v = Inr () \<and> value_wf v)"

lemma row_ok_Cons: "row_ok reg (c # cs) (v # row) \<longleftrightarrow> validate_stored reg c v = Inr () \<and> value_wf v \<and> row_ok reg cs row"
  by (auto simp: row_ok_def)

lemma row_ok_Nil [simp]: "row_ok reg [] row \<longleftrightarrow> row = []" "row_ok reg cs [] \<longleftrightarrow> cs = []"
  by (auto simp: row_ok_def)

lemma stored_value:
  assumes "validate_stored reg c v = Inr ()" "value_wf v" "length (value_bytes v) < 2 ^ 64"
  shows "read_value (column_type c) reg True (value_bytes v @ r) = Inr (v, r)"
  using assms by (intro read_value_bytes) (auto simp: validate_stored_def result_simps)

lemma read_cells_bytes:
  assumes "row_ok reg cs row" "length (concat (map value_bytes row)) < 2 ^ 64"
  shows "read_cells reg True cs (concat (map value_bytes row) @ r) = Inr (row, r)"
    "read_page_cells reg cs (concat (map value_bytes row) @ r) = Inr (row, r)"
proof -
  have "read_cells reg True cs (concat (map value_bytes row) @ r) = Inr (row, r)
      \<and> read_page_cells reg cs (concat (map value_bytes row) @ r) = Inr (row, r)"
    using assms
  proof (induction cs arbitrary: row)
    case (Cons c cs)
    then obtain v vs where row: "row = v # vs" by (cases row) auto
    have v: "validate_stored reg c v = Inr ()" "value_wf v" "row_ok reg cs vs" "length (value_bytes v) < 2 ^ 64"
      "length (concat (map value_bytes vs)) < 2 ^ 64"
      using Cons.prems by (simp_all add: row row_ok_Cons)
    then show ?case using Cons.IH [OF v(3,5)] stored_value [OF v(1,2,4)] by (simp add: row)
  qed simp
  then show "read_cells reg True cs (concat (map value_bytes row) @ r) = Inr (row, r)"
    "read_page_cells reg cs (concat (map value_bytes row) @ r) = Inr (row, r)" by blast+
qed

lemma appends_rows:
  assumes "length (chunk_rowids c) = length (chunk_rows c)"
  shows "appends (write_rows c) (rows_bytes c)"
proof -
  have z: "zip (chunk_rowids c) (chunk_rows c) = map (\<lambda>i. (chunk_rowids c ! i, chunk_rows c ! i)) [0..<length (chunk_rows c)]"
    using assms by (intro nth_equalityI) simp_all
  have w: "appends (write_row row) (concat (map value_bytes row))" for row
    unfolding write_row_def [abs_def] by (intro appends_fold appends_value)
  show ?thesis
    unfolding write_rows_def [abs_def] rows_bytes_def z map_map comp_def row_bytes_def fst_conv snd_conv
    by (intro appends_fold appends_bind appends_u64 w)
qed

lemma appends_chunk_change:
  assumes "\<forall>c. snd e = Some c \<longrightarrow> length (chunk_rowids c) = length (chunk_rows c)"
  shows "appends (write_chunk_change e) (chunk_change_bytes e)"
proof (cases "snd e")
  case None
  have "appends (\<lambda>out. bindE (put_u64 (fst e) out) (put_u64 0)) (enc_u64 (fst e) @ enc_u64 0)" by (intro appends_bind appends_u64)
  then show ?thesis by (rule appends_eq) (simp_all add: None write_chunk_change_def chunk_change_bytes_def size_bytes_def)
next
  case (Some c)
  have "appends (\<lambda>out. bindE (put_u64 (fst e) out) (\<lambda>out. bindE (put_size (length (chunk_rows c)) out) (\<lambda>out. write_rows c out)))
      (enc_u64 (fst e) @ size_bytes (length (chunk_rows c)) @ rows_bytes c)"
    using assms Some by (intro appends_bind appends_u64 appends_size appends_rows) simp
  then show ?thesis by (rule appends_eq) (simp_all add: Some write_chunk_change_def chunk_change_bytes_def)
qed

section \<open>Checksums\<close>

lemma finish_record_Inr:
  assumes "finish_record out = Inr bs"
  shows "bs = out @ enc_u64 (checksum out)" "length bs \<le> max_encoded_bytes"
  using assms by (auto simp: finish_record_def within_limit_def put_u64_def result_simps max_encoded_bytes_def)

lemma validate_finished:
  assumes "length (out @ enc_u64 (checksum out)) \<le> max_encoded_bytes"
  shows "validate_snapshot (out @ enc_u64 (checksum out)) = Inr ()"
  using assms reader_u64_enc [of "checksum out" "[]"] by (simp add: validate_snapshot_def)

text \<open>One changed byte always changes the checksum: a step is injective in the hash and in the byte.\<close>

lemma fnv_prime_cancel: "(x :: u64) * 1099511628211 = y * 1099511628211 \<Longrightarrow> x = y"
proof -
  assume a: "x * 1099511628211 = y * 1099511628211"
  have "(1099511628211 :: u64) * 14886173955864302971 = 1" by simp
  then have "x = x * 1099511628211 * 14886173955864302971" "y = y * 1099511628211 * 14886173955864302971"
    by (simp_all only: mult.assoc mult_1_right)
  then show "x = y" using a by simp
qed

end
