(* ===== verification/Snapshot_Records.thy ===== *)
theory Snapshot_Records
  imports Codec_Readers
begin

text \<open>
  Whole records of src/snapshot.cpp: the checksum notices every single-byte
  change, pages restore their chunk, and the streamed checkpoint simulates the
  in-memory change record.
\<close>

lemma xor_cancel: "(a :: 'a :: len word) XOR c = b XOR c \<Longrightarrow> a = b"
proof -
  assume "a XOR c = b XOR c"
  then have "(a XOR c) XOR c = (b XOR c) XOR c" by simp
  then show "a = b" by (simp add: xor.assoc)
qed

lemma fnv_step_inject: "fnv_step h a = fnv_step h' a \<Longrightarrow> h = h'"
  unfolding fnv_step_def by (drule fnv_prime_cancel) (rule xor_cancel)

lemma fnv_step_differs: "a \<noteq> b \<Longrightarrow> fnv_step h a \<noteq> fnv_step h b"
proof
  assume ab: "a \<noteq> b" and "fnv_step h a = fnv_step h b"
  then have "h XOR ucast a = h XOR ucast b" unfolding fnv_step_def by (blast dest: fnv_prime_cancel)
  then have "(ucast a :: u64) = ucast b" using xor_cancel [of "ucast a" h "ucast b"] by (simp add: xor.commute)
  then have "unat (ucast a :: u64) = unat (ucast b :: u64)" by simp
  moreover have "unat (ucast x :: u64) = unat x" for x :: byte
  proof -
    have "unat x < 2 ^ LENGTH(8)" by (rule unsigned_less)
    then show ?thesis by (simp add: unsigned_ucast_eq take_bit_nat_eq_self_iff)
  qed
  ultimately show False using ab by (simp add: word_unat_eq_iff)
qed

lemma foldl_fnv_inject: "foldl fnv_step h bs = foldl fnv_step h' bs \<Longrightarrow> h = h'"
  by (induction bs arbitrary: h h') (auto dest: fnv_step_inject)

lemma checksum_sensitive:
  assumes "i < length bs" "b \<noteq> bs ! i"
  shows "checksum (bs[i := b]) \<noteq> checksum bs"
proof
  assume a: "checksum (bs[i := b]) = checksum bs"
  have u: "bs[i := b] = take i bs @ b # drop (Suc i) bs" by (rule upd_conv_take_nth_drop [OF assms(1)])
  have o: "bs = take i bs @ bs ! i # drop (Suc i) bs" by (rule id_take_nth_drop [OF assms(1)])
  have "foldl fnv_step fnv_offset (take i bs @ b # drop (Suc i) bs)
      = foldl fnv_step fnv_offset (take i bs @ bs ! i # drop (Suc i) bs)"
    using a unfolding checksum_def u by (simp only: o [symmetric])
  then have "fnv_step (foldl fnv_step fnv_offset (take i bs)) b
      = fnv_step (foldl fnv_step fnv_offset (take i bs)) (bs ! i)"
    by (auto dest: foldl_fnv_inject)
  then show False using fnv_step_differs assms(2) by blast
qed

lemma validate_snapshot_Inr:
  "validate_snapshot bs = Inr () \<longleftrightarrow> 8 \<le> length bs \<and> length bs \<le> max_encoded_bytes
     \<and> drop (length bs - 8) bs = enc_u64 (checksum (take (length bs - 8) bs))"
proof -
  have e: "8 \<le> length bs \<Longrightarrow> enc_u64 (le_word (drop (length bs - 8) bs)) = drop (length bs - 8) bs"
    by (intro enc_le_word) simp
  have "8 \<le> length bs \<Longrightarrow> reader_u64 (drop (length bs - 8) bs) = Inr (le_word (drop (length bs - 8) bs), [])"
    using e by (simp add: reader_u64_Inr)
  then show ?thesis using e unfolding validate_snapshot_def
    by (auto simp: result_simps not_less)
qed

lemma corruption_detected:
  assumes "validate_snapshot bs = Inr ()" "i < length bs" "b \<noteq> bs ! i"
  shows "validate_snapshot (bs[i := b]) = Inl E_format"
proof -
  let ?n = "length bs - 8"
  have v: "8 \<le> length bs" "length bs \<le> max_encoded_bytes" "drop ?n bs = enc_u64 (checksum (take ?n bs))"
    using assms(1) by (simp_all add: validate_snapshot_Inr)
  have "validate_snapshot (bs[i := b]) \<noteq> Inr ()"
  proof (cases "i < ?n")
    case True
    then have t: "take ?n (bs[i := b]) = (take ?n bs)[i := b]" "drop ?n (bs[i := b]) = drop ?n bs"
      by (simp_all add: take_update_swap)
    have "checksum ((take ?n bs)[i := b]) \<noteq> checksum (take ?n bs)"
      using True assms by (intro checksum_sensitive) simp_all
    then show ?thesis using v t by (simp add: validate_snapshot_Inr)
  next
    case False
    then have t: "take ?n (bs[i := b]) = take ?n bs" by simp
    have "drop ?n (bs[i := b]) ! (i - ?n) = b" "drop ?n bs ! (i - ?n) = bs ! i" using False assms(2) by simp_all
    then have "drop ?n (bs[i := b]) \<noteq> drop ?n bs" using assms(3) by metis
    then show ?thesis using v(3) t by (simp add: validate_snapshot_Inr)
  qed
  moreover have "validate_snapshot x = Inr () \<or> validate_snapshot x = Inl E_format" for x
    by (auto simp: validate_snapshot_def ensure_def bindE_def reader_u64_def reader_take_def split: sum.splits prod.splits)
  ultimately show ?thesis by blast
qed

section \<open>Pages\<close>

definition chunk_ok :: "Registry \<Rightarrow> Column list \<Rightarrow> Chunk \<Rightarrow> bool" where
  "chunk_ok reg cs c \<longleftrightarrow> length (chunk_rowids c) = length (chunk_rows c) \<and> length (chunk_rows c) \<le> max_chunk_rows
     \<and> (\<forall>row \<in> set (chunk_rows c). row_ok reg cs row)
     \<and> (chunk_slots c = [] \<or> length (chunk_slots c) = length (chunk_rows c))
     \<and> sorted_wrt (<) (chunk_slots c)"

lemma read_page_rows_bytes:
  assumes "\<forall>row \<in> set rows. row_ok reg cs row" "length ids = length rows"
    "length (concat (map row_bytes (zip ids rows))) < 2 ^ 64"
  shows "timesE (length rows) (read_page_row reg cs) (concat (map row_bytes (zip ids rows)) @ r) = Inr (zip ids rows, r)"
proof -
  have "read_page_row reg cs (row_bytes e @ r) = Inr (e, r)" if e: "e \<in> set (zip ids rows)" for e r
  proof -
    have l: "length (row_bytes e) < 2 ^ 64" using item_length [OF e, of row_bytes] assms(3) by simp
    have "row_ok reg cs (snd e)" using e assms(1) by (metis set_zip_rightD prod.collapse)
    then show ?thesis using l by (simp add: read_page_row_def row_bytes_def read_cells_bytes)
  qed
  from timesE_codec [of "zip ids rows" "read_page_row reg cs" row_bytes, OF this] show ?thesis using assms(2) by simp
qed

lemma read_slots_bytes:
  assumes "sorted_wrt (<) (xs @ slots)"
  shows "timesE (length slots) read_slot (xs, concat (map (\<lambda>s. enc_u64 (ucast s)) slots) @ r) = Inr (slots, xs @ slots, r)"
  using assms
proof (induction slots arbitrary: xs)
  case (Cons s slots)
  have b32: "unat x < 2 ^ LENGTH(32)" for x :: u32 by (rule unsigned_less)
  have u: "unat (ucast x :: u64) = unat x" for x :: u32
    using b32 [of x] by (simp add: unsigned_ucast_eq take_bit_nat_eq_self_iff)
  have m: "\<not> (ucast UINT32_MAX :: u64) < ucast s"
    using b32 [of s] by (simp add: word_less_nat_alt u)
  have l: "\<not> (xs \<noteq> [] \<and> (ucast s :: u64) \<le> ucast (last xs))"
  proof (cases "xs = []")
    case False
    then have "last xs < s" using Cons.prems last_in_set [OF False] by (simp add: sorted_wrt_append)
    then show ?thesis by (simp add: word_le_nat_alt u word_less_nat_alt not_le)
  qed simp
  have b: "(ucast (ucast s :: u64) :: u32) = s"
    using b32 [of s] by (intro word_unat_eq_iff [THEN iffD2]) (simp add: unsigned_ucast_eq take_bit_nat_eq_self_iff)
  show ?case using Cons.IH [of "xs @ [s]"] Cons.prems m l b by (simp add: read_slot_def)
qed simp

lemma page_restores:
  assumes "encode_page c = Inr bs" "chunk_ok reg cs c" "length bs \<le> max_encoded_bytes"
  shows "decode_page bs cs reg img = Inr (refresh_chunk (c\<lparr>chunk_image := img\<rparr>))"
proof -
  let ?sb = "concat (map (\<lambda>s. enc_u64 (ucast s)) (chunk_slots c))"
  let ?body = "size_bytes (length (chunk_rows c)) @ size_bytes (length (chunk_slots c)) @ ?sb @ rows_bytes c"
  have c: "length (chunk_rowids c) = length (chunk_rows c)" "length (chunk_rows c) \<le> max_chunk_rows"
    "\<forall>row \<in> set (chunk_rows c). row_ok reg cs row" "sorted_wrt (<) (chunk_slots c)"
    "chunk_slots c = [] \<or> length (chunk_slots c) = length (chunk_rows c)"
    using assms(2) by (simp_all add: chunk_ok_def)
  have w: "appends (\<lambda>out. bindE (put_size (length (chunk_rows c)) out) (\<lambda>out.
     bindE (put_size (length (chunk_slots c)) out) (\<lambda>out.
     bindE (foldE (\<lambda>s out. put_u64 (ucast s) out) (chunk_slots c) out) (write_rows c)))) ?body"
    by (intro appends_bind appends_size appends_fold appends_u64 appends_rows c)
  have bs: "bs = ?body @ enc_u64 (checksum ?body)"
  proof -
    obtain out where o: "bindE (put_size (length (chunk_rows c)) []) (\<lambda>out.
     bindE (put_size (length (chunk_slots c)) out) (\<lambda>out.
     bindE (foldE (\<lambda>s out. put_u64 (ucast s) out) (chunk_slots c) out) (write_rows c))) = Inr out"
      "put_u64 (checksum out) out = Inr bs"
      using assms(1) by (auto simp: encode_page_def bindE_Inr_iff)
    have "out = ?body" using appendsD [OF w o(1)] by simp
    then show ?thesis using o(2) by (simp add: put_u64_def)
  qed
  have m: "max_encoded_bytes < 2 ^ 64" "max_chunk_rows < 2 ^ 64" by (simp_all add: max_encoded_bytes_def max_chunk_rows_def)
  have n: "length (chunk_rows c) < 2 ^ 64" "length (chunk_slots c) < 2 ^ 64" using c m by auto
  have v: "validate_snapshot bs = Inr ()" using validate_finished [of ?body] assms(3) unfolding bs by simp
  have t: "take (length bs - 8) bs = ?body" by (simp add: bs)
  have r: "timesE (length (chunk_rows c)) (read_page_row reg cs) (rows_bytes c @ []) = Inr (zip (chunk_rowids c) (chunk_rows c), [])"
    unfolding rows_bytes_def using c assms(3) m by (intro read_page_rows_bytes) (simp_all add: bs rows_bytes_def)
  have s: "timesE (length (chunk_slots c)) read_slot ([], ?sb @ rows_bytes c) = Inr (chunk_slots c, chunk_slots c, rows_bytes c)"
    using read_slots_bytes [of "[]"] c by simp
  have u: "unat (of_nat (length (chunk_rows c)) :: u64) = length (chunk_rows c)"
    "unat (of_nat (length (chunk_slots c)) :: u64) = length (chunk_slots c)"
    using n by simp_all
  have e: "refresh_chunk ((new_chunk img)\<lparr>chunk_rows := chunk_rows c, chunk_rowids := chunk_rowids c, chunk_slots := chunk_slots c\<rparr>)
      = refresh_chunk (c\<lparr>chunk_image := img\<rparr>)"
    by (cases c) (simp add: refresh_chunk_def new_chunk_def Let_def)
  show ?thesis using v r s u c
    unfolding decode_page_def by (auto simp: t size_bytes_def reader_end_def remaining_def e)
qed

section \<open>Streamed checkpoints\<close>

text \<open>
  The emitter stands for one output: what the sink received and what is
  still buffered, with its size and its running checksum.
\<close>

definition shadows :: "Emitter \<Rightarrow> bytes \<Rightarrow> bool" where
  "shadows em out \<longleftrightarrow> concat (em_sink em) @ em_buffer em = out \<and> em_size em = length out \<and> em_hash em = checksum out
     \<and> length out \<le> max_encoded_bytes - 8 \<and> length (em_buffer em) \<le> buffer_limit"

definition simulated :: "(Emitter \<Rightarrow> Emitter result) \<Rightarrow> (bytes \<Rightarrow> bytes result) \<Rightarrow> bool" where
  "simulated v w \<longleftrightarrow> (\<forall>em em' out. shadows em out \<longrightarrow> v em = Inr em' \<longrightarrow> (\<exists>out'. w out = Inr out' \<and> shadows em' out'))"

lemma simulatedI:
  assumes "\<And>em em' out. shadows em out \<Longrightarrow> v em = Inr em' \<Longrightarrow> \<exists>out'. w out = Inr out' \<and> shadows em' out'"
  shows "simulated v w"
  using assms unfolding simulated_def by blast

lemma simulatedE:
  assumes "simulated v w" "shadows em out" "v em = Inr em'"
  obtains out' where "w out = Inr out'" "shadows em' out'"
  using assms unfolding simulated_def by blast

lemma simulated_bind:
  assumes "simulated v w" "simulated v' w'"
  shows "simulated (\<lambda>em. bindE (v em) v') (\<lambda>out. bindE (w out) w')"
proof (rule simulatedI)
  fix em em' out
  assume s: "shadows em out" "bindE (v em) v' = Inr em'"
  then obtain mid where m: "v em = Inr mid" "v' mid = Inr em'" by (auto simp: bindE_Inr_iff)
  obtain o1 where o1: "w out = Inr o1" "shadows mid o1" using assms(1) s(1) m(1) by (rule simulatedE)
  obtain o2 where "w' o1 = Inr o2" "shadows em' o2" using assms(2) o1(2) m(2) by (rule simulatedE)
  then show "\<exists>out'. bindE (w out) w' = Inr out' \<and> shadows em' out'" using o1(1) by simp
qed

lemma simulated_fold:
  assumes "\<And>x. x \<in> set xs \<Longrightarrow> simulated (f x) (g (h x))"
  shows "simulated (\<lambda>em. foldE f xs em) (\<lambda>out. foldE g (map h xs) out)"
  using assms
proof (induction xs)
  case Nil
  then show ?case by (simp add: simulated_def)
next
  case (Cons x xs)
  then have "simulated (\<lambda>em. bindE (f x em) (\<lambda>em. foldE f xs em)) (\<lambda>out. bindE (g (h x) out) (\<lambda>out. foldE g (map h xs) out))"
    by (intro simulated_bind) auto
  then show ?case by simp
qed

lemma simulated_each:
  assumes "\<And>x. x \<in> set xs \<Longrightarrow> simulated (f x) (g x)"
  shows "simulated (\<lambda>em. foldE f xs em) (\<lambda>out. foldE g xs out)"
  using simulated_fold [of xs f g "\<lambda>x. x"] assms by simp

lemma emit_shadows:
  assumes "shadows em out" "emit bs em = Inr em'"
  shows "shadows em' (out @ bs)"
  using assms unfolding shadows_def emit_def em_flush_def checksum_def
  by (auto simp: bindE_Inr_iff ensure_Inr_iff Let_def not_less split: if_splits) (cases "em_buffer em"; simp)

lemma emits_shadows: "shadows em out \<Longrightarrow> foldE emit bss em = Inr em' \<Longrightarrow> shadows em' (out @ concat bss)"
proof (induction bss arbitrary: em out)
  case (Cons bs bss)
  then obtain mid where "emit bs em = Inr mid" "foldE emit bss mid = Inr em'" by (auto simp: bindE_Inr_iff)
  then show ?case using Cons.IH [of mid "out @ bs"] emit_shadows [OF Cons.prems(1)] by simp
qed simp

lemma simulated_number: "simulated (emit_number n) (put_u64 n)"
  by (intro simulatedI) (auto simp: emit_number_def put_u64_def dest: emit_shadows)

lemma simulated_field: "simulated (emit_field bs) (put_field bs)"
proof (rule simulatedI)
  fix em em' out
  assume s: "shadows em out" "emit_field bs em = Inr em'"
  then obtain mid where m: "emit (enc_u64 (of_nat (length bs))) em = Inr mid" "emit bs mid = Inr em'"
    by (auto simp: emit_field_def emit_number_def bindE_Inr_iff)
  have e: "shadows em' ((out @ enc_u64 (of_nat (length bs))) @ bs)" using emit_shadows [OF emit_shadows [OF s(1) m(1)] m(2)] .
  then have "length out + 8 + length bs \<le> max_encoded_bytes - 8" by (simp add: shadows_def)
  then have "put_field bs out = Inr (out @ enc_u64 (of_nat (length bs)) @ bs)" by (auto simp: put_field_def ensure_def)
  then show "\<exists>out'. put_field bs out = Inr out' \<and> shadows em' out'" using e by auto
qed

lemma simulated_value: "simulated (emit_value emit_number emit_field v) (write_value v)"
proof -
  have r: "simulated Inr Inr" by (simp add: simulated_def)
  have e: "simulated (\<lambda>s. Inl E_state) (\<lambda>s. Inl E_state)" by (simp add: simulated_def)
  have p: "simulated (\<lambda>s. bindE (i64_payload v) (\<lambda>p. emit_number p s)) (\<lambda>s. bindE (i64_payload v) (\<lambda>p. put_u64 p s))"
    using simulated_number by (cases "i64_payload v") (simp_all add: simulated_def)
  have c: "simulated (\<lambda>s. if length bs = 8 then bindE (emit_number 8 s) (\<lambda>s. bindE (i64_payload v) (\<lambda>p. emit_number p s))
        else emit_field bs s)
      (\<lambda>s. if length bs = 8 then bindE (put_u64 8 s) (\<lambda>s. bindE (i64_payload v) (\<lambda>p. put_u64 p s)) else put_field bs s)" for bs
    using simulated_bind [OF simulated_number p, of 8] simulated_field [of bs] by (cases "length bs = 8") simp_all
  show ?thesis
    unfolding write_value_def [abs_def] emit_value_def [abs_def]
    using r e p c simulated_number simulated_field
    by (intro simulated_bind simulated_number) (cases v; simp)
qed

lemma simulated_rows: "simulated (\<lambda>em. foldE (\<lambda>i em.
       bindE (emit_number (chunk_rowids c ! i) em) (\<lambda>em.
       foldE (emit_value emit_number emit_field) (chunk_rows c ! i) em)) [0..<length (chunk_rows c)] em) (write_rows c)"
  unfolding write_rows_def [abs_def] write_row_def [abs_def]
  by (intro simulated_each simulated_bind simulated_number simulated_value)


lemma simulated_chunk:
  assumes "length (chunk_rowids c) = length (chunk_rows c)"
    "\<And>blocks. reuse (chunk_image c) = Some blocks \<Longrightarrow> write_chunk_change (cid, Some c) [] = Inr (concat blocks)"
  shows "simulated (emit_chunk reuse (cid, c)) (write_chunk_change (cid, Some c))"
proof (rule simulatedI)
  fix em em' out
  assume s: "shadows em out" and e: "emit_chunk reuse (cid, c) em = Inr em'"
  have noted: "shadows (mid\<lparr>em_notes := ns\<rparr>) o' = shadows mid o'" for mid ns o' by (simp add: shadows_def)
  show "\<exists>out'. write_chunk_change (cid, Some c) out = Inr out' \<and> shadows em' out'"
  proof (cases "reuse (chunk_image c)")
    case None
    have "simulated (\<lambda>em. bindE (emit_number cid em) (\<lambda>em.
        bindE (emit_number (of_nat (length (chunk_rows c))) em) (\<lambda>em.
        foldE (\<lambda>i em. bindE (emit_number (chunk_rowids c ! i) em) (\<lambda>em.
          foldE (emit_value emit_number emit_field) (chunk_rows c ! i) em)) [0..<length (chunk_rows c)] em)))
       (\<lambda>out. bindE (put_u64 cid out) (\<lambda>out. bindE (put_u64 (of_nat (length (chunk_rows c))) out) (write_rows c)))"
      (is "simulated ?v ?w") by (intro simulated_bind simulated_number simulated_rows)
    moreover obtain mid ns where "?v em = Inr mid" "em' = mid\<lparr>em_notes := ns\<rparr>"
      using e None by (auto simp: emit_chunk_def Let_def bindE_Inr_iff)
    ultimately show ?thesis using s noted
      by (auto simp: write_chunk_change_def put_size_def elim: simulatedE)
  next
    case (Some blocks)
    obtain mid ns where m: "foldE emit blocks em = Inr mid" "em' = mid\<lparr>em_notes := ns\<rparr>"
      using e Some by (auto simp: emit_chunk_def Let_def bindE_Inr_iff)
    have sh: "shadows em' (out @ concat blocks)" using emits_shadows [OF s m(1)] m(2) noted by simp
    have w: "write_chunk_change (cid, Some c) [] = Inr (concat blocks)" using assms(2) Some .
    have a: "appends (write_chunk_change (cid, Some c)) (chunk_change_bytes (cid, Some c))"
      using assms(1) by (intro appends_chunk_change) simp
    have b: "concat blocks = chunk_change_bytes (cid, Some c)" using appendsD [OF a w] by simp
    have "write_chunk_change (cid, Some c) out = Inr (out @ concat blocks)"
      using appends_moved [OF a w, of out] sh b by (simp add: shadows_def)
    then show ?thesis using sh by blast
  qed
qed

lemma simulated_schema:
  assumes "\<forall>d \<in> set (table_definitions t). index_descending d = [] \<or> length (index_descending d) = length (index_columns d)"
  shows "simulated (\<lambda>em. bindE (write_schema t []) (\<lambda>schema. emit schema em)) (write_schema t)"
proof (rule simulatedI)
  fix em em' out
  assume s: "shadows em out" "bindE (write_schema t []) (\<lambda>schema. emit schema em) = Inr em'"
  then obtain schema where w: "write_schema t [] = Inr schema" "emit schema em = Inr em'" by (auto simp: bindE_Inr_iff)
  have a: "appends (write_schema t) (schema_bytes t)" using assms by (rule appends_schema)
  have b: "schema = schema_bytes t" using appendsD [OF a w(1)] by simp
  have sh: "shadows em' (out @ schema)" using s(1) w(2) by (rule emit_shadows)
  have "write_schema t out = Inr (out @ schema)"
    using appends_moved [OF a w(1), of out] sh b by (simp add: shadows_def)
  then show "\<exists>out'. write_schema t out = Inr out' \<and> shadows em' out'" using sh by blast
qed

text \<open>What an application passes for reuse: the blocks an earlier record holds for the very same chunk.\<close>

definition table_plain :: "Table \<Rightarrow> bool" where
  "table_plain t \<longleftrightarrow> (\<forall>d \<in> set (table_definitions t). index_descending d = [] \<or> length (index_descending d) = length (index_columns d))
     \<and> (\<forall>(cid, c) \<in> set (table_chunks t). length (chunk_rowids c) = length (chunk_rows c))"

definition reuse_ok :: "(nat \<Rightarrow> bytes list option) \<Rightarrow> Table \<Rightarrow> bool" where
  "reuse_ok reuse t \<longleftrightarrow> (\<forall>(cid, c) \<in> set (table_chunks t). case reuse (chunk_image c) of None \<Rightarrow> True
     | Some blocks \<Rightarrow> write_chunk_change (cid, Some c) [] = Inr (concat blocks))"

lemma simulated_table:
  assumes "table_plain t" "reuse_ok reuse t"
  shows "simulated (emit_table reuse (name, t)) (write_table_change [] (name, t))"
proof -
  have c: "simulated (emit_chunk reuse e) (write_chunk_change (case e of (k, c) \<Rightarrow> (k, Some c)))"
    if e: "e \<in> set (table_chunks t)" for e
  proof -
    obtain k c where "e = (k, c)" by (cases e)
    then show ?thesis using simulated_chunk [of c reuse k] e assms by (force simp: table_plain_def reuse_ok_def split: option.splits)
  qed
  have d: "\<forall>d \<in> set (table_definitions t). index_descending d = [] \<or> length (index_descending d) = length (index_columns d)"
    using assms(1) by (simp add: table_plain_def)
  have "simulated (\<lambda>em. bindE (emit_field (view name) em) (\<lambda>em.
      bindE (bindE (write_schema t []) (\<lambda>schema. emit schema em)) (\<lambda>em.
      bindE (emit_number (table_next_chunk t) em) (\<lambda>em.
      bindE (emit_number (table_next_rowid t) em) (\<lambda>em.
      bindE (emit_number (of_nat (length (table_chunks t))) em) (\<lambda>em.
      foldE (emit_chunk reuse) (table_chunks t) em))))))
     (\<lambda>out. bindE (put_field (view name) out) (\<lambda>out.
      bindE (write_schema t out) (\<lambda>out.
      bindE (put_u64 (table_next_chunk t) out) (\<lambda>out.
      bindE (put_u64 (table_next_rowid t) out) (\<lambda>out.
      bindE (put_u64 (of_nat (length (table_chunks t))) out) (\<lambda>out.
      foldE write_chunk_change (map (\<lambda>e. case e of (k, c) \<Rightarrow> (k, Some c)) (table_chunks t)) out))))))"
    by (intro simulated_bind simulated_field simulated_schema simulated_number simulated_fold c d)
  then show ?thesis
    by (simp add: emit_table_def [abs_def] write_table_change_def [abs_def] Let_def chunk_changes_def put_size_def bindE_assoc)
qed

lemma checkpoint_streams_changes:
  assumes "encode_checkpoint s reuse = Inr em" "state_tables base = []"
    "\<forall>(name, t) \<in> set (state_tables s). table_plain t \<and> reuse_ok reuse t"
  shows "encode_changes base s = Inr (concat (em_sink em))"
proof -
  let ?e0 = "\<lparr>em_hash = fnv_offset, em_size = 0, em_buffer = [], em_sink = [], em_notes = []\<rparr>"
  let ?v = "\<lambda>em. bindE (emit_field (view ''CORECHG8'') em) (\<lambda>em.
     bindE (emit_number (of_nat (length (state_tables s))) em) (\<lambda>em. foldE (emit_table reuse) (state_tables s) em))"
  let ?w = "\<lambda>out. bindE (put_field (view ''CORECHG8'') out) (\<lambda>out.
     bindE (put_u64 (of_nat (length (state_tables s))) out) (\<lambda>out. foldE (write_table_change []) (state_tables s) out))"
  have "simulated (emit_table reuse e) (write_table_change [] e)" if "e \<in> set (state_tables s)" for e
    using that assms(3) simulated_table by (auto simp: case_prod_beta intro: simulated_table [of "snd e" reuse "fst e", simplified])
  then have sim: "simulated ?v ?w" by (intro simulated_bind simulated_field simulated_number simulated_each)
  obtain size mid where m: "checkpoint_size s = Inr size" "?v ?e0 = Inr mid"
      "em = (em_flush mid)\<lparr>em_sink := em_sink (em_flush mid) @ [enc_u64 (em_hash (em_flush mid))]\<rparr>"
    using assms(1) by (auto simp: encode_checkpoint_def bindE_Inr_iff Let_def)
  have "shadows ?e0 []" by (simp add: shadows_def checksum_def)
  then obtain out where o: "?w [] = Inr out" "shadows mid out" using sim m(2) by (auto elim: simulatedE)
  have f: "finish_record out = Inr (out @ enc_u64 (checksum out))" "concat (em_sink em) = out @ enc_u64 (checksum out)"
    using o(2) m(3) by (auto simp: finish_record_def within_limit_def put_u64_def shadows_def em_flush_def ensure_def)
  have "filter (\<lambda>e. \<not> same_table [] e) (state_tables s) = state_tables s" by (simp add: same_table_def)
  then show ?thesis using m(1) o(1) f by (auto simp: encode_changes_def assms(2) put_size_def bindE_Inr_iff Let_def)
qed

end
