(* ===== verification/Snapshot_Spec.thy ===== *)
theory Snapshot_Spec
  imports Snapshot_Records
begin

text \<open>
  Properties of the snapshot format (src/snapshot.cpp).
\<close>

section \<open>Sample objects\<close>

definition sample_registry :: Registry where
  "sample_registry = (case install_scalar_types (\<lambda>x. x) (\<lambda>x. x) (\<lambda>_. 0) empty_registry of Inr r \<Rightarrow> r | Inl _ \<Rightarrow> empty_registry)"

lemma sample_registry_types: "reg_types sample_registry = [(''core.integer'', 1) \<mapsto> scalar_integer (\<lambda>x. x),
    (''core.real'', 1) \<mapsto> scalar_real (\<lambda>x. x), (''core.text'', 1) \<mapsto> scalar_text (\<lambda>_. 0)]"
  by (simp add: sample_registry_def install_scalar_types_def add_type_def empty_registry_def scalar_integer_def
      scalar_real_def scalar_text_def default_identity_def)

lemma sample_registry_ok [simp]: "registry_ok sample_registry"
  by (simp add: registry_ok_def sample_registry_types addon_ok_def scalar_integer_def scalar_real_def scalar_text_def
      default_identity_def)

lemma sample_registry_addon [simp]:
  "registry_addon sample_registry integer_type = Inr (scalar_integer (\<lambda>x. x))"
  "registry_addon sample_registry text_type = Inr (scalar_text (\<lambda>_. 0))"
  by (simp_all add: registry_addon_def sample_registry_types)

definition sample_column :: "string \<Rightarrow> Type \<Rightarrow> Column" where
  "sample_column name t = \<lparr>column_name = name, column_type = t, column_primary_key = False, column_index = [],
     column_default = None, column_nullable = True\<rparr>"

definition sample_chunk :: Chunk where
  "sample_chunk = refresh_chunk ((new_chunk 1)\<lparr>chunk_rows := [[VInt 7, VText ''ab''], [VInt 9, Null text_type]],
     chunk_rowids := [1, 2]\<rparr>)"

definition sample_table :: Table where
  "sample_table = (empty_table 2)\<lparr>table_columns := [sample_column ''id'' integer_type, sample_column ''name'' text_type],
     table_chunks := [(0, sample_chunk)], table_next_chunk := 1, table_next_rowid := 3\<rparr>"

definition sample_state :: State where
  "sample_state = empty_state\<lparr>state_tables := [(''t'', sample_table)]\<rparr>"

lemma sample_stored [simp]:
  "validate_stored sample_registry (sample_column n integer_type) (VInt i) = Inr ()"
  "validate_stored sample_registry (sample_column n text_type) (VText s) = Inr ()"
  "validate_stored sample_registry (sample_column n text_type) (Null text_type) = Inr ()"
  by (simp_all add: validate_stored_def sample_column_def registry_validate_def check_value_def scalar_integer_def
      scalar_text_def holds_layout_def)

section \<open>Properties\<close>

text \<open>
  C23. A table's schema survives the snapshot format. Whatever bytes follow it,
  reading back what \<open>write_schema\<close> wrote gives the table that declares the same
  columns, defaults, index definitions, checks and foreign keys, with its
  indexes built, and leaves exactly the bytes that followed.
\<close>

theorem schema_round_trip:
  assumes "registry_ok reg" and "schema_ok reg t" and "write_schema t [] = Inr bs" and "length bs < 2 ^ 64"
  shows "read_schema current_features reg (bs @ rest) = bindE (make_indexes reg (schema_only t)) (\<lambda>t'. Inr (t', rest))"
proof -
  have "appends (write_schema t) (schema_bytes t)"
    using assms(2) by (intro appends_schema) (simp add: schema_ok_def definition_ok_def)
  then have "bs = schema_bytes t" using assms(3) by (auto dest: appendsD)
  then show ?thesis using read_schema_bytes [OF assms(1,2), of rest] assms(4) by auto
qed

text \<open>Witness: a two-column table.\<close>

theorem schema_round_trip_witness:
  "\<exists>bs t'. write_schema sample_table [] = Inr bs \<and> read_schema current_features sample_registry (bs @ [1, 2]) = Inr (t', [1, 2])"
proof -
  have ok: "schema_ok sample_registry sample_table"
    by (simp add: schema_ok_def sample_table_def empty_table_def column_ok_def sample_column_def schema_only_def
        registry_validate_type_def scalar_integer_def scalar_text_def make_indexes_def is_ok_def)
  have w: "\<exists>bs. write_schema sample_table [] = Inr bs \<and> length bs < 2 ^ 64"
    by (simp add: write_schema_def sample_table_def empty_table_def write_column_def sample_column_def put_size_def
        put_u64_def put_field_def put_type_def integer_type_def text_type_def max_encoded_bytes_def)
  have "is_ok (make_indexes sample_registry (schema_only sample_table))" using ok by (simp add: schema_ok_def)
  then obtain t' where "make_indexes sample_registry (schema_only sample_table) = Inr t'" by (auto simp: is_ok_def split: sum.splits)
  then show ?thesis using w schema_round_trip [OF sample_registry_ok ok, of _ "[1, 2]"] by auto
qed

text \<open>
  C24. A cached page decodes to the chunk it was encoded from: the same rows,
  row ids and slots, with the byte counts recomputed.
\<close>

theorem page_round_trip:
  assumes "encode_page c = Inr bs" and "chunk_ok reg cs c" and "length bs \<le> max_encoded_bytes"
  shows "decode_page bs cs reg img = Inr (refresh_chunk (c\<lparr>chunk_image := img\<rparr>))"
  using assms by (rule page_restores)

text \<open>Witness: a page of two rows.\<close>

theorem page_round_trip_witness:
  "\<exists>bs. encode_page sample_chunk = Inr bs
     \<and> decode_page bs [sample_column ''id'' integer_type, sample_column ''name'' text_type] sample_registry 5
       = Inr (sample_chunk\<lparr>chunk_image := 5\<rparr>)"
proof -
  let ?cs = "[sample_column ''id'' integer_type, sample_column ''name'' text_type]"
  have ok: "chunk_ok sample_registry ?cs sample_chunk"
    by (simp add: chunk_ok_def sample_chunk_def refresh_chunk_def new_chunk_def row_ok_Cons value_wf_def max_chunk_rows_def)
  have w: "\<exists>bs. encode_page sample_chunk = Inr bs \<and> length bs \<le> max_encoded_bytes"
    by (simp add: encode_page_def sample_chunk_def refresh_chunk_def new_chunk_def write_rows_def write_row_def
        put_size_def put_u64_def put_field_def write_value_def emit_value_def max_encoded_bytes_def upt_rec)
  have "refresh_chunk (sample_chunk\<lparr>chunk_image := 5\<rparr>) = sample_chunk\<lparr>chunk_image := 5\<rparr>"
    by (simp add: sample_chunk_def refresh_chunk_def new_chunk_def Let_def)
  then show ?thesis using w page_round_trip [OF _ ok, of _ 5] by auto
qed

text \<open>
  C25. Corruption is detected. Changing any single byte of a record that
  passes validation, in its body or in its checksum, makes validation fail
  with a format error.
\<close>

theorem single_byte_corruption_detected:
  assumes "validate_snapshot bs = Inr ()" and "i < length bs" and "b \<noteq> bs ! i"
  shows "validate_snapshot (bs[i := b]) = Inl E_format"
  using assms by (rule corruption_detected)

text \<open>Witness: a three-byte record with its second byte overwritten.\<close>

theorem single_byte_corruption_detected_witness:
  "validate_snapshot ((view ''abc'' @ enc_u64 (checksum (view ''abc'')))[1 := 0]) = Inl E_format"
proof (rule single_byte_corruption_detected)
  show "validate_snapshot (view ''abc'' @ enc_u64 (checksum (view ''abc''))) = Inr ()"
    by (rule validate_finished) (simp add: max_encoded_bytes_def)
qed (simp_all add: view_def nth_append)

text \<open>
  C8. The streamed checkpoint is the change record from nothing. The blocks
  that \<open>encode_checkpoint\<close> hands to its sink, put together, are byte for byte the
  record \<open>encode_changes\<close> builds against a state without tables, whether chunks
  are encoded afresh or copied from an earlier record that holds them.
\<close>

theorem checkpoint_equals_changes:
  assumes "encode_checkpoint s reuse = Inr em" and "state_tables base = []"
    and "\<forall>(name, t) \<in> set (state_tables s). table_plain t \<and> reuse_ok reuse t"
  shows "encode_changes base s = Inr (concat (em_sink em))"
  using assms by (rule checkpoint_streams_changes)

text \<open>Witness: one table, its chunk copied from an earlier record.\<close>

theorem checkpoint_equals_changes_witness:
  "\<exists>em blocks. encode_checkpoint sample_state (\<lambda>i. if i = 1 then Some blocks else None) = Inr em
     \<and> encode_changes empty_state sample_state = Inr (concat (em_sink em))"
proof -
  obtain bs where b: "write_chunk_change (0, Some sample_chunk) [] = Inr bs" "length bs \<le> 200"
    by (simp add: write_chunk_change_def sample_chunk_def refresh_chunk_def new_chunk_def write_rows_def write_row_def
        put_size_def put_u64_def put_field_def write_value_def emit_value_def max_encoded_bytes_def upt_rec)
  let ?reuse = "\<lambda>i. if i = (1 :: nat) then Some [bs] else None"
  have ok: "\<forall>(name, t) \<in> set (state_tables sample_state). table_plain t \<and> reuse_ok ?reuse t"
    using b(1) by (simp add: sample_state_def table_plain_def reuse_ok_def sample_table_def empty_table_def)
      (simp add: sample_chunk_def refresh_chunk_def new_chunk_def Let_def)
  have "\<exists>em. encode_checkpoint sample_state ?reuse = Inr em"
    using b(2) by (simp add: encode_checkpoint_def sample_state_def checkpoint_size_def emit_table_def sample_table_def
        empty_table_def write_schema_def write_column_def sample_column_def put_size_def put_u64_def put_field_def put_type_def
        integer_type_def text_type_def max_encoded_bytes_def emit_field_def emit_number_def emit_def em_flush_def
        buffer_limit_def Let_def emit_chunk_def sample_chunk_def refresh_chunk_def new_chunk_def value_payload_def value_prefix_def ensure_def)
  then show ?thesis using checkpoint_equals_changes [OF _ _ ok, of _ empty_state] by (auto simp: empty_state_def)
qed

end
