(* ===== verification/Bound.thy ===== *)
theory Bound
  imports Tables
begin

text \<open>
  Expressions and predicates bound to a table, of src/bound.hpp and
  src/bound.cpp, with the comparisons of src/comparison.hpp and the membership
  lookup of src/membership_lookup.hpp: scopes, binding, lazy evaluation and
  three-valued truth. Binding is modelled outside a running query, where no
  tables are in scope for subqueries.
\<close>

section \<open>Comparisons and row views\<close>

record Comparison =
  comparison_parameters :: bytes
  comparison_addon :: TypeAddon

definition comparison_new :: "Registry \<Rightarrow> Type \<Rightarrow> bool \<Rightarrow> Comparison result" where
  "comparison_new reg t equality =
     bindE (registry_addon reg t) (\<lambda>a.
     bindE (registry_validate_type reg t) (\<lambda>_.
     bindE (ensure (\<not> (if equality then addon_equal a = None else addon_compare a = None)) E_unsupported) (\<lambda>_.
     Inr \<lparr>comparison_parameters = type_parameters t, comparison_addon = a\<rparr>)))"

definition comparison_compare :: "Comparison \<Rightarrow> Value \<Rightarrow> Value \<Rightarrow> int" where
  "comparison_compare c a b =
     (if is_null a \<or> is_null b then null_order a b
      else the (addon_compare (comparison_addon c)) (comparison_parameters c) a b)"

definition comparison_equal :: "Comparison \<Rightarrow> Value \<Rightarrow> Value \<Rightarrow> bool" where
  "comparison_equal c a b =
     (if is_null a \<or> is_null b then is_null a \<and> is_null b
      else the (addon_equal (comparison_addon c)) (comparison_parameters c) a b)"

text \<open>A joined row is read through its two parts; a stored row alone has no identity.\<close>

record RowView =
  view_left :: Row
  view_right :: "Row option"
  view_id :: "i64 option"

definition plain_row :: "Row \<Rightarrow> RowView" where
  "plain_row row = \<lparr>view_left = row, view_right = None, view_id = None\<rparr>"

definition view_at :: "RowView \<Rightarrow> nat \<Rightarrow> Value" where
  "view_at v i =
     (if i < length (view_left v) then view_left v ! i
      else the (view_right v) ! (i - length (view_left v)))"

record Scope =
  scope_left :: Table
  scope_right :: "Table option"
  scope_third :: "Table option"
  scope_left_alias :: string
  scope_right_alias :: string
  scope_third_alias :: string
  scope_allow_identity :: bool

definition table_scope :: "Table \<Rightarrow> Scope" where
  "table_scope t = \<lparr>scope_left = t, scope_right = None, scope_third = None, scope_left_alias = [],
     scope_right_alias = [], scope_third_alias = [], scope_allow_identity = False\<rparr>"

definition scope_table :: "Scope \<Rightarrow> string \<Rightarrow> (Table \<times> nat) result" where
  "scope_table sc qualifier =
     (if qualifier = [] then Inr (scope_left sc, 0)
      else if scope_third sc \<noteq> None \<and> qualifier = scope_third_alias sc then
        Inr (the (scope_third sc), length (table_columns (scope_left sc))
          + (case scope_right sc of None \<Rightarrow> 0 | Some r \<Rightarrow> length (table_columns r)))
      else if scope_right sc \<noteq> None \<and> qualifier = scope_right_alias sc then
        Inr (the (scope_right sc), length (table_columns (scope_left sc)))
      else if qualifier \<noteq> scope_left_alias sc then Inl E_schema
      else Inr (scope_left sc, 0))"

definition scope_resolve :: "Scope \<Rightarrow> Expr \<Rightarrow> (nat \<times> Type) result" where
  "scope_resolve sc e =
     bindE (ensure (\<not> ((scope_right sc \<noteq> None \<or> scope_third sc \<noteq> None) \<and> expr_qualifier e = [])) E_schema) (\<lambda>_.
     bindE (scope_table sc (expr_qualifier e)) (\<lambda>(t, offset).
     case find_column (expr_name e) (table_columns t) of
       None \<Rightarrow> Inl E_schema
     | Some i \<Rightarrow> Inr (offset + i, column_type (table_columns t ! i))))"

section \<open>Bound expressions\<close>

datatype BoundExpr =
  BoundExpr (bx_type: Type) (bx_kind: ExprKind) (bx_index: nat) (bx_value: Value)
    (bx_function: "Function option") (bx_result: "TypeAddon option") (bx_truth: "TypeAddon option")
    (bx_arguments: "BoundExpr list") (bx_subquery: "(Value list \<Rightarrow> Value result) option")
    (bx_prepared: "(Value list \<Rightarrow> Value result) option")

definition null_literal :: "BoundExpr \<Rightarrow> bool" where
  "null_literal e \<longleftrightarrow> bx_kind e = K_literal \<and> is_null (bx_value e)"

definition retype :: "Type \<Rightarrow> BoundExpr \<Rightarrow> BoundExpr" where
  "retype t e = (case e of BoundExpr _ k i _ f ra ta xs sq pr \<Rightarrow> BoundExpr t k i (Null t) f ra ta xs sq pr)"

fun arms_type :: "BoundExpr list \<Rightarrow> Type option \<Rightarrow> Type option result" where
  "arms_type [] t = Inr t"
| "arms_type (arm # arms) t =
     (if null_literal arm then arms_type arms t
      else bindE (ensure (\<not> (t \<noteq> None \<and> t \<noteq> Some (bx_type arm))) E_type) (\<lambda>_. arms_type arms (Some (bx_type arm))))"

definition result_type :: "BoundExpr list \<Rightarrow> nat list \<Rightarrow> (Type \<times> BoundExpr list) result" where
  "result_type arguments arms =
     bindE (arms_type (map (\<lambda>i. arguments ! i) arms) None) (\<lambda>t.
     let result = (case t of None \<Rightarrow> integer_type | Some t \<Rightarrow> t) in
     Inr (result, map (\<lambda>i. if i \<in> set arms \<and> null_literal (arguments ! i) then retype result (arguments ! i)
       else arguments ! i) [0..<length arguments]))"

subsection \<open>Membership\<close>

text \<open>The list search of IN: the first equal candidate decides, a NULL on the way leaves it unknown.\<close>

definition truthy :: "Value \<Rightarrow> bool" where
  "truthy v = (case v of VInt n \<Rightarrow> n \<noteq> 0 | _ \<Rightarrow> False)"

fun membership_search :: "Function \<Rightarrow> TypeAddon \<Rightarrow> Value \<Rightarrow> Value list \<Rightarrow> bool \<Rightarrow> Value result" where
  "membership_search equal truth v [] unknown = Inr (if unknown then Null integer_type else VInt 0)"
| "membership_search equal truth v (c # cs) unknown =
     (if is_null v \<or> is_null c then membership_search equal truth v cs True
      else
        bindE (function_invoke equal [v, c]) (\<lambda>answer.
        bindE (check_value truth integer_type answer) (\<lambda>_.
        if is_null answer then membership_search equal truth v cs True
        else if truthy answer then Inr (VInt 1)
        else membership_search equal truth v cs unknown)))"

record MembershipLookup =
  lookup_has_null :: bool
  lookup_empty :: bool
  lookup_contains :: "(Value \<Rightarrow> bool) option"

definition lookup_prepare :: "Function \<Rightarrow> Type \<Rightarrow> Value list \<Rightarrow> MembershipLookup result" where
  "lookup_prepare f t rows =
     (case function_membership f of
        None \<Rightarrow> Inr \<lparr>lookup_has_null = False, lookup_empty = True, lookup_contains = None\<rparr>
      | Some prepare \<Rightarrow>
          bindE (prepare t (filter (\<lambda>v. \<not> is_null v) rows)) (\<lambda>contains.
          Inr \<lparr>lookup_has_null = list_ex is_null rows, lookup_empty = (rows = []), lookup_contains = contains\<rparr>))"

definition lookup_find :: "MembershipLookup \<Rightarrow> Value \<Rightarrow> Value option" where
  "lookup_find l v =
     (case lookup_contains l of
        None \<Rightarrow> None
      | Some contains \<Rightarrow>
          Some (if lookup_empty l then VInt 0
            else if is_null v then Null integer_type
            else if contains v then VInt 1
            else if lookup_has_null l then Null integer_type else VInt 0))"

definition membership_answer ::
    "Function \<Rightarrow> TypeAddon \<Rightarrow> Type \<Rightarrow> Value list option \<Rightarrow> Value list \<Rightarrow> Value result" where
  "membership_answer equal truth needle literals values =
     (case literals of
        Some candidates \<Rightarrow>
          bindE (lookup_prepare equal needle candidates) (\<lambda>l.
          case lookup_find l (values ! 0) of
            Some answer \<Rightarrow> Inr answer
          | None \<Rightarrow> membership_search equal truth (values ! 0) candidates False)
      | None \<Rightarrow> membership_search equal truth (values ! 0) (tl values) False)"

text \<open>
  Typing the candidates: a NULL literal takes the needle's type. The first
  flag says whether the needle itself is a NULL literal, the result whether
  every candidate has the needle's type.
\<close>

fun membership_candidates ::
    "Function \<Rightarrow> bool \<Rightarrow> Type \<Rightarrow> BoundExpr list \<Rightarrow> (BoundExpr list \<times> bool) result" where
  "membership_candidates equal null_needle t [] = Inr ([], True)"
| "membership_candidates equal null_needle t (a # as) =
     (let a = (if null_literal a then retype t a else a) in
      bindE (function_infer equal [if null_needle then bx_type a else t, bx_type a]) (\<lambda>r.
      bindE (ensure (r = integer_type) E_type) (\<lambda>_.
      bindE (membership_candidates equal null_needle t as) (\<lambda>(as, same).
      Inr (a # as, same \<and> bx_type a = t)))))"

definition bind_membership ::
    "Registry \<Rightarrow> Expr \<Rightarrow> BoundExpr list \<Rightarrow> BoundExpr result" where
  "bind_membership reg e arguments =
     bindE (registry_function reg (expr_name e)) (\<lambda>equal.
     bindE (ensure (expr_subquery e = None) E_schema) (\<lambda>_.
     let needle = hd arguments;
         null_needle = (expr_kind (hd (expr_arguments e)) = K_literal \<and> is_null (expr_value (hd (expr_arguments e)))) in
     bindE (membership_candidates equal null_needle (bx_type needle) (tl arguments)) (\<lambda>(candidates, same).
     let literal = (function_membership equal \<noteq> None \<and> same \<and> list_all (\<lambda>a. bx_kind a = K_literal) candidates);
         literals = (if literal then Some (map bx_value candidates) else None) in
     bindE (registry_addon reg integer_type) (\<lambda>truth.
     Inr (BoundExpr integer_type K_membership 0 (VInt 0) None None None
       (if literal then [needle] else needle # candidates)
       (Some (membership_answer equal truth (bx_type needle) literals)) None)))))"

subsection \<open>Conditionals, coalescing and calls\<close>

text \<open>The conditions of a conditional, in order, each followed by its result; a last odd one is the fallback.\<close>

fun conditions_of :: "'a list \<Rightarrow> 'a list" where
  "conditions_of (c # r # rest) = c # conditions_of rest"
| "conditions_of _ = []"

definition check_condition :: "Function option \<Rightarrow> BoundExpr list \<Rightarrow> BoundExpr \<Rightarrow> unit result" where
  "check_condition function arguments c =
     (case function of
        Some f \<Rightarrow>
          let base = hd arguments;
              left = (if null_literal base then bx_type c else bx_type base);
              right = (if null_literal c then left else bx_type c) in
          bindE (function_infer f [left, right]) (\<lambda>r. ensure (r = integer_type) E_type)
      | None \<Rightarrow> ensure (bx_type c = integer_type) E_type)"

definition bind_conditional :: "Registry \<Rightarrow> Expr \<Rightarrow> BoundExpr list result \<Rightarrow> BoundExpr result" where
  "bind_conditional reg e bound =
     (let first = (if expr_name e = [] then 0 else 1) :: nat;
          n = length (expr_arguments e);
          fallback = odd (n - first);
          last = n - of_bool fallback in
      bindE (ensure (\<not> n < first + 2) E_schema) (\<lambda>_.
      bindE (if first = 1 then
               bindE (registry_function reg (expr_name e)) (\<lambda>f.
               bindE (registry_addon reg integer_type) (\<lambda>a. Inr (Some f, Some a)))
             else Inr (None, None)) (\<lambda>(function, truth).
      bindE bound (\<lambda>arguments.
      bindE (forE (check_condition function arguments) (conditions_of (drop first arguments))) (\<lambda>_.
      let arms = filter (\<lambda>i. i < last \<and> odd (i - first)) [first..<n] @ (if fallback then [n - 1] else []) in
      bindE (result_type arguments arms) (\<lambda>(t, arguments).
      Inr (BoundExpr t K_conditional 0 (VInt 0) function None truth arguments None None)))))))"

definition bind_coalesce :: "Expr \<Rightarrow> BoundExpr list result \<Rightarrow> BoundExpr result" where
  "bind_coalesce e bound =
     bindE (ensure (expr_arguments e \<noteq> []) E_schema) (\<lambda>_.
     bindE bound (\<lambda>arguments.
     bindE (result_type arguments [0..<length arguments]) (\<lambda>(t, arguments).
     Inr (BoundExpr t K_coalesce 0 (VInt 0) None None None arguments None None))))"

definition bind_call :: "Registry \<Rightarrow> Expr \<Rightarrow> BoundExpr list result \<Rightarrow> BoundExpr result" where
  "bind_call reg e bound =
     bindE (registry_function reg (expr_name e)) (\<lambda>f.
     bindE bound (\<lambda>arguments.
     bindE (function_infer f (map bx_type arguments)) (\<lambda>t.
     bindE (registry_validate_type reg t) (\<lambda>_.
     bindE (registry_addon reg t) (\<lambda>a.
     bindE (case function_prepare f of
              None \<Rightarrow> Inr None
            | Some prepare \<Rightarrow>
                bindE (prepare (map bx_type arguments) t) (\<lambda>p.
                bindE (ensure (p \<noteq> None) E_type) (\<lambda>_. Inr p))) (\<lambda>prepared.
     Inr (BoundExpr t K_call 0 (VInt 0) (Some f) (Some a) None arguments None prepared)))))))"

text \<open>
  Binding outside a running query, as mutations, constraints and constants
  do: no tables are in scope for subqueries, which are refused.
\<close>

fun bind_expr :: "Registry \<Rightarrow> Scope \<Rightarrow> nat \<Rightarrow> Expr \<Rightarrow> BoundExpr result" where
  "bind_expr reg sc depth (Expr kind name v arguments qualifier subquery dist parameters) =
     (let e = Expr kind name v arguments qualifier subquery dist parameters in
      bindE (ensure (\<not> depth > 64) E_schema) (\<lambda>_.
      let bound = mapE (bind_expr reg sc (Suc depth)) arguments in
      case kind of
        K_column \<Rightarrow>
          bindE (scope_resolve sc e) (\<lambda>(index, t).
          Inr (BoundExpr t kind index (VInt 0) None None None [] None None))
      | K_row_id \<Rightarrow>
          bindE (ensure (\<not> (\<not> scope_allow_identity sc \<or> scope_right sc \<noteq> None)) E_unsupported) (\<lambda>_.
          Inr (BoundExpr integer_type kind 0 (VInt 0) None None None [] None None))
      | K_membership \<Rightarrow>
          bindE (ensure (arguments \<noteq> []) E_schema) (\<lambda>_.
          bindE bound (bind_membership reg e))
      | K_conditional \<Rightarrow> bind_conditional reg e bound
      | K_coalesce \<Rightarrow> bind_coalesce e bound
      | K_literal \<Rightarrow>
          bindE (registry_validate reg v (type_of v)) (\<lambda>_.
          Inr (BoundExpr (type_of v) kind 0 v None None None [] None None))
      | K_call \<Rightarrow> bind_call reg e bound
      | _ \<Rightarrow> Inl E_schema))"

subsection \<open>Evaluation\<close>

text \<open>
  The result kept for repeated evaluation of a row-independent expression is
  not modelled: it is the value the evaluation itself returns.
\<close>

fun evaluate :: "RowView \<Rightarrow> BoundExpr \<Rightarrow> Value result"
  and evaluate_all :: "RowView \<Rightarrow> BoundExpr list \<Rightarrow> Value list result"
  and evaluate_coalesce :: "RowView \<Rightarrow> Type \<Rightarrow> BoundExpr list \<Rightarrow> Value result"
  and evaluate_fallback :: "RowView \<Rightarrow> Type \<Rightarrow> BoundExpr list \<Rightarrow> Value result"
  and evaluate_branches ::
    "RowView \<Rightarrow> Function option \<Rightarrow> TypeAddon option \<Rightarrow> Value \<Rightarrow> Type \<Rightarrow> BoundExpr list \<Rightarrow> Value result" where
  "evaluate row (BoundExpr t kind index v function result truth arguments subquery prepared) =
     (case kind of
        K_row_id \<Rightarrow> (case view_id row of None \<Rightarrow> Inl E_unsupported | Some i \<Rightarrow> Inr (VInt i))
      | K_column \<Rightarrow> Inr (view_at row index)
      | K_literal \<Rightarrow> Inr v
      | K_coalesce \<Rightarrow> evaluate_coalesce row t arguments
      | K_conditional \<Rightarrow>
          (case (function, arguments) of
             (Some f, base # branches) \<Rightarrow>
               bindE (evaluate row base) (\<lambda>b.
               if is_null b then evaluate_fallback row t branches
               else evaluate_branches row function truth b t branches)
           | _ \<Rightarrow> evaluate_branches row None None (VInt 0) t arguments)
      | _ \<Rightarrow>
          bindE (evaluate_all row arguments) (\<lambda>values.
          case subquery of
            Some answer \<Rightarrow> answer values
          | None \<Rightarrow>
              if \<not> function_accepts_null (the function) \<and> list_ex is_null values then Inr (Null t)
              else
                bindE (case prepared of Some p \<Rightarrow> p values | None \<Rightarrow> function_invoke (the function) values) (\<lambda>r.
                bindE (check_value (the result) t r) (\<lambda>_. Inr r))))"
| "evaluate_all row [] = Inr []"
| "evaluate_all row (e # es) =
     bindE (evaluate row e) (\<lambda>v. bindE (evaluate_all row es) (\<lambda>vs. Inr (v # vs)))"
| "evaluate_coalesce row t [] = Inr (Null t)"
| "evaluate_coalesce row t (e # es) =
     bindE (evaluate row e) (\<lambda>v. if is_null v then evaluate_coalesce row t es else Inr v)"
| "evaluate_fallback row t [] = Inr (Null t)"
| "evaluate_fallback row t [e] = evaluate row e"
| "evaluate_fallback row t (c # r # rest) = evaluate_fallback row t rest"
| "evaluate_branches row function truth base t [] = Inr (Null t)"
| "evaluate_branches row function truth base t [e] = evaluate row e"
| "evaluate_branches row function truth base t (c # r # rest) =
     bindE (evaluate row c) (\<lambda>condition.
     case function of
       Some f \<Rightarrow>
         if is_null condition then evaluate_branches row function truth base t rest
         else
           bindE (function_invoke f [base, condition]) (\<lambda>condition.
           bindE (check_value (the truth) integer_type condition) (\<lambda>_.
           if \<not> is_null condition \<and> truthy condition then evaluate row r
           else evaluate_branches row function truth base t rest))
     | None \<Rightarrow>
         if \<not> is_null condition \<and> truthy condition then evaluate row r
         else evaluate_branches row function truth base t rest)"

section \<open>Bound predicates\<close>

record BoundLeaf =
  leaf_left :: BoundExpr
  leaf_right :: BoundExpr
  leaf_operation :: Compare
  leaf_comparison :: Comparison

definition leaf_values :: "BoundLeaf \<Rightarrow> Value \<Rightarrow> Value \<Rightarrow> bool" where
  "leaf_values l a b =
     (if is_null a \<or> is_null b then False
      else (case leaf_operation l of
          C_equal \<Rightarrow> comparison_equal (leaf_comparison l) a b
        | C_not_equal \<Rightarrow> \<not> comparison_equal (leaf_comparison l) a b
        | C_less \<Rightarrow> comparison_compare (leaf_comparison l) a b < 0
        | C_greater \<Rightarrow> comparison_compare (leaf_comparison l) a b > 0
        | C_less_equal \<Rightarrow> comparison_compare (leaf_comparison l) a b \<le> 0
        | C_greater_equal \<Rightarrow> comparison_compare (leaf_comparison l) a b \<ge> 0))"

record BoundMembership =
  member_left :: BoundExpr
  member_right :: BoundExpr
  member_binding :: KeyBinding

datatype BoundPredicate =
  BoundPredicate (bp_kind: PredicateKind) (bp_leaf: "BoundLeaf option")
    (bp_children: "BoundPredicate list") (bp_membership: "BoundMembership option")

text \<open>Truth is 1, 0 or the UNKNOWN -1; a filter accepts only 1.\<close>

definition leaf_truth :: "RowView \<Rightarrow> BoundLeaf \<Rightarrow> int result" where
  "leaf_truth row l =
     bindE (evaluate row (leaf_left l)) (\<lambda>a.
     bindE (evaluate row (leaf_right l)) (\<lambda>b.
     Inr (if is_null a \<or> is_null b then - 1 else of_bool (leaf_values l a b))))"

definition membership_truth :: "RowView \<Rightarrow> BoundMembership \<Rightarrow> int result" where
  "membership_truth row m =
     bindE (evaluate row (member_left m)) (\<lambda>source.
     bindE (evaluate row (member_right m)) (\<lambda>key.
     if is_null source \<or> is_null key then Inr (- 1)
     else bindE (binding_matches (member_binding m) source key) (\<lambda>b. Inr (of_bool b))))"

fun truth :: "RowView \<Rightarrow> BoundPredicate \<Rightarrow> int result"
  and truth_all :: "RowView \<Rightarrow> BoundPredicate list \<Rightarrow> int \<Rightarrow> int result"
  and truth_any :: "RowView \<Rightarrow> BoundPredicate list \<Rightarrow> int \<Rightarrow> int result" where
  "truth row (BoundPredicate kind leaf children membership) =
     (case leaf of
        Some l \<Rightarrow> leaf_truth row l
      | None \<Rightarrow>
          (case kind of
             P_comparison \<Rightarrow> Inl E_state
           | P_contains \<Rightarrow> (case membership of None \<Rightarrow> Inl E_state | Some m \<Rightarrow> membership_truth row m)
           | P_all \<Rightarrow> truth_all row children 1
           | P_any \<Rightarrow> truth_any row children 0
           | P_negation \<Rightarrow>
               (case children of
                  [] \<Rightarrow> Inl E_state
                | c # _ \<Rightarrow> bindE (truth row c) (\<lambda>t. Inr (if t < 0 then - 1 else of_bool (t = 0))))))"
| "truth_all row [] result = Inr result"
| "truth_all row (c # cs) result =
     bindE (truth row c) (\<lambda>t. if t = 0 then Inr 0 else truth_all row cs (if t < 0 then - 1 else result))"
| "truth_any row [] result = Inr result"
| "truth_any row (c # cs) result =
     bindE (truth row c) (\<lambda>t. if t = 1 then Inr 1 else truth_any row cs (if t < 0 then - 1 else result))"

definition matches :: "RowView \<Rightarrow> BoundPredicate \<Rightarrow> bool result" where
  "matches row p = bindE (truth row p) (\<lambda>t. Inr (t = 1))"

definition accepts :: "Row \<Rightarrow> BoundPredicate option \<Rightarrow> bool result" where
  "accepts row p = (case p of None \<Rightarrow> Inr True | Some p \<Rightarrow> matches (plain_row row) p)"

definition direct_comparison :: "BoundPredicate \<Rightarrow> BoundLeaf option" where
  "direct_comparison p =
     (case bp_leaf p of
        Some l \<Rightarrow> if bx_kind (leaf_left l) = K_column \<and> bx_kind (leaf_right l) = K_literal then Some l else None
      | None \<Rightarrow> None)"

fun leading_key_guard :: "BoundPredicate \<Rightarrow> BoundPredicate option" where
  "leading_key_guard (BoundPredicate kind leaf children membership) =
     (if kind = P_comparison \<or> kind = P_contains then Some (BoundPredicate kind leaf children membership)
      else if kind = P_all then (case children of [] \<Rightarrow> None | c # _ \<Rightarrow> leading_key_guard c)
      else None)"

text \<open>An exact index result proves the guard, which then reads as an empty conjunction.\<close>

fun consume_guard :: "BoundPredicate \<Rightarrow> BoundPredicate" where
  "consume_guard (BoundPredicate kind leaf children membership) =
     (if kind = P_comparison \<or> kind = P_contains then BoundPredicate P_all None children None
      else (case children of [] \<Rightarrow> BoundPredicate kind leaf children membership
        | c # cs \<Rightarrow> BoundPredicate kind leaf (consume_guard c # cs) membership))"

subsection \<open>Binding predicates\<close>

fun bind_condition ::
    "Registry \<Rightarrow> Scope \<Rightarrow> nat \<Rightarrow> Predicate \<Rightarrow> nat \<Rightarrow> (BoundPredicate \<times> nat) result"
  and bind_conditions ::
    "Registry \<Rightarrow> Scope \<Rightarrow> nat \<Rightarrow> Predicate list \<Rightarrow> nat \<Rightarrow> (BoundPredicate list \<times> nat) result" where
  "bind_condition reg sc depth (Predicate left operation right kind children extractor) nodes =
     bindE (ensure (\<not> (depth > 64 \<or> Suc nodes > 4096)) E_schema) (\<lambda>_.
     case kind of
       P_contains \<Rightarrow>
         bindE (ensure (children = []) E_schema) (\<lambda>_.
         bindE (bind_expr reg sc depth left) (\<lambda>l.
         bindE (bind_expr reg sc depth right) (\<lambda>r.
         bindE (registry_extractor reg extractor) (\<lambda>x.
         bindE (ensure (\<not> (bx_type l \<noteq> source_type x \<or> bx_type r \<noteq> key_type x)) E_type) (\<lambda>_.
         bindE (registry_addon reg (key_type x)) (\<lambda>a.
         Inr (BoundPredicate kind None []
           (Some \<lparr>member_left = l, member_right = r, member_binding = \<lparr>kb_extractor = x, kb_addon = a\<rparr>\<rparr>),
           Suc nodes)))))))
     | P_comparison \<Rightarrow>
         bindE (ensure (children = []) E_schema) (\<lambda>_.
         bindE (bind_expr reg sc depth left) (\<lambda>l.
         bindE (bind_expr reg sc depth right) (\<lambda>r.
         bindE (ensure (bx_type l = bx_type r) E_type) (\<lambda>_.
         bindE (comparison_new reg (bx_type l) (operation = C_equal \<or> operation = C_not_equal)) (\<lambda>c.
         Inr (BoundPredicate kind
           (Some \<lparr>leaf_left = l, leaf_right = r, leaf_operation = operation, leaf_comparison = c\<rparr>) [] None,
           Suc nodes))))))
     | _ \<Rightarrow>
         bindE (ensure (\<not> (kind = P_negation \<and> length children \<noteq> 1)) E_schema) (\<lambda>_.
         bindE (bind_conditions reg sc (Suc depth) children (Suc nodes)) (\<lambda>(cs, nodes).
         Inr (BoundPredicate kind None cs None, nodes))))"
| "bind_conditions reg sc depth [] nodes = Inr ([], nodes)"
| "bind_conditions reg sc depth (p # ps) nodes =
     bindE (bind_condition reg sc depth p nodes) (\<lambda>(b, nodes).
     bindE (bind_conditions reg sc depth ps nodes) (\<lambda>(bs, nodes). Inr (b # bs, nodes)))"

definition bind_predicate :: "Registry \<Rightarrow> Scope \<Rightarrow> Predicate option \<Rightarrow> BoundPredicate option result" where
  "bind_predicate reg sc p =
     (case p of
        None \<Rightarrow> Inr None
      | Some p \<Rightarrow> bindE (bind_condition reg sc 0 p 0) (\<lambda>(b, _). Inr (Some b)))"

section \<open>Constants and rewriting\<close>

fun transform_expr :: "(Expr \<Rightarrow> Expr result) \<Rightarrow> Expr \<Rightarrow> Expr result" where
  "transform_expr f (Expr kind name v arguments qualifier subquery dist parameters) =
     bindE (mapE (transform_expr f) arguments) (\<lambda>arguments.
     f (Expr kind name v arguments qualifier subquery dist parameters))"

definition evaluate_constant :: "Registry \<Rightarrow> Expr \<Rightarrow> Value result" where
  "evaluate_constant reg e =
     bindE (transform_expr (\<lambda>e. bindE (ensure (expr_kind e \<in> {K_literal, K_call, K_conditional, K_coalesce})
       E_unsupported) (\<lambda>_. Inr e)) e) (\<lambda>_.
     bindE (bind_expr reg (table_scope (empty_table 0)) 0 e) (\<lambda>b.
     evaluate (plain_row []) b))"

fun has_aggregate :: "Expr \<Rightarrow> bool" where
  "has_aggregate (Expr kind name v arguments qualifier subquery dist parameters) \<longleftrightarrow>
     kind = K_aggregate \<or> list_ex has_aggregate arguments"

fun same_expression :: "Expr \<Rightarrow> Expr \<Rightarrow> bool"
  and same_arguments :: "Expr list \<Rightarrow> Expr list \<Rightarrow> bool" where
  "same_expression (Expr k n v xs q s d ps) (Expr k' n' v' ys q' s' d' ps') \<longleftrightarrow>
     d = d' \<and> k = k' \<and> n = n' \<and> q = q' \<and> value_eq v v' \<and> s = None \<and> s' = None \<and> same_arguments xs ys"
| "same_arguments [] [] \<longleftrightarrow> True"
| "same_arguments (x # xs) (y # ys) \<longleftrightarrow> same_expression x y \<and> same_arguments xs ys"
| "same_arguments _ _ \<longleftrightarrow> False"

end
