(* ===== verification/Candidates.thy ===== *)
theory Candidates
  imports Bound
begin

text \<open>
  Index selection: candidates of src/bound.cpp and src/index_selection.cpp. From
  a bound predicate it picks an index and the rows to look at, and drops the
  part of the predicate that the index proves.
\<close>

section \<open>Index candidates\<close>

definition no_rows :: IndexResult where
  "no_rows = \<lparr>result_rows = [], result_exact = True\<rparr>"

definition mirror :: "Compare \<Rightarrow> Compare" where
  "mirror op = (case op of C_less \<Rightarrow> C_greater | C_less_equal \<Rightarrow> C_greater_equal | C_greater \<Rightarrow> C_less
     | C_greater_equal \<Rightarrow> C_less_equal | _ \<Rightarrow> op)"

text \<open>A comparison of a column and a literal, turned so that the column is on the left.\<close>

definition native_column_literal :: "Registry \<Rightarrow> Table \<Rightarrow> BoundPredicate \<Rightarrow> BoundLeaf option result" where
  "native_column_literal reg t p =
     (case bp_leaf p of
        None \<Rightarrow> Inr None
      | Some l \<Rightarrow>
          let left = bx_kind (leaf_left l); right = bx_kind (leaf_right l) in
          if \<not> (left = K_column \<and> right = K_literal \<or> left = K_literal \<and> right = K_column) then Inr None
          else
            let l = (if left = K_literal then
                       l\<lparr>leaf_left := leaf_right l, leaf_right := leaf_left l, leaf_operation := mirror (leaf_operation l)\<rparr>
                     else l) in
            if bx_index (leaf_left l) \<ge> length (table_columns t) then Inr None
            else bindE (registry_addon reg (bx_type (leaf_left l))) (\<lambda>a.
              Inr (if native_scalar a then Some l else None)))"

definition native_key :: "Registry \<Rightarrow> Table \<Rightarrow> BoundPredicate \<Rightarrow> BoundLeaf option result" where
  "native_key reg t p =
     bindE (native_column_literal reg t p) (\<lambda>l.
     Inr (case l of
        None \<Rightarrow> None
      | Some l \<Rightarrow>
          if is_null (bx_value (leaf_right l)) \<or> column_nullable (table_columns t ! bx_index (leaf_left l)) then None
          else Some l))"

subsection \<open>Ranges of the primary key\<close>

type_synonym Bounds = "Value option \<times> Value option"

definition tighten :: "nat \<Rightarrow> BoundLeaf \<Rightarrow> Bounds \<Rightarrow> Bounds" where
  "tighten primary l bounds =
     (case bounds of (lower, upper) \<Rightarrow>
      if bx_index (leaf_left l) \<noteq> primary then bounds
      else
        let v = bx_value (leaf_right l); op = leaf_operation l in
        (if op \<in> {C_equal, C_greater, C_greater_equal}
           \<and> (case lower of None \<Rightarrow> True | Some w \<Rightarrow> comparison_compare (leaf_comparison l) v w > 0) then Some v else lower,
         if op \<in> {C_equal, C_less, C_less_equal}
           \<and> (case upper of None \<Rightarrow> True | Some w \<Rightarrow> comparison_compare (leaf_comparison l) v w < 0) then Some v else upper))"

text \<open>The leading native key comparisons of a conjunction: the flag says whether all of it was one.\<close>

fun collect_range ::
    "Registry \<Rightarrow> Table \<Rightarrow> nat \<Rightarrow> BoundPredicate \<Rightarrow> Bounds \<Rightarrow> (bool \<times> Bounds) result"
  and collect_ranges ::
    "Registry \<Rightarrow> Table \<Rightarrow> nat \<Rightarrow> BoundPredicate list \<Rightarrow> Bounds \<Rightarrow> (bool \<times> Bounds) result" where
  "collect_range reg t primary (BoundPredicate kind leaf children membership) bounds =
     (if kind = P_all then collect_ranges reg t primary children bounds
      else
        bindE (native_key reg t (BoundPredicate kind leaf children membership)) (\<lambda>l.
        Inr (case l of None \<Rightarrow> (False, bounds) | Some l \<Rightarrow> (True, tighten primary l bounds))))"
| "collect_ranges reg t primary [] bounds = Inr (True, bounds)"
| "collect_ranges reg t primary (p # ps) bounds =
     bindE (collect_range reg t primary p bounds) (\<lambda>(more, bounds).
     if more then collect_ranges reg t primary ps bounds else Inr (False, bounds))"

definition primary_range_candidates ::
    "Registry \<Rightarrow> Table \<Rightarrow> BoundPredicate option \<Rightarrow> IndexResult option result" where
  "primary_range_candidates reg t p =
     (case (table_primary t, p) of
        (Some primary, Some p) \<Rightarrow>
          bindE (registry_addon reg (column_type (table_columns t ! binding_column primary))) (\<lambda>a.
          if addon_compare a = None then Inr None
          else
            bindE (collect_range reg t (binding_column primary) p (None, None)) (\<lambda>(_, lower, upper).
            if lower = None \<and> upper = None then Inr None
            else
              bindE (ix_range (binding_data primary) lower upper) (\<lambda>found.
              Inr (map_option (\<lambda>r. r\<lparr>result_exact := False\<rparr>) found))))
      | _ \<Rightarrow> Inr None)"

subsection \<open>Composite keys\<close>

fun collect_prefix ::
    "Registry \<Rightarrow> Table \<Rightarrow> BoundPredicate \<Rightarrow> BoundLeaf list \<Rightarrow> (bool \<times> BoundLeaf list) result"
  and collect_prefixes ::
    "Registry \<Rightarrow> Table \<Rightarrow> BoundPredicate list \<Rightarrow> BoundLeaf list \<Rightarrow> (bool \<times> BoundLeaf list) result" where
  "collect_prefix reg t (BoundPredicate kind leaf children membership) found =
     (if kind = P_all then collect_prefixes reg t children found
      else
        (case direct_comparison (BoundPredicate kind leaf children membership) of
           None \<Rightarrow> Inr (False, found)
         | Some l \<Rightarrow>
             if bx_index (leaf_left l) \<ge> length (table_columns t) \<or> is_null (bx_value (leaf_right l))
               \<or> column_nullable (table_columns t ! bx_index (leaf_left l)) then Inr (False, found)
             else
               bindE (registry_addon reg (bx_type (leaf_left l))) (\<lambda>a.
               Inr (if native_scalar a then (True, found @ [l]) else (False, found)))))"
| "collect_prefixes reg t [] found = Inr (True, found)"
| "collect_prefixes reg t (p # ps) found =
     bindE (collect_prefix reg t p found) (\<lambda>(more, found).
     if more then collect_prefixes reg t ps found else Inr (False, found))"

text \<open>The keys one index can use: equal leading columns, then bounds on the next.\<close>

definition equal_key :: "BoundLeaf list \<Rightarrow> nat \<Rightarrow> Value option" where
  "equal_key leaves column =
     map_option (\<lambda>l. bx_value (leaf_right l))
       (find (\<lambda>l. bx_index (leaf_left l) = column \<and> leaf_operation l = C_equal) leaves)"

definition last_bound :: "BoundLeaf list \<Rightarrow> nat \<Rightarrow> Compare set \<Rightarrow> Value option" where
  "last_bound leaves column ops =
     map_option (\<lambda>l. bx_value (leaf_right l))
       (find (\<lambda>l. bx_index (leaf_left l) = column \<and> leaf_operation l \<in> ops) (rev leaves))"

fun index_keys :: "BoundLeaf list \<Rightarrow> nat list \<Rightarrow> Row \<times> Bounds" where
  "index_keys leaves [] = ([], None, None)"
| "index_keys leaves (column # columns) =
     (case equal_key leaves column of
        Some v \<Rightarrow> (case index_keys leaves columns of (keys, bounds) \<Rightarrow> (v # keys, bounds))
      | None \<Rightarrow> ([], last_bound leaves column {C_greater_equal, C_greater},
          last_bound leaves column {C_less_equal, C_less}))"

definition key_score :: "Row \<times> Bounds \<Rightarrow> nat" where
  "key_score k = (case k of (keys, lo, hi) \<Rightarrow> 2 * length keys + (if lo \<noteq> None \<or> hi \<noteq> None then 1 else 0))"

fun choose_index ::
    "BoundLeaf list \<Rightarrow> OrderedIndex list \<Rightarrow> nat \<Rightarrow> (OrderedIndex \<times> Row \<times> Bounds) option \<Rightarrow> (OrderedIndex \<times> Row \<times> Bounds) option" where
  "choose_index leaves [] best chosen = chosen"
| "choose_index leaves (x # xs) best chosen =
     (let k = index_keys leaves (oi_columns x) in
      if key_score k > best then choose_index leaves xs (key_score k) (Some (x, k))
      else choose_index leaves xs best chosen)"

definition composite_candidates ::
    "Registry \<Rightarrow> Table \<Rightarrow> BoundPredicate option \<Rightarrow> IndexResult option result" where
  "composite_candidates reg t p =
     (case p of
        None \<Rightarrow> Inr None
      | Some p \<Rightarrow>
          if table_ordered t = [] then Inr None
          else
            bindE (collect_prefix reg t p []) (\<lambda>(_, leaves).
            case choose_index leaves (table_ordered t) 0 None of
              None \<Rightarrow> Inr None
            | Some (x, keys, lo, hi) \<Rightarrow>
                bindE (oi_prefix_range x keys lo hi) (\<lambda>rows.
                Inr (Some \<lparr>result_rows = rows, result_exact = False\<rparr>))))"

subsection \<open>Candidates\<close>

definition member_candidates :: "Table \<Rightarrow> BoundPredicate option \<Rightarrow> IndexResult option result" where
  "member_candidates t guard =
     (case Option.bind guard bp_membership of
        None \<Rightarrow> Inr None
      | Some m \<Rightarrow>
          if bx_kind (member_left m) = K_column \<and> bx_kind (member_right m) = K_literal \<and> \<not> is_null (bx_value (member_right m))
          then
            (case find (\<lambda>b. binding_column b = bx_index (member_left m)
                \<and> column_index (table_columns t ! binding_column b) = extractor_name (kb_extractor (member_binding m)))
                (table_indexes t) of
               None \<Rightarrow> Inr None
             | Some b \<Rightarrow> bindE (ix_search (binding_data b) ''equal'' (bx_value (member_right m))) (\<lambda>r. Inr (Some r)))
          else Inr None)"

definition point_candidates :: "Table \<Rightarrow> BoundPredicate option \<Rightarrow> IndexResult option \<Rightarrow> IndexResult option result" where
  "point_candidates t guard found =
     (case (table_primary t, Option.bind guard bp_leaf) of
        (Some primary, Some l) \<Rightarrow>
          if leaf_operation l = C_equal then
            let (left, right) = (if bx_kind (leaf_left l) = K_literal then (leaf_right l, leaf_left l)
                                 else (leaf_left l, leaf_right l)) in
            if bx_kind left = K_column \<and> bx_index left = binding_column primary \<and> bx_kind right = K_literal then
              (if is_null (bx_value right) then Inr (Some no_rows)
               else
                 bindE (table_lookup t (bx_value right)) (\<lambda>location.
                 Inr (Some \<lparr>result_rows = (case location of None \<Rightarrow> [] | Some p \<Rightarrow> [p]), result_exact = True\<rparr>)))
            else Inr found
          else Inr found
      | _ \<Rightarrow> Inr found)"

text \<open>The first ordered index that leads with the guard's column and can use the guard.\<close>

definition leading_range :: "BoundPredicate \<Rightarrow> BoundLeaf \<Rightarrow> OrderedIndex \<Rightarrow> RowLocation list option" where
  "leading_range p l x =
     (let v = bx_value (leaf_right l);
          equal = (if leaf_operation l = C_equal then Some (oi_range x v v) else None) in
      if bp_kind p = P_all \<and> length (bp_children p) \<ge> 2 then
        (case bp_leaf (bp_children p ! 1) of
           None \<Rightarrow> equal
         | Some n \<Rightarrow>
             if bx_kind (leaf_left n) = K_column \<and> bx_index (leaf_left n) = bx_index (leaf_left l)
               \<and> bx_kind (leaf_right n) = K_literal \<and> \<not> is_null (bx_value (leaf_right n))
               \<and> leaf_operation l = C_greater_equal \<and> leaf_operation n = C_less_equal
             then Some (oi_range x v (bx_value (leaf_right n))) else equal)
      else equal)"

fun leading_candidates ::
    "Table \<Rightarrow> BoundPredicate \<Rightarrow> BoundLeaf \<Rightarrow> OrderedIndex list \<Rightarrow> IndexResult option" where
  "leading_candidates t p l [] = None"
| "leading_candidates t p l (x # xs) =
     (if hd (oi_columns x) = bx_index (leaf_left l) then
        (case leading_range p l x of
           None \<Rightarrow> leading_candidates t p l xs
         | Some rows \<Rightarrow>
             let null = Null (bx_type (leaf_left l)) in
             Some \<lparr>result_rows = (if column_nullable (table_columns t ! bx_index (leaf_left l)) \<and> bp_kind p \<noteq> P_comparison
                 then rows @ oi_range x null null else rows), result_exact = False\<rparr>)
      else leading_candidates t p l xs)"

definition guard_candidates :: "Table \<Rightarrow> BoundPredicate option \<Rightarrow> BoundPredicate option \<Rightarrow> IndexResult option" where
  "guard_candidates t p guard =
     (case (p, Option.bind guard bp_leaf) of
        (Some p, Some l) \<Rightarrow>
          if bx_kind (leaf_left l) = K_column \<and> bx_kind (leaf_right l) = K_literal \<and> \<not> is_null (bx_value (leaf_right l))
          then leading_candidates t p l (table_ordered t) else None
      | _ \<Rightarrow> None)"

definition consume_exact :: "BoundPredicate option \<Rightarrow> IndexResult option \<Rightarrow> BoundPredicate option" where
  "consume_exact p found =
     (case (p, found) of
        (Some q, Some r) \<Rightarrow>
          if result_exact r then
            (if bp_kind q = P_comparison \<or> bp_kind q = P_contains then None else Some (consume_guard q))
          else p
      | _ \<Rightarrow> p)"

definition or_else :: "'a option result \<Rightarrow> 'a option result \<Rightarrow> 'a option result" where
  "or_else m n = bindE m (\<lambda>x. case x of None \<Rightarrow> n | Some y \<Rightarrow> Inr (Some y))"

definition candidates ::
    "Registry \<Rightarrow> Table \<Rightarrow> BoundPredicate option \<Rightarrow> (IndexResult option \<times> BoundPredicate option) result" where
  "candidates reg t p =
     (let guard = Option.bind p leading_key_guard in
      bindE (or_else (or_else (or_else
        (bindE (member_candidates t guard) (point_candidates t guard))
        (composite_candidates reg t p))
        (primary_range_candidates reg t p))
        (Inr (guard_candidates t p guard))) (\<lambda>found.
      Inr (found, consume_exact p found)))"

definition normalize :: "IndexResult \<Rightarrow> IndexResult" where
  "normalize r = r\<lparr>result_rows := remdups_adj (sort (result_rows r))\<rparr>"

subsection \<open>Guards of a join\<close>

fun collect_keys :: "Registry \<Rightarrow> Table \<Rightarrow> BoundPredicate \<Rightarrow> BoundPredicate list result"
  and collect_all_keys :: "Registry \<Rightarrow> Table \<Rightarrow> BoundPredicate list \<Rightarrow> BoundPredicate list result" where
  "collect_keys reg t (BoundPredicate kind leaf children membership) =
     (if kind = P_all then collect_all_keys reg t children
      else
        bindE (native_key reg t (BoundPredicate kind leaf children membership)) (\<lambda>l.
        Inr (case l of None \<Rightarrow> [] | Some l \<Rightarrow> [BoundPredicate P_comparison (Some l) [] None])))"
| "collect_all_keys reg t [] = Inr []"
| "collect_all_keys reg t (p # ps) =
     bindE (collect_keys reg t p) (\<lambda>ks. bindE (collect_all_keys reg t ps) (\<lambda>ms. Inr (ks @ ms)))"

definition primary_point :: "Table \<Rightarrow> BoundPredicate \<Rightarrow> bool" where
  "primary_point t k \<longleftrightarrow>
     (case (table_primary t, bp_leaf k) of
        (Some primary, Some l) \<Rightarrow> bx_index (leaf_left l) = binding_column primary \<and> leaf_operation l = C_equal
      | _ \<Rightarrow> False)"

text \<open>A primary-key equality moves to the front, changing places with the first key.\<close>

definition point_first :: "Table \<Rightarrow> BoundPredicate list \<Rightarrow> BoundPredicate list" where
  "point_first t keys =
     (let i = length (takeWhile (\<lambda>k. \<not> primary_point t k) keys) in
      if i < length keys then keys[0 := keys ! i, i := keys ! 0] else keys)"

fun join_guard_candidates :: "Registry \<Rightarrow> Table \<Rightarrow> BoundPredicate \<Rightarrow> IndexResult option result"
  and join_arm_candidates :: "Registry \<Rightarrow> Table \<Rightarrow> BoundPredicate list \<Rightarrow> RowLocation list option result" where
  "join_guard_candidates reg t (BoundPredicate kind leaf children membership) =
     (if kind = P_any then
        bindE (join_arm_candidates reg t children) (\<lambda>rows.
        Inr (map_option (\<lambda>rows. normalize \<lparr>result_rows = rows, result_exact = False\<rparr>) rows))
      else
        bindE (collect_keys reg t (BoundPredicate kind leaf children membership)) (\<lambda>keys.
        if keys = [] then Inr None
        else
          bindE (candidates reg t (Some (BoundPredicate P_all None (point_first t keys) None))) (\<lambda>(found, _).
          Inr (map_option normalize found))))"
| "join_arm_candidates reg t [] = Inr (Some [])"
| "join_arm_candidates reg t (p # ps) =
     bindE (join_guard_candidates reg t p) (\<lambda>found.
     case found of
       None \<Rightarrow> Inr None
     | Some r \<Rightarrow>
         bindE (join_arm_candidates reg t ps) (\<lambda>rest.
         Inr (map_option (\<lambda>rows. result_rows r @ rows) rest)))"

end
