(* ===== verification/Constraints.thy ===== *)
theory Constraints
  imports Candidates Snapshot
begin

text \<open>
  Row visits of src/scan.hpp, the CHECK and FOREIGN KEY constraints of
  src/constraints.cpp, and the upkeep of indexes of src/index.cpp.
\<close>

section \<open>Visiting rows\<close>

text \<open>A visit threads a state and stops early when the visitor answers \<open>False\<close>.\<close>

fun visit_list :: "('a \<Rightarrow> 's \<Rightarrow> (bool \<times> 's) result) \<Rightarrow> 'a list \<Rightarrow> 's \<Rightarrow> (bool \<times> 's) result" where
  "visit_list f [] s = Inr (True, s)"
| "visit_list f (x # xs) s =
     bindE (f x s) (\<lambda>(more, s). if more then visit_list f xs s else Inr (False, s))"

fun set_intersection :: "'a::linorder list \<Rightarrow> 'a list \<Rightarrow> 'a list" where
  "set_intersection (x # xs) (y # ys) =
     (if x < y then set_intersection xs (y # ys)
      else if y < x then set_intersection (x # xs) ys
      else x # set_intersection xs ys)"
| "set_intersection _ _ = []"

text \<open>Maximal runs of locations in the same chunk.\<close>

function group_rows :: "RowLocation list \<Rightarrow> RowLocation list list" where
  "group_rows [] = []"
| "group_rows (p # ps) =
     (p # takeWhile (\<lambda>q. loc_chunk q = loc_chunk p) ps)
       # group_rows (dropWhile (\<lambda>q. loc_chunk q = loc_chunk p) ps)"
  by pat_completeness auto

termination
  by (relation "measure length") (auto simp: le_imp_less_Suc length_dropWhile_le)

definition indexed_row :: "Table \<Rightarrow> RowLocation \<Rightarrow> (Chunk \<times> nat) result" where
  "indexed_row t p =
     (case map_of (table_chunks t) (loc_chunk p) of
        None \<Rightarrow> Inl E_state
      | Some c \<Rightarrow>
          let i = chunk_position c (loc_slot p) in
          bindE (ensure (\<not> i = length (chunk_rows c)) E_state) (\<lambda>_. Inr (c, i)))"

definition selected_rows :: "Table \<Rightarrow> IndexResult option \<Rightarrow> RowLocation list option" where
  "selected_rows t selected =
     (case (selected, table_selection t) of
        (None, None) \<Rightarrow> None
      | (Some r, None) \<Rightarrow> Some (result_rows r)
      | (None, Some visible) \<Rightarrow> Some visible
      | (Some r, Some visible) \<Rightarrow> Some (set_intersection (result_rows r) visible))"

definition visit_group ::
    "Table \<Rightarrow> (u64 \<Rightarrow> Chunk \<Rightarrow> RowLocation list option \<Rightarrow> 's \<Rightarrow> (bool \<times> 's) result)
      \<Rightarrow> RowLocation list \<Rightarrow> 's \<Rightarrow> (bool \<times> 's) result" where
  "visit_group t visit rows s =
     (case map_of (table_chunks t) (loc_chunk (hd rows)) of
        None \<Rightarrow> Inl E_state
      | Some c \<Rightarrow>
          bindE (ensure (\<forall>p \<in> set rows. chunk_position c (loc_slot p) \<noteq> length (chunk_rows c)) E_state) (\<lambda>_.
          visit (loc_chunk (hd rows)) c (Some rows) s))"

definition visit_chunks ::
    "Table \<Rightarrow> IndexResult option \<Rightarrow> (u64 \<Rightarrow> Chunk \<Rightarrow> RowLocation list option \<Rightarrow> 's \<Rightarrow> (bool \<times> 's) result)
      \<Rightarrow> 's \<Rightarrow> (bool \<times> 's) result" where
  "visit_chunks t selected visit s =
     (case selected_rows t selected of
        None \<Rightarrow> visit_list (\<lambda>(cid, c). visit cid c None) (table_chunks t) s
      | Some rows \<Rightarrow> visit_list (visit_group t visit) (group_rows rows) s)"

definition visit_rows ::
    "Chunk \<Rightarrow> RowLocation list option \<Rightarrow> (nat \<Rightarrow> Row \<Rightarrow> 's \<Rightarrow> (bool \<times> 's) result) \<Rightarrow> 's \<Rightarrow> (bool \<times> 's) result" where
  "visit_rows c selected visit s =
     visit_list (\<lambda>i. visit i (chunk_rows c ! i))
       (case selected of
          Some rows \<Rightarrow> map (\<lambda>p. chunk_position c (loc_slot p)) rows
        | None \<Rightarrow> [0..<length (chunk_rows c)]) s"

definition visit_table_rows ::
    "Table \<Rightarrow> (RowLocation \<Rightarrow> Row \<Rightarrow> i64 \<Rightarrow> 's \<Rightarrow> (bool \<times> 's) result) \<Rightarrow> 's \<Rightarrow> (bool \<times> 's) result" where
  "visit_table_rows t visit s =
     visit_chunks t None (\<lambda>cid c rows.
       visit_rows c rows (\<lambda>i row. visit (RowLocation cid (chunk_slot c i)) row (chunk_rowids c ! i))) s"

text \<open>A visitor that only checks, and never stops.\<close>

definition check_table_rows :: "Table \<Rightarrow> (Row \<Rightarrow> unit result) \<Rightarrow> unit result" where
  "check_table_rows t check =
     bindE (visit_table_rows t (\<lambda>_ row _ _. bindE (check row) (\<lambda>_. Inr (True, ()))) ()) (\<lambda>_. Inr ())"

section \<open>Constraints\<close>

definition constraint_position :: "Table \<Rightarrow> string \<Rightarrow> nat result" where
  "constraint_position t name =
     (case find_column name (table_columns t) of None \<Rightarrow> Inl E_schema | Some i \<Rightarrow> Inr i)"

fun positions_loop :: "Table \<Rightarrow> string list \<Rightarrow> string list \<Rightarrow> nat list result" where
  "positions_loop t seen [] = Inr []"
| "positions_loop t seen (n # ns) =
     bindE (ensure (n \<notin> set seen) E_schema) (\<lambda>_.
     bindE (constraint_position t n) (\<lambda>i.
     bindE (positions_loop t (n # seen) ns) (\<lambda>is. Inr (i # is))))"

definition constraint_positions :: "Table \<Rightarrow> string list \<Rightarrow> nat list result" where
  "constraint_positions t names =
     bindE (ensure (names \<noteq> []) E_schema) (\<lambda>_. positions_loop t [] names)"

definition bound_checks :: "Registry \<Rightarrow> Table \<Rightarrow> BoundExpr list result" where
  "bound_checks reg t =
     mapE (\<lambda>check.
       bindE (validate_check_expression (check_expression check)) (\<lambda>_.
       bindE (bind_expr reg (table_scope t) 0 (check_expression check)) (\<lambda>b.
       bindE (ensure (bx_type b = integer_type) E_type) (\<lambda>_. Inr b))))
       (checks_of (table_constraints t))"

definition check_row :: "BoundExpr list \<Rightarrow> Row \<Rightarrow> unit result" where
  "check_row bound row =
     forE (\<lambda>b. bindE (evaluate (plain_row row) b) (\<lambda>v.
       ensure (is_null v \<or> truthy v) E_constraint)) bound"

record Reference =
  ref_parent :: Table
  ref_child_columns :: "nat list"
  ref_parent_columns :: "nat list"
  ref_index :: "OrderedIndex option"
  ref_primary :: bool

definition reference_new :: "ForeignKey \<Rightarrow> Table \<Rightarrow> Tables \<Rightarrow> Reference result" where
  "reference_new key child tables =
     bindE (require_table tables (fk_table key)) (\<lambda>parent.
     bindE (constraint_positions child (fk_columns key)) (\<lambda>cs.
     bindE (constraint_positions parent (fk_referenced key)) (\<lambda>ps.
     bindE (ensure (length cs = length ps) E_schema) (\<lambda>_.
     bindE (forE (\<lambda>(c, p). ensure (column_type (table_columns child ! c) = column_type (table_columns parent ! p)) E_type)
       (zip cs ps)) (\<lambda>_.
     let primary = (case table_primary parent of None \<Rightarrow> False
           | Some b \<Rightarrow> length ps = 1 \<and> binding_column b = ps ! 0);
         index = find (\<lambda>x. index_is_unique (oi_definition x) \<and> index_columns (oi_definition x) = fk_referenced key)
           (table_ordered parent) in
     bindE (ensure (\<not> (\<not> primary \<and> index = None)) E_schema) (\<lambda>_.
     Inr \<lparr>ref_parent = parent, ref_child_columns = cs, ref_parent_columns = ps, ref_index = index, ref_primary = primary\<rparr>))))))"

text \<open>A row that is being inserted may reference itself.\<close>

fun references_itself :: "Registry \<Rightarrow> Table \<Rightarrow> Row \<Rightarrow> (Value \<times> nat) list \<Rightarrow> bool result" where
  "references_itself reg parent row [] = Inr True"
| "references_itself reg parent row ((k, c) # rest) =
     (if is_null (row ! c) then Inr False
      else
        bindE (comparison_new reg (column_type (table_columns parent ! c)) True) (\<lambda>cmp.
        if comparison_equal cmp k (row ! c) then references_itself reg parent row rest else Inr False))"

definition reference_validate :: "Registry \<Rightarrow> Reference \<Rightarrow> bool \<Rightarrow> Row \<Rightarrow> unit result" where
  "reference_validate reg r self_insert row =
     (let key = map (\<lambda>c. row ! c) (ref_child_columns r) in
      if list_ex is_null key then Inr ()
      else
        bindE (if self_insert then references_itself reg (ref_parent r) row (zip key (ref_parent_columns r)) else Inr False)
          (\<lambda>same.
        if same then Inr ()
        else
          bindE (if ref_primary r then bindE (table_lookup (ref_parent r) (hd key)) (\<lambda>found. Inr (found \<noteq> None))
                 else bindE (oi_equal (the (ref_index r)) key) (\<lambda>rows. Inr (rows \<noteq> []))) (\<lambda>found.
          ensure found E_constraint)))"

definition constraint_names :: "TableConstraints \<Rightarrow> unit result" where
  "constraint_names k =
     (let names = map check_name (checks_of k) @ map fk_name (foreign_keys_of k) in
      ensure ([] \<notin> set names \<and> distinct names) E_schema)"

definition validate_constraints :: "Registry \<Rightarrow> Tables \<Rightarrow> string \<Rightarrow> unit result" where
  "validate_constraints reg tables changed =
     forE (\<lambda>(name, t).
       bindE (constraint_names (table_constraints t)) (\<lambda>_.
       bindE (if changed = [] \<or> name = changed then
                bindE (bound_checks reg t) (\<lambda>bound.
                if bound \<noteq> [] then check_table_rows t (check_row bound) else Inr ())
              else Inr ()) (\<lambda>_.
       forE (\<lambda>key.
         bindE (reference_new key t tables) (\<lambda>r.
         if changed = [] \<or> name = changed \<or> fk_table key = changed
         then check_table_rows t (reference_validate reg r False) else Inr ()))
         (foreign_keys_of (table_constraints t))))) tables"

definition validate_insert_constraints :: "Registry \<Rightarrow> Tables \<Rightarrow> string \<Rightarrow> Row \<Rightarrow> unit result" where
  "validate_insert_constraints reg tables name row =
     bindE (require_table tables name) (\<lambda>t.
     bindE (bound_checks reg t) (\<lambda>bound.
     bindE (check_row bound row) (\<lambda>_.
     forE (\<lambda>key.
       bindE (reference_new key t tables) (\<lambda>r.
       reference_validate reg r (fk_table key = name) row))
       (foreign_keys_of (table_constraints t)))))"

text \<open>The rows of the chunks that differ from the original's.\<close>

definition changed_rows :: "Table \<Rightarrow> Table \<Rightarrow> Row list" where
  "changed_rows original replacement =
     concat (map (\<lambda>(cid, c). chunk_rows c)
       (filter (\<lambda>(cid, c). map_of (table_chunks original) cid \<noteq> Some c) (table_chunks replacement)))"

definition validate_replacement_constraints :: "Registry \<Rightarrow> Tables \<Rightarrow> string \<Rightarrow> Table \<Rightarrow> unit result" where
  "validate_replacement_constraints reg tables name replacement =
     bindE (require_table tables name) (\<lambda>original.
     bindE (bound_checks reg replacement) (\<lambda>bound.
     bindE (if bound \<noteq> [] then forE (check_row bound) (changed_rows original replacement) else Inr ()) (\<lambda>_.
     if \<not> list_ex (\<lambda>(other, t). list_ex (\<lambda>key. other = name \<or> fk_table key = name)
         (foreign_keys_of (table_constraints t))) tables
     then Inr ()
     else
       let candidate = assign name replacement tables in
       forE (\<lambda>(child, t).
         forE (\<lambda>key.
           if child = name \<or> fk_table key = name then
             bindE (reference_new key t candidate) (\<lambda>r.
             if child = name \<and> fk_table key \<noteq> name
             then forE (reference_validate reg r False) (changed_rows original replacement)
             else check_table_rows t (reference_validate reg r False))
           else Inr ())
           (foreign_keys_of (table_constraints t))) candidate)))"

section \<open>Keeping indexes current\<close>

text \<open>
  Chunks of the replacement that differ from the original, each with its
  original; an update keeps chunk ids and row positions.
\<close>

definition edited_chunks :: "Table \<Rightarrow> Table \<Rightarrow> (u64 \<times> Chunk \<times> Chunk) list" where
  "edited_chunks original replacement =
     concat (map (\<lambda>(cid, c). case map_of (table_chunks original) cid of
        Some before \<Rightarrow> if before = c then [] else [(cid, before, c)]
      | None \<Rightarrow> []) (table_chunks replacement))"

definition edited_rows :: "Table \<Rightarrow> Table \<Rightarrow> (u64 \<times> Chunk \<times> Chunk \<times> nat) list" where
  "edited_rows original replacement =
     concat (map (\<lambda>(cid, before, c). map (\<lambda>i. (cid, before, c, i)) [0..<length (chunk_rows c)])
       (edited_chunks original replacement))"

text \<open>
  Keys that a unique index may treat as unchanged are those its type calls
  equal; any other index distinguishes stored representations.
\<close>

definition same_key :: "bool \<Rightarrow> TypeAddon \<Rightarrow> Type \<Rightarrow> Value \<Rightarrow> Value \<Rightarrow> bool" where
  "same_key unique a t x y =
     (case addon_equal a of
        Some eq \<Rightarrow> if unique then eq (type_parameters t) x y else same_stored_value x y
      | None \<Rightarrow> same_stored_value x y)"

definition synchronize_binding ::
    "Registry \<Rightarrow> Table \<Rightarrow> Table \<Rightarrow> nat set \<Rightarrow> bool \<Rightarrow> IndexBinding \<Rightarrow> IndexBinding result" where
  "synchronize_binding reg original replacement assigned unique b =
     (let column = binding_column b; t = column_type (table_columns original ! column) in
      if column \<notin> assigned then Inr b
      else
        bindE (registry_addon reg t) (\<lambda>a.
        let edits = filter (\<lambda>(cid, before, c, i).
              \<not> same_key unique a t (chunk_rows before ! i ! column) (chunk_rows c ! i ! column))
              (edited_rows original replacement) in
        bindE (foldE (\<lambda>(cid, before, c, i) x. ix_erase x (chunk_rows before ! i ! column) (RowLocation cid (chunk_slot c i)))
          edits (binding_data b)) (\<lambda>x.
        bindE (foldE (\<lambda>(cid, before, c, i) x. ix_insert x (chunk_rows c ! i ! column) (RowLocation cid (chunk_slot c i)))
          edits x) (\<lambda>x.
        Inr (b\<lparr>binding_data := x\<rparr>)))))"

definition synchronize_ordered :: "Table \<Rightarrow> Table \<Rightarrow> nat set \<Rightarrow> OrderedIndex \<Rightarrow> OrderedIndex result" where
  "synchronize_ordered original replacement assigned x =
     (if \<not> list_ex (\<lambda>c. c \<in> assigned) (oi_columns x) then Inr x
      else
        let edits = filter (\<lambda>(cid, before, c, i).
              \<not> list_all (\<lambda>k. same_stored_value (chunk_rows before ! i ! k) (chunk_rows c ! i ! k)) (oi_columns x))
              (edited_rows original replacement) in
        bindE (foldE (\<lambda>(cid, before, c, i) x. oi_erase x (chunk_rows before ! i) (RowLocation cid (chunk_slot before i)))
          edits x) (\<lambda>x.
        foldE (\<lambda>(cid, before, c, i) x. oi_insert x (chunk_rows c ! i) (RowLocation cid (chunk_slot c i))) edits x))"

definition synchronize_index :: "Registry \<Rightarrow> Table \<Rightarrow> Table \<Rightarrow> nat set \<Rightarrow> Table result" where
  "synchronize_index reg original replacement assigned =
     bindE (mapE (synchronize_ordered original replacement assigned) (table_ordered replacement)) (\<lambda>ordered.
     bindE (case table_primary replacement of
              None \<Rightarrow> Inr None
            | Some b \<Rightarrow> bindE (synchronize_binding reg original replacement assigned True b) (\<lambda>b. Inr (Some b))) (\<lambda>primary.
     bindE (mapE (synchronize_binding reg original replacement assigned False) (table_indexes replacement)) (\<lambda>indexes.
     Inr (replacement\<lparr>table_ordered := ordered, table_primary := primary, table_indexes := indexes\<rparr>))))"

text \<open>Entering one row, into the ordered indexes, the primary index and the rest.\<close>

definition binding_insert :: "Row \<Rightarrow> RowLocation \<Rightarrow> IndexBinding \<Rightarrow> IndexBinding result" where
  "binding_insert row p b =
     bindE (ix_insert (binding_data b) (row ! binding_column b) p) (\<lambda>x. Inr (b\<lparr>binding_data := x\<rparr>))"

definition binding_erase :: "Row \<Rightarrow> RowLocation \<Rightarrow> IndexBinding \<Rightarrow> IndexBinding result" where
  "binding_erase row p b =
     bindE (ix_erase (binding_data b) (row ! binding_column b) p) (\<lambda>x. Inr (b\<lparr>binding_data := x\<rparr>))"

definition optE :: "('a \<Rightarrow> 'b result) \<Rightarrow> 'a option \<Rightarrow> 'b option result" where
  "optE f x = (case x of None \<Rightarrow> Inr None | Some a \<Rightarrow> bindE (f a) (\<lambda>b. Inr (Some b)))"

definition index_row :: "Row \<Rightarrow> RowLocation \<Rightarrow> Table \<Rightarrow> Table result" where
  "index_row row p t =
     bindE (mapE (\<lambda>x. oi_insert x row p) (table_ordered t)) (\<lambda>ordered.
     bindE (optE (binding_insert row p) (table_primary t)) (\<lambda>primary.
     bindE (mapE (binding_insert row p) (table_indexes t)) (\<lambda>indexes.
     Inr (t\<lparr>table_ordered := ordered, table_primary := primary, table_indexes := indexes\<rparr>))))"

definition located_rows :: "u64 \<times> Chunk \<Rightarrow> (RowLocation \<times> Row) list" where
  "located_rows e =
     (case e of (cid, c) \<Rightarrow> map (\<lambda>i. (RowLocation cid (chunk_slot c i), chunk_rows c ! i)) [0..<length (chunk_rows c)])"

definition table_rows :: "Table \<Rightarrow> (RowLocation \<times> Row) list" where
  "table_rows t = concat (map located_rows (table_chunks t))"

definition rebuild_table :: "Registry \<Rightarrow> Table \<Rightarrow> Table result" where
  "rebuild_table reg t =
     bindE (make_indexes reg t) (\<lambda>t. foldE (\<lambda>(p, row). index_row row p) (table_rows t) t)"

definition rebuild_indexes :: "Registry \<Rightarrow> Tables \<Rightarrow> Tables result" where
  "rebuild_indexes reg tables =
     mapE (\<lambda>(name, t). bindE (rebuild_table reg t) (\<lambda>t. Inr (name, t))) tables"

end
