(* ===== verification/Schema_Ops.thy ===== *)
theory Schema_Ops
  imports Constraints
begin

text \<open>
  Schema changes and maintenance of a transaction: src/schema.cpp and the
  constraint declarations of src/constraints.cpp.
\<close>

section \<open>Staged states\<close>

text \<open>
  What a transaction edits: its private state and whether anything was
  changed. An operation that fails leaves it as it was.
\<close>

record Staged =
  staged_state :: State
  staged_dirty :: bool

definition staged_tables :: "Staged \<Rightarrow> Tables" where
  "staged_tables s = state_tables (staged_state s)"

definition put_tables :: "Tables \<Rightarrow> Staged \<Rightarrow> Staged" where
  "put_tables ts s = s\<lparr>staged_state := (staged_state s)\<lparr>state_tables := ts\<rparr>, staged_dirty := True\<rparr>"

text \<open>A table object created or copied by an operation gets the next image number.\<close>

definition next_image :: "Staged \<Rightarrow> nat" where
  "next_image s = state_images (staged_state s)"

definition take_images :: "nat \<Rightarrow> Staged \<Rightarrow> Staged" where
  "take_images n s = s\<lparr>staged_state := (staged_state s)\<lparr>state_images := n\<rparr>\<rparr>"

definition put_table :: "string \<Rightarrow> Table \<Rightarrow> Staged \<Rightarrow> Staged" where
  "put_table name t s =
     put_tables (assign name (t\<lparr>table_image := next_image s\<rparr>) (staged_tables s)) (take_images (Suc (next_image s)) s)"

definition new_epoch :: "Staged \<Rightarrow> Staged" where
  "new_epoch s =
     s\<lparr>staged_state := (staged_state s)\<lparr>state_epoch := next_image s, state_images := Suc (next_image s)\<rparr>\<rparr>"

section \<open>Creating and reorganising\<close>

fun check_columns :: "Registry \<Rightarrow> string list \<Rightarrow> Column list \<Rightarrow> unit result" where
  "check_columns reg seen [] = Inr ()"
| "check_columns reg seen (c # cs) =
     bindE (ensure (\<not> (column_name c = [] \<or> column_name c \<in> set seen)) E_schema) (\<lambda>_.
     bindE (registry_validate_type reg (column_type c)) (\<lambda>_.
     bindE (case column_default c of None \<Rightarrow> Inr () | Some v \<Rightarrow> validate_stored reg c v) (\<lambda>_.
     check_columns reg (column_name c # seen) cs)))"

definition create_table :: "Registry \<Rightarrow> string \<Rightarrow> Column list \<Rightarrow> Staged \<Rightarrow> Staged result" where
  "create_table reg name columns s =
     bindE (ensure (\<not> (name = [] \<or> columns = [])) E_schema) (\<lambda>_.
     bindE (check_columns reg [] columns) (\<lambda>_.
     bindE (ensure (map_of (staged_tables s) name = None) E_schema) (\<lambda>_.
     bindE (make_indexes reg ((empty_table (next_image s))\<lparr>table_columns := columns\<rparr>)) (\<lambda>t.
     Inr (put_table name t s)))))"

definition vacuum_row :: "i64 \<times> Row \<Rightarrow> Table \<times> nat \<Rightarrow> (Table \<times> nat) result" where
  "vacuum_row e s =
     (case (e, s) of ((rowid, row), (t, images)) \<Rightarrow>
      let full = (table_chunks t = [] \<or> length (chunk_rows (snd (last (table_chunks t)))) \<ge> max_chunk_rows
            \<or> chunk_encoded (snd (last (table_chunks t))) \<ge> max_chunk_bytes) in
      bindE (ensure (\<not> (full \<and> table_next_chunk t = UINT64_MAX)) E_state) (\<lambda>_.
      let (t, images) = (if full then
            (t\<lparr>table_chunks := table_chunks t @ [(table_next_chunk t, new_chunk images)],
               table_next_chunk := table_next_chunk t + 1\<rparr>, Suc images)
          else (t, images));
          (cid, c) = last (table_chunks t);
          c = refresh_chunk (c\<lparr>chunk_rows := chunk_rows c @ [row], chunk_rowids := chunk_rowids c @ [rowid]\<rparr>) in
      Inr (t\<lparr>table_chunks := butlast (table_chunks t) @ [(cid, c)]\<rparr>, images)))"

definition vacuum_table :: "string \<times> Table \<Rightarrow> Tables \<times> nat \<Rightarrow> (Tables \<times> nat) result" where
  "vacuum_table e s =
     (case (e, s) of ((name, t), (done, images)) \<Rightarrow>
      bindE (foldE vacuum_row (concat (map (\<lambda>(cid, c). zip (chunk_rowids c) (chunk_rows c)) (table_chunks t)))
        (t\<lparr>table_chunks := [], table_image := images\<rparr>, Suc images)) (\<lambda>(t, images).
      Inr (done @ [(name, t)], images)))"

definition vacuum :: "Registry \<Rightarrow> Staged \<Rightarrow> Staged result" where
  "vacuum reg s =
     bindE (foldE vacuum_table (staged_tables s) ([], next_image s)) (\<lambda>(ts, images).
     bindE (rebuild_indexes reg ts) (\<lambda>ts.
     Inr (put_tables ts (take_images images s))))"

section \<open>Integrity\<close>

definition check_location :: "Table \<Rightarrow> RowLocation \<Rightarrow> Row \<Rightarrow> unit result" where
  "check_location t p row =
     forE (\<lambda>x. bindE (oi_equal x (oi_key x row)) (\<lambda>found. ensure (p \<in> set found) E_state)) (table_ordered t)"

definition check_stored_row ::
    "Registry \<Rightarrow> Table \<Rightarrow> u64 \<Rightarrow> Chunk \<Rightarrow> nat \<Rightarrow> i64 list \<Rightarrow> i64 list result" where
  "check_stored_row reg t cid c i ids =
     (let row = chunk_rows c ! i; rowid = chunk_rowids c ! i in
      bindE (ensure (\<not> (length row \<noteq> length (table_columns t) \<or> sint rowid \<le> 0
          \<or> sint rowid \<ge> sint (table_next_rowid t) \<or> rowid \<in> set ids)) E_state) (\<lambda>_.
      bindE (forE (\<lambda>(k, v). validate_stored reg k v) (zip (table_columns t) row)) (\<lambda>_.
      bindE (check_location t (RowLocation cid (chunk_slot c i)) row) (\<lambda>_.
      Inr (rowid # ids)))))"

definition check_stored_chunk ::
    "Registry \<Rightarrow> Table \<Rightarrow> u64 \<times> Chunk \<Rightarrow> i64 list \<times> nat \<times> nat \<Rightarrow> (i64 list \<times> nat \<times> nat) result" where
  "check_stored_chunk reg t e s =
     (case (e, s) of ((cid, c), (ids, rows, payload)) \<Rightarrow>
      bindE (ensure (\<not> (cid \<ge> table_next_chunk t \<or> length (chunk_rows c) \<noteq> length (chunk_rowids c))) E_state) (\<lambda>_.
      let measured = refresh_chunk c in
      bindE (ensure (chunk_payload measured = chunk_payload c \<and> chunk_encoded measured = chunk_encoded c) E_state) (\<lambda>_.
      bindE (foldE (check_stored_row reg t cid c) [0..<length (chunk_rows c)] ids) (\<lambda>ids.
      Inr (ids, rows + length (chunk_rows c), payload + chunk_payload c)))))"

definition check_binding :: "Table \<Rightarrow> IndexBinding \<Rightarrow> unit result" where
  "check_binding t b =
     ix_validate (binding_data b) (map (\<lambda>(p, row). (row ! binding_column b, p)) (table_rows t))"

definition check_table :: "Registry \<Rightarrow> Table \<Rightarrow> unit result" where
  "check_table reg t =
     bindE (forE (\<lambda>x. bindE (oi_validate x) (\<lambda>n. ensure (n = table_row_count t) E_state)) (table_ordered t)) (\<lambda>_.
     bindE (foldE (check_stored_chunk reg t) (table_chunks t) ([], 0, 0)) (\<lambda>(_, rows, payload).
     bindE (case table_primary t of None \<Rightarrow> Inr () | Some b \<Rightarrow> check_binding t b) (\<lambda>_.
     bindE (forE (check_binding t) (table_indexes t)) (\<lambda>_.
     ensure (\<not> (rows \<noteq> table_row_count t \<or> payload \<noteq> table_payload t)) E_state))))"

definition integrity_check :: "Registry \<Rightarrow> Staged \<Rightarrow> unit result" where
  "integrity_check reg s =
     bindE (validate_constraints reg (staged_tables s) []) (\<lambda>_.
     forE (\<lambda>(name, t). check_table reg t) (staged_tables s))"

section \<open>Statistics\<close>

fun row_less :: "Registry \<Rightarrow> Row \<Rightarrow> Row \<Rightarrow> bool result" where
  "row_less reg (a # as) (b # bs) =
     bindE (registry_compare reg a b) (\<lambda>c. if c \<noteq> 0 then Inr (c < 0) else row_less reg as bs)"
| "row_less reg _ _ = Inr False"

text \<open>A set of rows is its sorted list of representatives.\<close>

fun row_set_insert :: "Registry \<Rightarrow> Row \<Rightarrow> Row list \<Rightarrow> Row list result" where
  "row_set_insert reg k [] = Inr [k]"
| "row_set_insert reg k (x # xs) =
     bindE (row_less reg x k) (\<lambda>lt.
     if lt then bindE (row_set_insert reg k xs) (\<lambda>ys. Inr (x # ys))
     else bindE (row_less reg k x) (\<lambda>gt. Inr (if gt then k # x # xs else x # xs)))"

definition analyze :: "Registry \<Rightarrow> Staged \<Rightarrow> (string \<times> nat) list result" where
  "analyze reg s =
     foldE (\<lambda>(name, t) result.
       foldE (\<lambda>x result.
         bindE (foldE (\<lambda>row. row_set_insert reg (oi_key x row)) (concat (map (\<lambda>(cid, c). chunk_rows c) (table_chunks t))) [])
           (\<lambda>keys.
         Inr (assign (name @ ''.'' @ index_name (oi_definition x) @ ''.distinct'') (length keys) result)))
         (table_ordered t) (assign (name @ ''.rows'') (table_row_count t) result))
       (staged_tables s) []"

section \<open>Altering tables\<close>

definition create_index :: "Registry \<Rightarrow> string \<Rightarrow> IndexDefinition \<Rightarrow> Staged \<Rightarrow> Staged result" where
  "create_index reg name d s =
     bindE (require_table (staged_tables s) name) (\<lambda>t.
     bindE (ensure (index_name d \<notin> set (map index_name (table_definitions t))) E_schema) (\<lambda>_.
     bindE (ordered_index_new d (table_columns t) reg) (\<lambda>x.
     bindE (foldE (\<lambda>(p, row) x. oi_insert x row p) (table_rows t) x) (\<lambda>x.
     Inr (put_table name (t\<lparr>table_definitions := table_definitions t @ [d], table_ordered := table_ordered t @ [x]\<rparr>) s)))))"

definition widen_chunk :: "Value \<Rightarrow> u64 \<times> Chunk \<Rightarrow> (u64 \<times> Chunk) list \<times> nat \<Rightarrow> (u64 \<times> Chunk) list \<times> nat" where
  "widen_chunk v e s =
     (case (e, s) of ((cid, c), (done, images)) \<Rightarrow>
      (done @ [(cid, refresh_chunk (c\<lparr>chunk_rows := map (\<lambda>row. row @ [v]) (chunk_rows c), chunk_image := images\<rparr>))],
       Suc images))"

definition add_column :: "Registry \<Rightarrow> string \<Rightarrow> Column \<Rightarrow> Staged \<Rightarrow> Staged result" where
  "add_column reg name column s =
     bindE (require_table (staged_tables s) name) (\<lambda>t.
     bindE (ensure (\<not> (column_name column = [] \<or> column_primary_key column \<or> column_index column \<noteq> []
         \<or> column_default column = None)) E_schema) (\<lambda>_.
     bindE (ensure (column_name column \<notin> set (map column_name (table_columns t))) E_schema) (\<lambda>_.
     let v = the (column_default column) in
     bindE (validate_stored reg column v) (\<lambda>_.
     let (chunks, images) = fold (widen_chunk v) (table_chunks t) ([], next_image s) in
     Inr (put_table name (refresh_table (t\<lparr>table_columns := table_columns t @ [column], table_chunks := chunks\<rparr>))
       (take_images images s))))))"

definition indexes_of :: "string \<Rightarrow> Staged \<Rightarrow> IndexDefinition list result" where
  "indexes_of name s = bindE (require_table (staged_tables s) name) (\<lambda>t. Inr (table_definitions t))"

definition drop_table :: "string \<Rightarrow> Staged \<Rightarrow> Staged result" where
  "drop_table name s =
     bindE (require_table (staged_tables s) name) (\<lambda>_.
     bindE (ensure (\<not> list_ex (\<lambda>(other, t). other \<noteq> name
         \<and> list_ex (\<lambda>key. fk_table key = name) (foreign_keys_of (table_constraints t))) (staged_tables s)) E_constraint) (\<lambda>_.
     Inr (new_epoch (put_tables (filter (\<lambda>e. fst e \<noteq> name) (staged_tables s)) s))))"

definition drop_index :: "Registry \<Rightarrow> string \<Rightarrow> string \<Rightarrow> Staged \<Rightarrow> Staged result" where
  "drop_index reg name index s =
     bindE (require_table (staged_tables s) name) (\<lambda>t.
     let i = length (takeWhile (\<lambda>d. index_name d \<noteq> index) (table_definitions t)) in
     bindE (ensure (i < length (table_definitions t)) E_schema) (\<lambda>_.
     bindE (ensure (\<not> index_constraint_owned (table_definitions t ! i)) E_constraint) (\<lambda>_.
     let t = t\<lparr>table_definitions := take i (table_definitions t) @ drop (Suc i) (table_definitions t),
               table_ordered := take i (table_ordered t) @ drop (Suc i) (table_ordered t)\<rparr> in
     bindE (validate_replacement_constraints reg (staged_tables s) name t) (\<lambda>_.
     Inr (put_table name t s)))))"

definition retarget_key :: "string \<Rightarrow> string \<Rightarrow> ForeignKey \<Rightarrow> ForeignKey" where
  "retarget_key name replacement key = (if fk_table key = name then key\<lparr>fk_table := replacement\<rparr> else key)"

text \<open>Tables that reference the named one are copied with their foreign keys edited.\<close>

definition edit_references ::
    "string \<Rightarrow> (ForeignKey \<Rightarrow> ForeignKey) \<Rightarrow> Tables \<times> nat \<Rightarrow> Tables \<times> nat" where
  "edit_references name edit s =
     fold (\<lambda>(other, t) (done, images).
       if list_ex (\<lambda>key. fk_table key = name) (foreign_keys_of (table_constraints t)) then
         (done @ [(other, t\<lparr>table_constraints := (table_constraints t)\<lparr>foreign_keys_of :=
            map edit (foreign_keys_of (table_constraints t))\<rparr>, table_image := images\<rparr>)], Suc images)
       else (done @ [(other, t)], images)) (fst s) ([], snd s)"

definition rename_table :: "Registry \<Rightarrow> string \<Rightarrow> string \<Rightarrow> Staged \<Rightarrow> Staged result" where
  "rename_table reg name replacement s =
     bindE (require_table (staged_tables s) name) (\<lambda>t.
     bindE (ensure (\<not> (replacement = [] \<or> map_of (staged_tables s) replacement \<noteq> None)) E_schema) (\<lambda>_.
     let candidate = filter (\<lambda>e. fst e \<noteq> name) (assign replacement t (staged_tables s));
         (candidate, images) = edit_references name (retarget_key name replacement) (candidate, next_image s) in
     bindE (validate_constraints reg candidate []) (\<lambda>_.
     Inr (new_epoch (put_tables candidate (take_images images s))))))"

definition rename_in :: "string \<Rightarrow> string \<Rightarrow> string list \<Rightarrow> string list" where
  "rename_in column replacement = map (\<lambda>c. if c = column then replacement else c)"

fun rename_expr :: "string \<Rightarrow> string \<Rightarrow> Expr \<Rightarrow> Expr" where
  "rename_expr column replacement (Expr kind name v arguments qualifier subquery dist parameters) =
     Expr kind (if kind = K_column \<and> name = column then replacement else name) v
       (map (rename_expr column replacement) arguments) qualifier subquery dist parameters"

definition rename_table_column :: "string \<Rightarrow> string \<Rightarrow> nat \<Rightarrow> Table \<Rightarrow> Table" where
  "rename_table_column column replacement i t =
     (let k = table_constraints t in
      t\<lparr>table_columns := (table_columns t)[i := (table_columns t ! i)\<lparr>column_name := replacement\<rparr>],
        table_definitions := map (\<lambda>d. d\<lparr>index_columns := rename_in column replacement (index_columns d)\<rparr>) (table_definitions t),
        table_constraints := k\<lparr>checks_of := map (\<lambda>c. c\<lparr>check_expression := rename_expr column replacement (check_expression c)\<rparr>)
            (checks_of k),
          foreign_keys_of := map (\<lambda>f. f\<lparr>fk_columns := rename_in column replacement (fk_columns f)\<rparr>) (foreign_keys_of k)\<rparr>\<rparr>)"

definition rename_referenced :: "string \<Rightarrow> string \<Rightarrow> string \<Rightarrow> ForeignKey \<Rightarrow> ForeignKey" where
  "rename_referenced name column replacement key =
     (if fk_table key = name then key\<lparr>fk_referenced := rename_in column replacement (fk_referenced key)\<rparr> else key)"

definition rename_column :: "Registry \<Rightarrow> string \<Rightarrow> string \<Rightarrow> string \<Rightarrow> Staged \<Rightarrow> Staged result" where
  "rename_column reg name column replacement s =
     bindE (require_table (staged_tables s) name) (\<lambda>t.
     bindE (ensure (\<not> (replacement = [] \<or> replacement \<in> set (map column_name (table_columns t)))) E_schema) (\<lambda>_.
     case find_column column (table_columns t) of
       None \<Rightarrow> Inl E_schema
     | Some i \<Rightarrow>
         let images = next_image s;
             t = (rename_table_column column replacement i t)\<lparr>table_image := images\<rparr>;
             (candidate, images) = edit_references name (rename_referenced name column replacement)
               (assign name t (staged_tables s), Suc images) in
         bindE (require_table candidate name) (\<lambda>t.
         bindE (rebuild_table reg t) (\<lambda>t.
         let candidate = assign name t candidate in
         bindE (validate_constraints reg candidate []) (\<lambda>_.
         Inr (new_epoch (put_tables candidate (take_images images s))))))))"

definition set_constraints :: "Registry \<Rightarrow> string \<Rightarrow> TableConstraints \<Rightarrow> Staged \<Rightarrow> Staged result" where
  "set_constraints reg name k s =
     bindE (require_table (staged_tables s) name) (\<lambda>t.
     let s' = put_table name (t\<lparr>table_constraints := k\<rparr>) s in
     bindE (validate_constraints reg (staged_tables s') name) (\<lambda>_. Inr s'))"

definition constraints_of :: "string \<Rightarrow> Staged \<Rightarrow> TableConstraints result" where
  "constraints_of name s = bindE (require_table (staged_tables s) name) (\<lambda>t. Inr (table_constraints t))"

definition validate_row :: "Registry \<Rightarrow> string \<Rightarrow> Row \<Rightarrow> Staged \<Rightarrow> unit result" where
  "validate_row reg name row s =
     bindE (require_table (staged_tables s) name) (\<lambda>t.
     bindE (ensure (length row = length (table_columns t)) E_schema) (\<lambda>_.
     bindE (forE (\<lambda>(c, v). validate_stored reg c v) (zip (table_columns t) row)) (\<lambda>_.
     bindE (bound_checks reg t) (\<lambda>bound.
     check_row bound row))))"

end
