(* ===== verification/Mutations.thy ===== *)
theory Mutations
  imports Schema_Ops
begin

text \<open>
  Row mutations of a transaction: src/mutation.cpp.
\<close>

section \<open>The largest integer key\<close>

definition integer_primary_column :: "Table \<Rightarrow> nat option" where
  "integer_primary_column t =
     (case table_primary t of
        None \<Rightarrow> None
      | Some b \<Rightarrow>
          if binding_column b \<ge> length (table_columns t)
            \<or> column_type (table_columns t ! binding_column b) \<noteq> integer_type then None
          else Some (binding_column b))"

definition forget_maximum :: "Table \<Rightarrow> Table" where
  "forget_maximum t = t\<lparr>table_pk_known := False, table_pk_max := None\<rparr>"

definition note_inserted_integer_key :: "i64 \<Rightarrow> Table \<Rightarrow> Table" where
  "note_inserted_integer_key key t =
     (if \<not> table_pk_known t then
        (if table_row_count t = 1 then t\<lparr>table_pk_known := True, table_pk_max := Some key\<rparr> else t)
      else
        (case table_pk_max t of
           None \<Rightarrow> t\<lparr>table_pk_max := Some key\<rparr>
         | Some m \<Rightarrow> if sint key > sint m then t\<lparr>table_pk_max := Some key\<rparr> else t))"

definition integer_of :: "Value \<Rightarrow> i64 option" where
  "integer_of v = (case v of VInt k \<Rightarrow> Some k | _ \<Rightarrow> None)"

definition forget_integer_key :: "Value \<Rightarrow> Table \<Rightarrow> Table" where
  "forget_integer_key v t =
     (if \<not> table_pk_known t then t
      else
        (case integer_of v of
           None \<Rightarrow> forget_maximum t
         | Some k \<Rightarrow> if table_pk_max t = Some k then forget_maximum t else t))"

definition observe_integer_key_change :: "Value \<Rightarrow> Value \<Rightarrow> Table \<Rightarrow> Table" where
  "observe_integer_key_change previous after t =
     (case (integer_of previous, integer_of after) of
        (old, Some new) \<Rightarrow>
          if old = Some new then t
          else if \<not> table_pk_known t then forget_maximum t
          else
            let removed = (old \<noteq> None \<and> table_pk_max t = old);
                t = (case table_pk_max t of
                       None \<Rightarrow> t\<lparr>table_pk_max := Some new\<rparr>
                     | Some m \<Rightarrow> if sint new > sint m then t\<lparr>table_pk_max := Some new\<rparr> else t) in
            if removed \<and> Some new \<noteq> table_pk_max t then forget_maximum t else t
      | (_, None) \<Rightarrow> forget_maximum t)"

definition greater_key :: "Value \<Rightarrow> i64 option \<Rightarrow> i64 option" where
  "greater_key v m =
     (case integer_of v of
        None \<Rightarrow> m
      | Some k \<Rightarrow> (case m of None \<Rightarrow> Some k | Some n \<Rightarrow> if sint k > sint n then Some k else m))"

definition maximum_integer_key :: "string \<Rightarrow> Staged \<Rightarrow> (i64 option \<times> Staged) result" where
  "maximum_integer_key name s =
     bindE (require_table (staged_tables s) name) (\<lambda>t.
     case integer_primary_column t of
       None \<Rightarrow> Inr (None, s)
     | Some column \<Rightarrow>
         if table_pk_known t then Inr (table_pk_max t, s)
         else
           bindE (visit_table_rows t (\<lambda>_ row _ m. Inr (True, greater_key (row ! column) m)) None) (\<lambda>(_, m).
           Inr (m, (put_table name (t\<lparr>table_pk_known := True, table_pk_max := m\<rparr>) s)\<lparr>staged_dirty := staged_dirty s\<rparr>)))"

section \<open>Insertion\<close>

text \<open>Whether the row starts a chunk of its own, and the chunk it goes to otherwise.\<close>

definition needs_chunk :: "Table \<Rightarrow> Chunk \<Rightarrow> bool" where
  "needs_chunk t added \<longleftrightarrow>
     table_chunks t = [] \<or>
     (let c = snd (last (table_chunks t)) in
      length (chunk_rows c) \<ge> max_chunk_rows \<or> next_slot c > ucast UINT32_MAX
      \<or> chunk_encoded c + chunk_encoded added > max_chunk_bytes)"

definition append_row :: "Row \<Rightarrow> i64 \<Rightarrow> u32 \<Rightarrow> Chunk \<Rightarrow> Chunk \<Rightarrow> Chunk" where
  "append_row row rowid slot added c =
     c\<lparr>chunk_slots := (if chunk_slots c \<noteq> [] then chunk_slots c @ [slot] else []),
       chunk_rowids := chunk_rowids c @ [rowid], chunk_rows := chunk_rows c @ [row],
       chunk_payload := chunk_payload c + chunk_payload added,
       chunk_encoded := chunk_encoded c + chunk_encoded added\<rparr>"

definition note_row :: "Row \<Rightarrow> Table \<Rightarrow> Table" where
  "note_row row t =
     (case integer_primary_column t of
        None \<Rightarrow> t
      | Some column \<Rightarrow>
          (case integer_of (row ! column) of
             None \<Rightarrow> forget_maximum t
           | Some k \<Rightarrow> note_inserted_integer_key k t))"

definition insert_row ::
    "Row \<Rightarrow> i64 option \<Rightarrow> nat \<Rightarrow> Table \<Rightarrow> Table result" where
  "insert_row row identity img t =
     (let added = refresh_chunk ((new_chunk img)\<lparr>chunk_rows := [row]\<rparr>);
          fresh = needs_chunk t added in
      bindE (ensure (\<not> (fresh \<and> table_next_chunk t = UINT64_MAX)) E_state) (\<lambda>_.
      let (cid, prepared) = (if fresh then (table_next_chunk t, new_chunk img)
            else (fst (last (table_chunks t)), (snd (last (table_chunks t)))\<lparr>chunk_image := img\<rparr>)) in
      bindE (ensure (\<not> (identity = None \<and> table_next_rowid t = INT64_MAX)) E_state) (\<lambda>_.
      let p = RowLocation cid (ucast (next_slot prepared)) in
      bindE (mapE (\<lambda>x. oi_insert x row p) (table_ordered t)) (\<lambda>ordered.
      bindE (mapE (binding_insert row p) (table_indexes t)) (\<lambda>indexes.
      bindE (optE (binding_insert row p) (table_primary t)) (\<lambda>primary.
      let rowid = (case identity of Some i \<Rightarrow> i | None \<Rightarrow> table_next_rowid t);
          prepared = append_row row rowid (loc_slot p) added prepared in
      Inr (note_row row (t\<lparr>
        table_next_rowid := (if sint (rowid + 1) > sint (table_next_rowid t) then rowid + 1 else table_next_rowid t),
        table_chunks := (if fresh then table_chunks t else butlast (table_chunks t)) @ [(cid, prepared)],
        table_next_chunk := (if fresh then table_next_chunk t + 1 else table_next_chunk t),
        table_indexes := indexes, table_ordered := ordered, table_primary := primary,
        table_row_count := table_row_count t + 1,
        table_payload := table_payload t + chunk_payload added\<rparr>))))))))"

definition insert_impl :: "Registry \<Rightarrow> string \<Rightarrow> Row \<Rightarrow> i64 option \<Rightarrow> Staged \<Rightarrow> Staged result" where
  "insert_impl reg name row identity s =
     bindE (ensure (case identity of None \<Rightarrow> True | Some i \<Rightarrow> \<not> (sint i \<le> 0 \<or> i = INT64_MAX)) E_format) (\<lambda>_.
     bindE (require_table (staged_tables s) name) (\<lambda>t.
     bindE (prepare_row reg (table_columns t) row) (\<lambda>row.
     bindE (validate_insert_constraints reg (staged_tables s) name row) (\<lambda>_.
     bindE (case table_primary t of
              None \<Rightarrow> Inr ()
            | Some b \<Rightarrow> bindE (table_lookup t (row ! binding_column b)) (\<lambda>found. ensure (found = None) E_constraint)) (\<lambda>_.
     bindE (insert_row row identity (next_image s) t) (\<lambda>t.
     Inr (put_table name t (take_images (Suc (next_image s)) s))))))))"

definition txn_insert :: "Registry \<Rightarrow> string \<Rightarrow> Row \<Rightarrow> Staged \<Rightarrow> Staged result" where
  "txn_insert reg name row s = insert_impl reg name row None s"

definition restore_row_sequence :: "string \<Rightarrow> i64 \<Rightarrow> Staged \<Rightarrow> Staged result" where
  "restore_row_sequence name after s =
     bindE (require_table (staged_tables s) name) (\<lambda>t.
     bindE (ensure (\<not> sint after < sint (table_next_rowid t)) E_format) (\<lambda>_.
     Inr (put_table name (t\<lparr>table_next_rowid := after\<rparr>) s)))"

section \<open>Updates\<close>

fun bind_assignments ::
    "Registry \<Rightarrow> Table \<Rightarrow> nat list \<Rightarrow> (string \<times> Expr) list \<Rightarrow> (nat \<times> BoundExpr) list result" where
  "bind_assignments reg t seen [] = Inr []"
| "bind_assignments reg t seen ((name, e) # rest) =
     bindE (bind_expr reg (table_scope t) 0 (column_expr name)) (\<lambda>target.
     bindE (ensure (bx_index target \<notin> set seen) E_schema) (\<lambda>_.
     bindE (bind_expr reg (table_scope t) 0 e) (\<lambda>v.
     bindE (ensure (bx_type v = bx_type target) E_type) (\<lambda>_.
     bindE (bind_assignments reg t (bx_index target # seen) rest) (\<lambda>bs.
     Inr ((bx_index target, v) # bs))))))"

definition row_only :: "Tables \<Rightarrow> string \<Rightarrow> Table \<Rightarrow> nat set \<Rightarrow> IndexResult option \<Rightarrow> bool" where
  "row_only tables name t assigned selected \<longleftrightarrow>
     (case selected of None \<Rightarrow> False | Some r \<Rightarrow> length (result_rows r) = 1)
     \<and> checks_of (table_constraints t) = [] \<and> foreign_keys_of (table_constraints t) = []
     \<and> (case table_primary t of None \<Rightarrow> True | Some b \<Rightarrow> binding_column b \<notin> assigned)
     \<and> list_all (\<lambda>b. binding_column b \<notin> assigned) (table_indexes t)
     \<and> list_all (\<lambda>x. list_all (\<lambda>c. c \<notin> assigned) (oi_columns x)) (table_ordered t)
     \<and> \<not> list_ex (\<lambda>(_, u). list_ex (\<lambda>key. fk_table key = name) (foreign_keys_of (table_constraints u))) tables"

text \<open>The new values of a row, evaluated on the row as it was and checked against their columns.\<close>

definition new_values :: "Registry \<Rightarrow> Table \<Rightarrow> (nat \<times> BoundExpr) list \<Rightarrow> Row \<Rightarrow> (nat \<times> Value) list result" where
  "new_values reg t bound row =
     mapE (\<lambda>(i, e). bindE (evaluate (plain_row row) e) (\<lambda>v.
       bindE (validate_stored reg (table_columns t ! i) v) (\<lambda>_. Inr (i, v)))) bound"

definition set_values :: "(nat \<times> Value) list \<Rightarrow> Row \<Rightarrow> Row" where
  "set_values vs row = fold (\<lambda>(i, v) row. row[i := v]) vs row"

record Updating =
  up_table :: Table
  up_images :: nat
  up_changed :: nat
  up_matched :: nat
  up_returning :: "Row list"
  up_prepared :: "(nat \<times> Value) list"
  up_position :: nat

definition start_update :: "Table \<Rightarrow> nat \<Rightarrow> Updating" where
  "start_update t images = \<lparr>up_table = t, up_images = images, up_changed = 0, up_matched = 0, up_returning = [],
     up_prepared = [], up_position = 0\<rparr>"

definition point_update_row ::
    "Registry \<Rightarrow> Table \<Rightarrow> (nat \<times> BoundExpr) list \<Rightarrow> BoundPredicate option \<Rightarrow> BoundPredicate option
      \<Rightarrow> nat \<Rightarrow> Row \<Rightarrow> Updating \<Rightarrow> (bool \<times> Updating) result" where
  "point_update_row reg t bound predicate additional i row u =
     bindE (accepts row predicate) (\<lambda>matched.
     if \<not> matched then Inr (True, u)
     else
       let u = u\<lparr>up_matched := up_matched u + 1\<rparr> in
       bindE (accepts row additional) (\<lambda>wanted.
       if \<not> wanted then Inr (True, u)
       else
         bindE (new_values reg t bound row) (\<lambda>vs.
         let changes = filter (\<lambda>(k, v). \<not> same_stored_value (row ! k) v) vs in
         Inr (True, u\<lparr>up_changed := 1, up_position := i, up_prepared := up_prepared u @ changes,
           up_returning := up_returning u @ [set_values (up_prepared u @ changes) row]\<rparr>))))"

definition point_update ::
    "Registry \<Rightarrow> string \<Rightarrow> Table \<Rightarrow> (nat \<times> BoundExpr) list \<Rightarrow> BoundPredicate option \<Rightarrow> BoundPredicate option
      \<Rightarrow> IndexResult \<Rightarrow> Staged \<Rightarrow> ((nat \<times> Row list \<times> nat) \<times> Staged) result" where
  "point_update reg name t bound predicate additional selected s =
     bindE (visit_chunks t (Some selected) (\<lambda>cid c rows u.
         bindE (visit_rows c rows (point_update_row reg t bound predicate additional) u) (\<lambda>(_, u). Inr (True, u)))
       (start_update t (next_image s))) (\<lambda>(_, u).
     if up_prepared u = [] then Inr ((up_changed u, up_returning u, up_matched u), s)
     else
       let cid = loc_chunk (hd (result_rows selected));
           before = the (map_of (table_chunks t) cid);
           i = up_position u;
           c = refresh_chunk (before\<lparr>chunk_rows := (chunk_rows before)[i := set_values (up_prepared u) (chunk_rows before ! i)],
                 chunk_image := next_image s\<rparr>);
           t = t\<lparr>table_chunks := assign cid c (table_chunks t),
                 table_payload := table_payload t - chunk_payload before + chunk_payload c\<rparr> in
       Inr ((1, up_returning u, up_matched u), put_table name t (take_images (Suc (next_image s)) s)))"

text \<open>One row of the general update: each new value replaces the cell of the edited chunk in turn.\<close>

definition assign_cell :: "nat \<Rightarrow> nat \<times> Value \<Rightarrow> Table \<times> Chunk \<Rightarrow> Table \<times> Chunk" where
  "assign_cell i e s =
     (case (e, s) of ((k, v), (t, c)) \<Rightarrow>
      (if integer_primary_column t = Some k then observe_integer_key_change (chunk_rows c ! i ! k) v t else t,
       c\<lparr>chunk_rows := (chunk_rows c)[i := (chunk_rows c ! i)[k := v]]\<rparr>))"

definition update_row ::
    "Registry \<Rightarrow> Table \<Rightarrow> (nat \<times> BoundExpr) list \<Rightarrow> BoundPredicate option \<Rightarrow> BoundPredicate option
      \<Rightarrow> Chunk \<Rightarrow> nat \<Rightarrow> Row \<Rightarrow> Chunk option \<times> Updating \<Rightarrow> (bool \<times> Chunk option \<times> Updating) result" where
  "update_row reg t bound predicate additional c i row s =
     (case s of (edited, u) \<Rightarrow>
      bindE (case Option.bind predicate direct_comparison of
               Some l \<Rightarrow> Inr (leaf_values l (row ! bx_index (leaf_left l)) (bx_value (leaf_right l)))
             | None \<Rightarrow> accepts row predicate) (\<lambda>matched.
      if \<not> matched then Inr (True, edited, u)
      else
        let u = u\<lparr>up_matched := up_matched u + 1\<rparr> in
        bindE (accepts row additional) (\<lambda>wanted.
        if \<not> wanted then Inr (True, edited, u)
        else
          let c = (case edited of None \<Rightarrow> c | Some c \<Rightarrow> c) in
          bindE (new_values reg t bound row) (\<lambda>vs.
          let (table, c) = fold (assign_cell i) vs (up_table u, c) in
          Inr (True, Some c, u\<lparr>up_table := table, up_returning := up_returning u @ [chunk_rows c ! i],
            up_changed := up_changed u + 1\<rparr>)))))"

definition update_chunk ::
    "Registry \<Rightarrow> Table \<Rightarrow> (nat \<times> BoundExpr) list \<Rightarrow> BoundPredicate option \<Rightarrow> BoundPredicate option
      \<Rightarrow> u64 \<Rightarrow> Chunk \<Rightarrow> RowLocation list option \<Rightarrow> Updating \<Rightarrow> (bool \<times> Updating) result" where
  "update_chunk reg t bound predicate additional cid c rows u =
     bindE (visit_rows c rows (update_row reg t bound predicate additional c) (None, u)) (\<lambda>(_, edited, u).
     case edited of
       None \<Rightarrow> Inr (True, u)
     | Some c \<Rightarrow>
         let table = up_table u in
         Inr (True, u\<lparr>up_table := table\<lparr>table_chunks :=
             assign cid (refresh_chunk (c\<lparr>chunk_image := up_images u\<rparr>)) (table_chunks table)\<rparr>,
           up_images := Suc (up_images u)\<rparr>))"

definition update_impl ::
    "Registry \<Rightarrow> string \<Rightarrow> (string \<times> Expr) list \<Rightarrow> Predicate option \<Rightarrow> Predicate option
      \<Rightarrow> Staged \<Rightarrow> ((nat \<times> Row list \<times> nat) \<times> Staged) result" where
  "update_impl reg name assignments where_clause condition s =
     bindE (require_table (staged_tables s) name) (\<lambda>t.
     bindE (ensure (assignments \<noteq> []) E_schema) (\<lambda>_.
     bindE (bind_assignments reg t [] assignments) (\<lambda>bound.
     let assigned = set (map fst bound) in
     bindE (bind_predicate reg (table_scope t) where_clause) (\<lambda>predicate.
     bindE (bind_predicate reg (table_scope t) condition) (\<lambda>additional.
     bindE (candidates reg t predicate) (\<lambda>(selected, predicate).
     let selected = map_option normalize selected in
     if row_only (staged_tables s) name t assigned selected
     then point_update reg name t bound predicate additional (the selected) s
     else
       bindE (visit_chunks t selected (update_chunk reg t bound predicate additional)
         (start_update t (next_image s))) (\<lambda>(_, u).
       let outcome = (up_changed u, up_returning u, up_matched u) in
       if up_changed u = 0 then Inr (outcome, s)
       else
         bindE (if (case table_primary t of None \<Rightarrow> False | Some b \<Rightarrow> binding_column b \<in> assigned)
                  \<or> table_indexes t \<noteq> [] \<or> table_ordered t \<noteq> []
                then synchronize_index reg t (up_table u) assigned else Inr (up_table u)) (\<lambda>replacement.
         let replacement = refresh_table replacement in
         bindE (validate_replacement_constraints reg (staged_tables s) name replacement) (\<lambda>_.
         Inr (outcome, put_table name replacement (take_images (up_images u) s)))))))))))"

definition txn_update ::
    "Registry \<Rightarrow> string \<Rightarrow> (string \<times> Expr) list \<Rightarrow> Predicate option \<Rightarrow> Staged \<Rightarrow> (nat \<times> Staged) result" where
  "txn_update reg name assignments where_clause s =
     bindE (update_impl reg name assignments where_clause None s) (\<lambda>((changed, _, _), s). Inr (changed, s))"

definition update_returning ::
    "Registry \<Rightarrow> string \<Rightarrow> (string \<times> Expr) list \<Rightarrow> Predicate option \<Rightarrow> Staged
      \<Rightarrow> ((Type list \<times> Row list) \<times> Staged) result" where
  "update_returning reg name assignments where_clause s =
     bindE (require_table (staged_tables s) name) (\<lambda>t.
     bindE (update_impl reg name assignments where_clause None s) (\<lambda>((_, rows, _), s).
     Inr ((map column_type (table_columns t), rows), s)))"

record UpdateOutcome =
  outcome_matched :: nat
  outcome_updated :: nat
  outcome_types :: "Type list"
  outcome_rows :: "Row list"

definition update_if ::
    "Registry \<Rightarrow> string \<Rightarrow> (string \<times> Expr) list \<Rightarrow> Predicate \<Rightarrow> Predicate option \<Rightarrow> bool \<Rightarrow> Staged
      \<Rightarrow> (UpdateOutcome \<times> Staged) result" where
  "update_if reg name assignments match_clause condition returning s =
     bindE (if returning then bindE (require_table (staged_tables s) name) (\<lambda>t. Inr (map column_type (table_columns t)))
            else Inr []) (\<lambda>types.
     bindE (update_impl reg name assignments (Some match_clause) condition s) (\<lambda>((changed, rows, matched), s).
     Inr (\<lparr>outcome_matched = matched, outcome_updated = changed, outcome_types = types,
            outcome_rows = (if returning then rows else [])\<rparr>, s)))"

section \<open>Deletion\<close>

record Erasing =
  er_table :: Table
  er_images :: nat
  er_changed :: nat
  er_returning :: "Row list"

definition unindex_row :: "Row \<Rightarrow> RowLocation \<Rightarrow> Table \<Rightarrow> Table result" where
  "unindex_row row p t =
     bindE (mapE (\<lambda>x. oi_erase x row p) (table_ordered t)) (\<lambda>ordered.
     bindE (optE (binding_erase row p) (table_primary t)) (\<lambda>primary.
     let t = t\<lparr>table_ordered := ordered, table_primary := primary\<rparr>;
         t = (case integer_primary_column t of None \<Rightarrow> t | Some column \<Rightarrow> forget_integer_key (row ! column) t) in
     bindE (mapE (binding_erase row p) (table_indexes t)) (\<lambda>indexes.
     Inr (t\<lparr>table_indexes := indexes\<rparr>))))"

text \<open>The rows before the first deletion, with their slots when an index holds locations.\<close>

definition kept_prefix :: "bool \<Rightarrow> Chunk \<Rightarrow> nat \<Rightarrow> nat \<Rightarrow> Chunk" where
  "kept_prefix indexed c i img =
     (new_chunk img)\<lparr>chunk_rows := take i (chunk_rows c), chunk_rowids := take i (chunk_rowids c),
       chunk_slots := (if indexed then map (chunk_slot c) [0..<i] else [])\<rparr>"

definition keep_row :: "bool \<Rightarrow> Chunk \<Rightarrow> nat \<Rightarrow> Chunk \<Rightarrow> Chunk" where
  "keep_row indexed c i edited =
     edited\<lparr>chunk_slots := (if indexed then chunk_slots edited @ [chunk_slot c i] else chunk_slots edited),
       chunk_rows := chunk_rows edited @ [chunk_rows c ! i], chunk_rowids := chunk_rowids edited @ [chunk_rowids c ! i]\<rparr>"

definition erase_row ::
    "bool \<Rightarrow> BoundPredicate option \<Rightarrow> u64 \<Rightarrow> Chunk \<Rightarrow> RowLocation list option \<Rightarrow> nat
      \<Rightarrow> Chunk option \<times> Erasing \<Rightarrow> (Chunk option \<times> Erasing) result" where
  "erase_row indexed predicate cid c rows i s =
     (case s of (edited, u) \<Rightarrow>
      let row = chunk_rows c ! i;
          p = RowLocation cid (chunk_slot c i);
          eligible = (case rows of None \<Rightarrow> True | Some ps \<Rightarrow> p \<in> set ps) in
      bindE (if eligible then accepts row predicate else Inr False) (\<lambda>doomed.
      if doomed then
        bindE (unindex_row row p (er_table u)) (\<lambda>table.
        Inr (Some (case edited of None \<Rightarrow> kept_prefix indexed c i (er_images u) | Some e \<Rightarrow> e),
          u\<lparr>er_table := table, er_changed := er_changed u + 1, er_returning := er_returning u @ [row]\<rparr>))
      else Inr (map_option (keep_row indexed c i) edited, u)))"

definition erase_chunk ::
    "bool \<Rightarrow> BoundPredicate option \<Rightarrow> u64 \<Rightarrow> Chunk \<Rightarrow> RowLocation list option \<Rightarrow> Erasing \<Rightarrow> (bool \<times> Erasing) result" where
  "erase_chunk indexed predicate cid c rows u =
     bindE (foldE (erase_row indexed predicate cid c rows) [0..<length (chunk_rows c)] (None, u)) (\<lambda>(edited, u).
     case edited of
       None \<Rightarrow> Inr (True, u)
     | Some e \<Rightarrow>
         let t = er_table u;
             t = t\<lparr>table_chunks := (if chunk_rows e = [] then filter (\<lambda>x. fst x \<noteq> cid) (table_chunks t)
                   else assign cid (refresh_chunk e) (table_chunks t))\<rparr> in
         Inr (True, u\<lparr>er_table := t, er_images := Suc (er_images u)\<rparr>))"

definition erase_everything :: "Registry \<Rightarrow> string \<Rightarrow> Table \<Rightarrow> Staged \<Rightarrow> (nat \<times> Staged) result" where
  "erase_everything reg name t s =
     (if table_row_count t = 0 then Inr (0, s)
      else
        bindE (make_indexes reg ((empty_table (next_image s))\<lparr>table_columns := table_columns t,
            table_constraints := table_constraints t, table_definitions := table_definitions t,
            table_next_chunk := table_next_chunk t, table_next_rowid := table_next_rowid t,
            table_pk_known := (integer_primary_column t \<noteq> None)\<rparr>)) (\<lambda>cleared.
        bindE (validate_replacement_constraints reg (staged_tables s) name cleared) (\<lambda>_.
        Inr (table_row_count t, put_table name cleared s))))"

definition erase_impl ::
    "Registry \<Rightarrow> string \<Rightarrow> Predicate option \<Rightarrow> IndexResult option \<Rightarrow> bool \<Rightarrow> Staged
      \<Rightarrow> ((nat \<times> Row list) \<times> Staged) result" where
  "erase_impl reg name where_clause forced returning s =
     bindE (require_table (staged_tables s) name) (\<lambda>t.
     if where_clause = None \<and> forced = None \<and> \<not> returning then
       bindE (erase_everything reg name t s) (\<lambda>(count, s). Inr ((count, []), s))
     else
       let indexed = (table_primary t \<noteq> None \<or> table_indexes t \<noteq> [] \<or> table_ordered t \<noteq> []) in
       bindE (bind_predicate reg (table_scope t) where_clause) (\<lambda>predicate.
       bindE (case forced of Some r \<Rightarrow> Inr (Some r, predicate) | None \<Rightarrow> candidates reg t predicate) (\<lambda>(selected, predicate).
       let selected = map_option normalize selected in
       bindE (visit_chunks t selected (erase_chunk indexed predicate)
         \<lparr>er_table = t, er_images = next_image s, er_changed = 0, er_returning = []\<rparr>) (\<lambda>(_, u).
       let outcome = (er_changed u, er_returning u) in
       if er_changed u = 0 then Inr (outcome, s)
       else
         let replacement = refresh_table (er_table u);
             replacement = (if table_row_count replacement = 0 \<and> integer_primary_column replacement \<noteq> None
               then replacement\<lparr>table_pk_known := True, table_pk_max := None\<rparr> else replacement) in
         bindE (validate_replacement_constraints reg (staged_tables s) name replacement) (\<lambda>_.
         Inr (outcome, put_table name replacement (take_images (er_images u) s)))))))"

definition txn_erase :: "Registry \<Rightarrow> string \<Rightarrow> Predicate option \<Rightarrow> Staged \<Rightarrow> (nat \<times> Staged) result" where
  "txn_erase reg name where_clause s =
     bindE (erase_impl reg name where_clause None False s) (\<lambda>((changed, _), s). Inr (changed, s))"

definition erase_returning ::
    "Registry \<Rightarrow> string \<Rightarrow> Predicate option \<Rightarrow> Staged \<Rightarrow> ((Type list \<times> Row list) \<times> Staged) result" where
  "erase_returning reg name where_clause s =
     bindE (require_table (staged_tables s) name) (\<lambda>t.
     bindE (erase_impl reg name where_clause None True s) (\<lambda>((_, rows), s).
     Inr ((map column_type (table_columns t), rows), s)))"

section \<open>Replacement and bulk insertion\<close>

definition unique_conflicts :: "Table \<Rightarrow> Row \<Rightarrow> RowLocation list result" where
  "unique_conflicts t row =
     bindE (case table_primary t of
              None \<Rightarrow> Inr []
            | Some b \<Rightarrow> bindE (table_lookup t (row ! binding_column b)) (\<lambda>found.
                Inr (case found of None \<Rightarrow> [] | Some p \<Rightarrow> [p]))) (\<lambda>first.
     foldE (\<lambda>x found.
       if index_is_unique (oi_definition x) \<and> \<not> list_ex is_null (oi_key x row)
       then bindE (oi_equal x (oi_key x row)) (\<lambda>more. Inr (found @ more)) else Inr found)
       (table_ordered t) first)"

definition txn_replace :: "Registry \<Rightarrow> string \<Rightarrow> Row \<Rightarrow> Staged \<Rightarrow> Staged result" where
  "txn_replace reg name row s =
     bindE (require_table (staged_tables s) name) (\<lambda>t.
     bindE (prepare_row reg (table_columns t) row) (\<lambda>row.
     bindE (unique_conflicts t row) (\<lambda>conflicts.
     if conflicts = [] then txn_insert reg name row s
     else
       bindE (erase_impl reg name None (Some \<lparr>result_rows = conflicts, result_exact = True\<rparr>) False s) (\<lambda>(_, s).
       txn_insert reg name row s))))"

text \<open>The rows a query returned, with their types, go in one by one.\<close>

definition insert_from ::
    "Registry \<Rightarrow> string \<Rightarrow> Type list \<times> Row list \<Rightarrow> bool \<Rightarrow> Staged \<Rightarrow> Staged result" where
  "insert_from reg name outcome replacing s =
     (case outcome of (types, rows) \<Rightarrow>
      bindE (require_table (staged_tables s) name) (\<lambda>t.
      bindE (ensure (\<not> length types > length (table_columns t)) E_schema) (\<lambda>_.
      bindE (forE (\<lambda>(i, c).
          if i < length types then ensure (types ! i = column_type c) E_type
          else ensure (column_default c \<noteq> None) E_schema) (enumerate 0 (table_columns t))) (\<lambda>_.
      foldE (\<lambda>row s. if replacing then txn_replace reg name row s else txn_insert reg name row s) rows s))))"

end
