(* ===== verification/Storage.thy ===== *)
theory Storage
  imports Snapshot_Apply
begin

text \<open>
  The durable store of src/storage.hpp and src/storage.cpp: the log file, commits,
  synchronous and background checkpoints and recovery, over system calls
  that may be interrupted, fail, or stop the process.
\<close>

section \<open>The operating system\<close>

text \<open>
  System calls answer from a schedule: a call succeeds (a write with the number
  of bytes it took), is interrupted by a signal, or fails. When the schedule
  ends the process has stopped, at that very call. A file keeps apart what is
  synchronised and what was written since.
\<close>

datatype Outcome = Fine nat | Interrupted | Failed

record File =
  file_synced :: bytes
  file_unsynced :: bytes

definition file_bytes :: "File \<Rightarrow> bytes" where
  "file_bytes f = file_synced f @ file_unsynced f"

definition new_file :: File where
  "new_file = \<lparr>file_synced = [], file_unsynced = []\<rparr>"

text \<open>
  A store with its directory: the inodes, the one the path names, the one the
  path may still name after a crash until the directory is synchronised, and
  the two reserved temporary names.
\<close>

type_synonym Images = "nat \<rightharpoonup> nat \<times> nat"

record DurableStore =
  ds_files :: "File list"
  ds_path :: nat
  ds_previous :: "nat option"
  ds_temporary :: "nat option"
  ds_background_file :: "nat option"
  ds_schedule :: "Outcome list"
  ds_fd :: nat
  ds_failed :: bool
  ds_generation :: nat
  ds_committed_end :: nat
  ds_images :: Images
  ds_image_fd :: "nat option"
  ds_background_active :: bool

datatype 'a answer = Done 'a | Threw ErrorCode | Stopped

type_synonym 'a io = "DurableStore \<Rightarrow> 'a answer \<times> DurableStore"

definition returnI :: "'a \<Rightarrow> 'a io" where
  "returnI x d = (Done x, d)"

definition throwI :: "ErrorCode \<Rightarrow> 'a io" where
  "throwI e d = (Threw e, d)"

definition bindI :: "'a io \<Rightarrow> ('a \<Rightarrow> 'b io) \<Rightarrow> 'b io" where
  "bindI m f d = (case m d of (Done x, d) \<Rightarrow> f x d | (Threw e, d) \<Rightarrow> (Threw e, d) | (Stopped, d) \<Rightarrow> (Stopped, d))"

definition liftI :: "'a result \<Rightarrow> 'a io" where
  "liftI r = (case r of Inl e \<Rightarrow> throwI e | Inr x \<Rightarrow> returnI x)"

definition modifyI :: "(DurableStore \<Rightarrow> DurableStore) \<Rightarrow> unit io" where
  "modifyI f d = (Done (), f d)"

definition readI :: "(DurableStore \<Rightarrow> 'a) \<Rightarrow> 'a io" where
  "readI f d = (Done (f d), d)"

text \<open>A block whose exceptions run a handler and go on.\<close>

definition rethrowI :: "'a io \<Rightarrow> (DurableStore \<Rightarrow> DurableStore) \<Rightarrow> 'a io" where
  "rethrowI m handler d = (case m d of (Threw e, d) \<Rightarrow> (Threw e, handler d) | r \<Rightarrow> r)"

fun forI :: "('a \<Rightarrow> unit io) \<Rightarrow> 'a list \<Rightarrow> unit io" where
  "forI f [] = returnI ()"
| "forI f (x # xs) = bindI (f x) (\<lambda>_. forI f xs)"

section \<open>System calls in loops\<close>

fun write_loop :: "Outcome list \<Rightarrow> bytes \<Rightarrow> unit answer \<times> bytes \<times> Outcome list" where
  "write_loop os [] = (Done (), [], os)"
| "write_loop [] (b # bs) = (Stopped, [], [])"
| "write_loop (Interrupted # os) (b # bs) = write_loop os (b # bs)"
| "write_loop (Failed # os) (b # bs) = (Threw E_io, [], os)"
| "write_loop (Fine n # os) (b # bs) =
     (if n = 0 then (Threw E_io, [], os)
      else (case write_loop os (drop n (b # bs)) of (a, written, os) \<Rightarrow> (a, take n (b # bs) @ written, os)))"

definition edit_file :: "nat \<Rightarrow> (File \<Rightarrow> File) \<Rightarrow> DurableStore \<Rightarrow> DurableStore" where
  "edit_file fd f d = d\<lparr>ds_files := (ds_files d)[fd := f (ds_files d ! fd)]\<rparr>"

definition write_all :: "nat \<Rightarrow> bytes \<Rightarrow> unit io" where
  "write_all fd bs d =
     (case write_loop (ds_schedule d) bs of (a, written, os) \<Rightarrow>
      (a, edit_file fd (\<lambda>f. f\<lparr>file_unsynced := file_unsynced f @ written\<rparr>) (d\<lparr>ds_schedule := os\<rparr>)))"

fun retry_loop :: "Outcome list \<Rightarrow> unit answer \<times> Outcome list" where
  "retry_loop [] = (Stopped, [])"
| "retry_loop (Interrupted # os) = retry_loop os"
| "retry_loop (Failed # os) = (Threw E_io, os)"
| "retry_loop (Fine n # os) = (Done (), os)"

definition retried :: "unit io" where
  "retried d = (case retry_loop (ds_schedule d) of (a, os) \<Rightarrow> (a, d\<lparr>ds_schedule := os\<rparr>))"

definition system_call :: "unit io" where
  "system_call d =
     (case ds_schedule d of
        [] \<Rightarrow> (Stopped, d)
      | Fine n # os \<Rightarrow> (Done (), d\<lparr>ds_schedule := os\<rparr>)
      | _ # os \<Rightarrow> (Threw E_io, d\<lparr>ds_schedule := os\<rparr>))"

definition synchronize :: "nat \<Rightarrow> unit io" where
  "synchronize fd =
     bindI retried (\<lambda>_. modifyI (edit_file fd (\<lambda>f. \<lparr>file_synced = file_bytes f, file_unsynced = []\<rparr>)))"

definition sync_directory :: "unit io" where
  "sync_directory =
     bindI system_call (\<lambda>_. bindI retried (\<lambda>_. modifyI (\<lambda>d. d\<lparr>ds_previous := None\<rparr>)))"

section \<open>Log files\<close>

definition magic :: bytes where
  "magic = view ''CORELOG2''"

definition committed :: bytes where
  "committed = view ''COREEND1''"

definition max_record :: nat where
  "max_record = max_encoded_bytes"

definition frame_header :: "nat \<Rightarrow> bytes" where
  "frame_header n = enc_u64 (of_nat n) @ enc_u64 (NOT (of_nat n))"

definition read_at :: "bytes \<Rightarrow> nat \<Rightarrow> nat \<Rightarrow> bytes result" where
  "read_at bs n offset =
     bindE (ensure (offset + n \<le> length bs) E_format) (\<lambda>_. Inr (take n (drop offset bs)))"

function recover_loop :: "Registry \<Rightarrow> bytes \<Rightarrow> nat \<Rightarrow> State \<Rightarrow> (State \<times> nat) result" where
  "recover_loop reg bs position latest =
     (if \<not> position < length bs \<or> length bs - position < 16 then Inr (latest, position)
      else
        bindE (read_at bs 16 position) (\<lambda>frame.
        bindE (reader_u64 frame) (\<lambda>(n, rest).
        bindE (reader_u64 rest) (\<lambda>(inverse, _).
        bindE (ensure (\<not> (inverse \<noteq> NOT n \<or> unat n < 32 \<or> unat n > max_record)) E_format) (\<lambda>_.
        if unat n + 8 > length bs - position - 16 then Inr (latest, position)
        else
          bindE (read_at bs 8 (position + 16 + unat n)) (\<lambda>marker.
          bindE (ensure (marker = committed) E_format) (\<lambda>_.
          bindE (read_at bs (unat n) (position + 16)) (\<lambda>payload.
          bindE (apply_changes latest payload reg) (\<lambda>latest.
          recover_loop reg bs (position + 24 + unat n) latest)))))))))"
  by pat_completeness auto

termination
  by (relation "measure (\<lambda>(reg, bs, position, latest). length bs - position)") auto

definition recover_bytes :: "Registry \<Rightarrow> bytes \<Rightarrow> (State \<times> nat) result" where
  "recover_bytes reg bs =
     bindE (ensure (\<not> length bs < 8) E_format) (\<lambda>_.
     bindE (read_at bs 8 0) (\<lambda>header.
     bindE (ensure (header = magic) E_format) (\<lambda>_.
     recover_loop reg bs 8 empty_state)))"

definition recover :: "Registry \<Rightarrow> State io" where
  "recover reg =
     bindI system_call (\<lambda>_.
     bindI (readI (\<lambda>d. ds_fd d)) (\<lambda>fd.
     bindI (readI (\<lambda>d. file_bytes (ds_files d ! fd))) (\<lambda>bs.
     bindI (liftI (recover_bytes reg bs)) (\<lambda>(latest, position).
     bindI (if position \<noteq> length bs then
              bindI system_call (\<lambda>_. modifyI (edit_file fd (\<lambda>f. \<lparr>file_synced = take position (file_synced f),
                file_unsynced = take (position - length (file_synced f)) (file_unsynced f)\<rparr>)))
            else returnI ()) (\<lambda>_.
     bindI (synchronize fd) (\<lambda>_.
     bindI system_call (\<lambda>_.
     bindI (modifyI (\<lambda>d. d\<lparr>ds_committed_end := position\<rparr>)) (\<lambda>_.
     bindI system_call (\<lambda>_.
     bindI (modifyI (\<lambda>d. d\<lparr>ds_temporary := None\<rparr>)) (\<lambda>_.
     bindI system_call (\<lambda>_.
     bindI (modifyI (\<lambda>d. d\<lparr>ds_background_file := None\<rparr>)) (\<lambda>_.
     returnI latest))))))))))))"

definition append_record :: "nat \<Rightarrow> bytes \<Rightarrow> unit io" where
  "append_record fd payload =
     (let header = frame_header (length payload); half = length payload div 2 in
      bindI (write_all fd (take 8 header)) (\<lambda>_.
      bindI (write_all fd (drop 8 header)) (\<lambda>_.
      bindI (write_all fd (take half payload)) (\<lambda>_.
      bindI (write_all fd (drop half payload)) (\<lambda>_.
      bindI (synchronize fd) (\<lambda>_.
      bindI (write_all fd (take 4 committed)) (\<lambda>_.
      bindI (write_all fd (drop 4 committed)) (\<lambda>_.
      synchronize fd))))))))"

section \<open>Checkpoints\<close>

function blocks_of :: "nat \<Rightarrow> bytes \<Rightarrow> bytes list" where
  "blocks_of n bs = (if bs = [] \<or> n = 0 then [] else take n bs # blocks_of n (drop n bs))"
  by pat_completeness auto

termination
  by (relation "measure (\<lambda>(n, bs). length bs)") auto

text \<open>An unchanged chunk is copied from the retained file, in blocks of 64 KiB.\<close>

definition reuse_image :: "Images \<Rightarrow> bytes option \<Rightarrow> nat \<Rightarrow> bytes list option" where
  "reuse_image images source identity =
     (case (source, images identity) of
        (Some bs, Some (offset, n)) \<Rightarrow> if n = 0 then None else Some (blocks_of (64 * 1024) (take n (drop offset bs)))
      | _ \<Rightarrow> None)"

definition note_images :: "nat \<Rightarrow> (nat \<times> nat \<times> nat) list \<Rightarrow> Images" where
  "note_images origin notes =
     fold (\<lambda>(identity, offset, n) m. if n \<noteq> 0 then m(identity \<mapsto> (origin + offset, n)) else m) notes Map.empty"

definition patch :: "bytes \<Rightarrow> nat \<Rightarrow> bytes \<Rightarrow> bytes" where
  "patch new offset old = take offset old @ new @ drop (offset + length new) old"

definition write_at :: "nat \<Rightarrow> bytes \<Rightarrow> nat \<Rightarrow> unit io" where
  "write_at fd bs offset d =
     (case write_loop (ds_schedule d) bs of (a, written, os) \<Rightarrow>
      (a, edit_file fd (\<lambda>f. f\<lparr>file_unsynced := patch written (offset - length (file_synced f)) (file_unsynced f)\<rparr>)
        (d\<lparr>ds_schedule := os\<rparr>)))"

definition append_checkpoint :: "nat \<Rightarrow> State \<Rightarrow> Images \<Rightarrow> nat option \<Rightarrow> Images io" where
  "append_checkpoint fd s images reuse_fd =
     bindI (readI (\<lambda>d. (length (file_bytes (ds_files d ! fd)), map_option (\<lambda>i. file_bytes (ds_files d ! i)) reuse_fd)))
       (\<lambda>(offset, source).
     bindI (write_all fd (replicate 8 0)) (\<lambda>_.
     bindI (write_all fd (replicate 8 0)) (\<lambda>_.
     bindI (liftI (encode_checkpoint s (reuse_image images source))) (\<lambda>em.
     bindI (forI (write_all fd) (em_sink em)) (\<lambda>_.
     bindI (write_at fd (frame_header (length (concat (em_sink em)))) offset) (\<lambda>_.
     bindI (synchronize fd) (\<lambda>_.
     bindI (write_all fd (take 4 committed)) (\<lambda>_.
     bindI (write_all fd (drop 4 committed)) (\<lambda>_.
     bindI (synchronize fd) (\<lambda>_.
     returnI (note_images (offset + 16) (em_notes em))))))))))))"

definition create_temporary :: "nat io" where
  "create_temporary =
     bindI (readI ds_temporary) (\<lambda>existing.
     if existing \<noteq> None then throwI E_io
     else
       bindI system_call (\<lambda>_.
       bindI (readI (\<lambda>d. length (ds_files d))) (\<lambda>fd.
       bindI (modifyI (\<lambda>d. d\<lparr>ds_files := ds_files d @ [new_file], ds_temporary := Some fd\<rparr>)) (\<lambda>_.
       returnI fd))))"

text \<open>Renaming over the path; the old name may come back after a crash.\<close>

definition publish_file :: "nat \<Rightarrow> Images \<Rightarrow> unit io" where
  "publish_file fresh built =
     bindI system_call (\<lambda>_.
     modifyI (\<lambda>d. d\<lparr>ds_previous := Some (ds_path d), ds_path := fresh,
       ds_temporary := (if ds_temporary d = Some fresh then None else ds_temporary d),
       ds_background_file := (if ds_background_file d = Some fresh then None else ds_background_file d),
       ds_fd := fresh, ds_committed_end := length (file_bytes (ds_files d ! fresh)),
       ds_generation := Suc (ds_generation d), ds_images := built, ds_image_fd := Some fresh\<rparr>))"

definition checkpoint_locked :: "State \<Rightarrow> unit io" where
  "checkpoint_locked s =
     bindI (readI ds_failed) (\<lambda>failed.
     if failed then throwI E_state
     else
       bindI (liftI (checkpoint_size s)) (\<lambda>_.
       bindI create_temporary (\<lambda>fresh.
       rethrowI
         (bindI system_call (\<lambda>_.
          bindI (write_all fresh magic) (\<lambda>_.
          bindI (readI (\<lambda>d. (ds_images d, ds_image_fd d))) (\<lambda>(images, image_fd).
          bindI (append_checkpoint fresh s images image_fd) (\<lambda>built.
          bindI (publish_file fresh built) (\<lambda>_.
          sync_directory))))))
         (\<lambda>d. d\<lparr>ds_failed := True, ds_temporary := None\<rparr>))))"

definition commit_log :: "State \<Rightarrow> State \<Rightarrow> unit io" where
  "commit_log base next =
     bindI (readI ds_failed) (\<lambda>failed.
     if failed then throwI E_state
     else if state_epoch base \<noteq> state_epoch next then checkpoint_locked next
     else
       bindI (liftI (encode_changes base next)) (\<lambda>payload.
       bindI system_call (\<lambda>_.
       bindI (readI (\<lambda>d. length (file_bytes (ds_files d ! ds_fd d)))) (\<lambda>n.
       bindI (liftI (checkpoint_size next)) (\<lambda>live.
       let threshold = max (1024 * 1024) (4 * (live + 32)) in
       if n + length payload + 24 > threshold then checkpoint_locked next
       else
         bindI (readI ds_fd) (\<lambda>fd.
         rethrowI
           (bindI (append_record fd payload) (\<lambda>_.
            modifyI (\<lambda>d. d\<lparr>ds_committed_end := ds_committed_end d + length payload + 24\<rparr>)))
           (\<lambda>d. d\<lparr>ds_failed := True\<rparr>)))))))"

definition checkpoint_now :: "State \<Rightarrow> unit io" where
  "checkpoint_now s = checkpoint_locked s"

section \<open>Background checkpoints\<close>

record Checkpoint =
  cp_source :: nat
  cp_fresh :: nat
  cp_generation :: nat
  cp_copied :: nat
  cp_ready :: bool
  cp_reuse :: Images
  cp_built :: Images

definition prepare_checkpoint :: "Checkpoint io" where
  "prepare_checkpoint =
     bindI (readI (\<lambda>d. d)) (\<lambda>d.
     if ds_failed d then throwI E_state
     else if ds_background_active d then throwI E_conflict
     else
       bindI system_call (\<lambda>_.
       if ds_background_file d \<noteq> None then throwI E_io
       else
         bindI system_call (\<lambda>_.
         let fresh = length (ds_files d) in
         bindI (modifyI (\<lambda>d. d\<lparr>ds_files := ds_files d @ [new_file], ds_background_file := Some fresh\<rparr>)) (\<lambda>_.
         bindI (rethrowI system_call (\<lambda>d. d\<lparr>ds_background_file := None\<rparr>)) (\<lambda>_.
         bindI (modifyI (\<lambda>d. d\<lparr>ds_background_active := True\<rparr>)) (\<lambda>_.
         returnI \<lparr>cp_source = ds_fd d, cp_fresh = fresh, cp_generation = ds_generation d,
           cp_copied = ds_committed_end d, cp_ready = False, cp_reuse = ds_images d, cp_built = Map.empty\<rparr>))))))"

definition copy_tail :: "Checkpoint \<Rightarrow> nat \<Rightarrow> Checkpoint io" where
  "copy_tail task until =
     (if \<not> cp_copied task < until then returnI task
      else
        bindI (readI (\<lambda>d. file_bytes (ds_files d ! cp_source task))) (\<lambda>bs.
        bindI (liftI (read_at bs (until - cp_copied task) (cp_copied task))) (\<lambda>missing.
        bindI (forI (write_all (cp_fresh task)) (blocks_of (64 * 1024) missing)) (\<lambda>_.
        returnI (task\<lparr>cp_copied := until\<rparr>)))))"

definition write_checkpoint :: "Checkpoint \<Rightarrow> State \<Rightarrow> Checkpoint io" where
  "write_checkpoint task s =
     bindI (if cp_ready task then returnI task
            else
              bindI (write_all (cp_fresh task) magic) (\<lambda>_.
              bindI (append_checkpoint (cp_fresh task) s (cp_reuse task) (Some (cp_source task))) (\<lambda>built.
              returnI (task\<lparr>cp_built := built\<rparr>)))) (\<lambda>task.
     bindI (readI (\<lambda>d. d)) (\<lambda>d.
     if ds_failed d then throwI E_state
     else if cp_generation task \<noteq> ds_generation d then returnI task
     else
       bindI (copy_tail task (ds_committed_end d)) (\<lambda>task.
       bindI (synchronize (cp_fresh task)) (\<lambda>_.
       returnI (task\<lparr>cp_ready := True\<rparr>)))))"

definition ready_to_publish :: "Checkpoint \<Rightarrow> DurableStore \<Rightarrow> bool" where
  "ready_to_publish task d \<longleftrightarrow>
     cp_generation task \<noteq> ds_generation d \<or> cp_ready task \<and> ds_committed_end d - cp_copied task \<le> 256 * 1024"

definition publish_checkpoint :: "Checkpoint \<Rightarrow> bool io" where
  "publish_checkpoint task =
     bindI (readI (\<lambda>d. d)) (\<lambda>d.
     if ds_failed d then throwI E_state
     else if cp_generation task \<noteq> ds_generation d then returnI False
     else if \<not> cp_ready task then throwI E_state
     else if ds_committed_end d - cp_copied task > 256 * 1024 then throwI E_state
     else
       bindI (copy_tail task (ds_committed_end d)) (\<lambda>task.
       bindI (synchronize (cp_fresh task)) (\<lambda>_.
       rethrowI
         (bindI (publish_file (cp_fresh task) (cp_built task)) (\<lambda>_.
          bindI sync_directory (\<lambda>_. returnI True)))
         (\<lambda>d. d\<lparr>ds_failed := True\<rparr>))))"

text \<open>Dropping the token removes an unpublished file and frees the slot.\<close>

definition drop_checkpoint :: "Checkpoint \<Rightarrow> DurableStore \<Rightarrow> DurableStore" where
  "drop_checkpoint task d =
     d\<lparr>ds_background_file := (if ds_background_file d = Some (cp_fresh task) then None else ds_background_file d),
       ds_background_active := False\<rparr>"

end
