(* ===== verification/Transactions.thy ===== *)
theory Transactions
  imports Mutations Storage
begin

text \<open>
  Owners, transactions and savepoints of src/transaction.cpp, src/state.hpp and
  src/core.cpp; opening, backups and snapshot loading of src/storage.cpp and
  src/snapshot.cpp; the background checkpoint loop of src/read_snapshot.cpp.
\<close>

section \<open>Owners\<close>

text \<open>
  The shared owner of a database: its registry, the published state and the
  store when it is persistent. Each publication makes a new state object; its
  number tells whether a transaction still sits on the published one.
\<close>

record Owner =
  owner_registry :: Registry
  owner_current :: State
  owner_version :: nat
  owner_storage :: "DurableStore option"

definition open_memory :: "Registry \<Rightarrow> Owner" where
  "open_memory reg = \<lparr>owner_registry = reg, owner_current = empty_state, owner_version = 0, owner_storage = None\<rparr>"

definition healthy :: "Owner \<Rightarrow> unit result" where
  "healthy ow = ensure (case owner_storage ow of None \<Rightarrow> True | Some d \<Rightarrow> \<not> ds_failed d) E_state"

definition persistent :: "Owner \<Rightarrow> bool result" where
  "persistent ow = bindE (healthy ow) (\<lambda>_. Inr (owner_storage ow \<noteq> None))"

definition publish :: "State \<Rightarrow> Owner \<Rightarrow> Owner" where
  "publish next ow = ow\<lparr>owner_current := next, owner_version := Suc (owner_version ow)\<rparr>"

definition describe :: "Tables \<Rightarrow> (string \<times> Column list) list" where
  "describe ts = map (\<lambda>(name, t). (name, table_columns t)) ts"

definition database_stats :: "Owner \<Rightarrow> Stats result" where
  "database_stats ow = bindE (healthy ow) (\<lambda>_. Inr (state_stats (owner_current ow)))"

definition database_schema :: "Owner \<Rightarrow> (string \<times> Column list) list result" where
  "database_schema ow = bindE (healthy ow) (\<lambda>_. Inr (describe (state_tables (owner_current ow))))"

section \<open>Transactions\<close>

text \<open>
  A transaction holds the state it began from, its staged copy and its open
  savepoints, the innermost first; each savepoint is known by a number.
\<close>

record Transaction =
  txn_open :: bool
  txn_base :: State
  txn_version :: nat
  txn_staged :: Staged
  txn_savepoints :: "(nat \<times> Staged) list"
  txn_counter :: nat

definition begin_transaction :: "Owner \<Rightarrow> Transaction result" where
  "begin_transaction ow =
     bindE (healthy ow) (\<lambda>_.
     Inr \<lparr>txn_open = True, txn_base = owner_current ow, txn_version = owner_version ow,
       txn_staged = \<lparr>staged_state = owner_current ow, staged_dirty = False\<rparr>, txn_savepoints = [], txn_counter = 0\<rparr>)"

definition active :: "Owner \<Rightarrow> Transaction \<Rightarrow> unit result" where
  "active ow x = bindE (ensure (txn_open x) E_state) (\<lambda>_. healthy ow)"

text \<open>An operation on the staged state; a failed one changes nothing.\<close>

definition operate :: "(Registry \<Rightarrow> Staged \<Rightarrow> ('a \<times> Staged) result) \<Rightarrow> Owner \<Rightarrow> Transaction \<Rightarrow> ('a \<times> Transaction) result" where
  "operate op ow x =
     bindE (active ow x) (\<lambda>_.
     bindE (op (owner_registry ow) (txn_staged x)) (\<lambda>(r, s). Inr (r, x\<lparr>txn_staged := s\<rparr>)))"

definition txn_schema :: "Owner \<Rightarrow> Transaction \<Rightarrow> (string \<times> Column list) list result" where
  "txn_schema ow x = bindE (active ow x) (\<lambda>_. Inr (describe (staged_tables (txn_staged x))))"

subsection \<open>Savepoints\<close>

definition finish_savepoint :: "nat \<Rightarrow> bool \<Rightarrow> Transaction \<Rightarrow> Transaction" where
  "finish_savepoint point restore x =
     (let x = (case map_of (txn_savepoints x) point of
                 Some snapshot \<Rightarrow> if restore then x\<lparr>txn_staged := snapshot\<rparr> else x
               | None \<Rightarrow> x) in
      x\<lparr>txn_savepoints := tl (dropWhile (\<lambda>e. fst e \<noteq> point) (txn_savepoints x))\<rparr>)"

definition savepoint :: "Owner \<Rightarrow> Transaction \<Rightarrow> (nat \<times> Transaction) result" where
  "savepoint ow x =
     bindE (active ow x) (\<lambda>_.
     let point = txn_counter x in
     Inr (point, x\<lparr>txn_savepoints := (point, txn_staged x) # txn_savepoints x, txn_counter := Suc point\<rparr>))"

definition savepoint_open :: "nat \<Rightarrow> Transaction \<Rightarrow> bool" where
  "savepoint_open point x \<longleftrightarrow> txn_open x \<and> point \<in> set (map fst (txn_savepoints x))"

definition savepoint_release :: "nat \<Rightarrow> Transaction \<Rightarrow> Transaction" where
  "savepoint_release point x = (if savepoint_open point x then finish_savepoint point False x else x)"

definition savepoint_rollback :: "nat \<Rightarrow> Transaction \<Rightarrow> Transaction" where
  "savepoint_rollback point x = (if savepoint_open point x then finish_savepoint point True x else x)"

definition savepoint_rollback_to :: "nat \<Rightarrow> Owner \<Rightarrow> Transaction \<Rightarrow> (nat \<times> Transaction) result" where
  "savepoint_rollback_to point ow x =
     bindE (ensure (savepoint_open point x) E_state) (\<lambda>_.
     bindE (active ow x) (\<lambda>_.
     let snapshot = the (map_of (txn_savepoints x) point);
         x = finish_savepoint point True x;
         fresh = txn_counter x in
     Inr (fresh, x\<lparr>txn_savepoints := (fresh, snapshot) # txn_savepoints x, txn_counter := Suc fresh\<rparr>)))"

subsection \<open>Commit and rollback\<close>

definition rollback :: "Transaction \<Rightarrow> Transaction" where
  "rollback x = x\<lparr>txn_open := False, txn_savepoints := [], txn_staged := (txn_staged x)\<lparr>staged_dirty := False\<rparr>\<rparr>"

definition store_commit :: "State \<Rightarrow> State \<Rightarrow> Owner \<Rightarrow> unit answer \<times> Owner" where
  "store_commit base next ow =
     (case owner_storage ow of
        None \<Rightarrow> (Done (), ow)
      | Some d \<Rightarrow> (case commit_log base next d of (a, d) \<Rightarrow> (a, ow\<lparr>owner_storage := Some d\<rparr>)))"

definition commit :: "Transaction \<Rightarrow> Owner \<Rightarrow> unit answer \<times> Transaction \<times> Owner" where
  "commit x ow =
     (case active ow x of
        Inl e \<Rightarrow> (Threw e, x, ow)
      | Inr _ \<Rightarrow>
          if txn_savepoints x \<noteq> [] then (Threw E_state, x, ow)
          else if owner_version ow \<noteq> txn_version x then (Threw E_conflict, x, ow)
          else if \<not> staged_dirty (txn_staged x) then (Done (), rollback x, ow)
          else
            let s = staged_state (txn_staged x);
                next = s\<lparr>state_stats := measure_state s\<rparr>;
                x = x\<lparr>txn_staged := (txn_staged x)\<lparr>staged_state := next\<rparr>\<rparr> in
            (case store_commit (txn_base x) next ow of
               (Done _, ow) \<Rightarrow> (Done (), rollback x, publish next ow)
             | (Threw e, ow) \<Rightarrow> (Threw e, x, ow)
             | (Stopped, ow) \<Rightarrow> (Stopped, x, ow)))"

section \<open>Opening, checkpoints and backups\<close>

definition open_database :: "Registry \<Rightarrow> DurableStore \<Rightarrow> Owner answer \<times> DurableStore" where
  "open_database reg d =
     bindI (recover reg) (\<lambda>recovered.
     bindI (liftI (rebuild_indexes reg (state_tables recovered))) (\<lambda>ts.
     bindI (liftI (validate_constraints reg ts [])) (\<lambda>_.
     bindI (readI (\<lambda>d. d)) (\<lambda>d.
     returnI \<lparr>owner_registry = reg, owner_current = recovered\<lparr>state_tables := ts\<rparr>, owner_version = 0,
       owner_storage = Some d\<rparr>)))) d"

definition database_checkpoint :: "Owner \<Rightarrow> unit answer \<times> Owner" where
  "database_checkpoint ow =
     (case bindE (healthy ow) (\<lambda>_. Inr ()) of
        Inl e \<Rightarrow> (Threw e, ow)
      | Inr _ \<Rightarrow>
          (case owner_storage ow of
             None \<Rightarrow> (Threw E_state, ow)
           | Some d \<Rightarrow> (case checkpoint_now (owner_current ow) d of (a, d) \<Rightarrow> (a, ow\<lparr>owner_storage := Some d\<rparr>))))"

text \<open>A backup writes the published state as the only record of a new store.\<close>

definition backup :: "Owner \<Rightarrow> DurableStore \<Rightarrow> unit answer \<times> DurableStore" where
  "backup ow target =
     bindI (liftI (healthy ow)) (\<lambda>_.
     bindI (liftI (checkpoint_size (owner_current ow))) (\<lambda>_.
     checkpoint_now (owner_current ow))) target"

section \<open>Loading a snapshot\<close>

definition snapshot_features :: "string \<Rightarrow> Features result" where
  "snapshot_features format =
     (let tagged = format \<in> {''CORESQL7'', ''CORESQL6'', ''CORESQL5''};
          extended = tagged \<or> format = ''CORESQL4'' in
      bindE (ensure (format \<in> {''CORESQL7'', ''CORESQL6'', ''CORESQL5'', ''CORESQL4'', ''CORESQL3'', ''CORESQL2'',
          ''CORESQL1''}) E_format) (\<lambda>_.
      Inr \<lparr>has_primary = (format \<noteq> ''CORESQL1''), has_indexes = (format = ''CORESQL3'' \<or> extended),
           is_extended = extended, is_tagged = tagged,
           is_constrained = (format = ''CORESQL7'' \<or> format = ''CORESQL6''),
           has_owned_indexes = (format = ''CORESQL7'')\<rparr>))"

fun decode_cells :: "Registry \<Rightarrow> bool \<Rightarrow> Column list \<Rightarrow> Reader \<Rightarrow> (Row \<times> Reader) result" where
  "decode_cells reg tagged [] r = Inr ([], r)"
| "decode_cells reg tagged (c # cs) r =
     bindE (read_value (column_type c) reg tagged r) (\<lambda>(v, r).
     bindE (decode_cells reg tagged cs r) (\<lambda>(row, r). Inr (v # row, r)))"

definition decode_row ::
    "Features \<Rightarrow> Registry \<Rightarrow> string \<Rightarrow> Column list \<Rightarrow> u64 list \<times> Staged \<times> Reader
      \<Rightarrow> (unit \<times> u64 list \<times> Staged \<times> Reader) result" where
  "decode_row f reg name columns s =
     (case s of (rowids, staged, r) \<Rightarrow>
      bindE (if is_extended f then reader_u64 r else Inr (of_nat (length rowids) + 1, r)) (\<lambda>(rowid, r).
      bindE (ensure (\<not> (rowid = 0 \<or> rowid \<ge> INT64_MAX \<or> rowid \<in> set rowids)) E_format) (\<lambda>_.
      bindE (decode_cells reg (is_tagged f) columns r) (\<lambda>(row, r).
      bindE (insert_impl reg name row (Some rowid) staged) (\<lambda>staged.
      Inr ((), rowid # rowids, staged, r))))))"

definition decode_table ::
    "Features \<Rightarrow> Registry \<Rightarrow> (string \<times> TableConstraints) list \<times> Staged \<times> Reader
      \<Rightarrow> (unit \<times> (string \<times> TableConstraints) list \<times> Staged \<times> Reader) result" where
  "decode_table f reg s =
     (case s of (constraints, staged, r) \<Rightarrow>
      bindE (get_string r) (\<lambda>(name, r).
      bindE (read_schema f reg r) (\<lambda>(schema, r).
      bindE (create_table reg name (table_columns schema) staged) (\<lambda>staged.
      bindE (foldE (create_index reg name) (table_definitions schema) staged) (\<lambda>staged.
      bindE (if is_extended f then reader_u64 r else Inr (0, r)) (\<lambda>(next_rowid, r).
      bindE (get_count r) (\<lambda>(rows, r).
      bindE (ensure (\<not> rows > remaining r div 8 div length (table_columns schema)) E_format) (\<lambda>_.
      bindE (timesE rows (decode_row f reg name (table_columns schema)) ([], staged, r)) (\<lambda>(_, rowids, staged, r).
      bindE (if is_extended f then
               bindE (ensure (\<not> (next_rowid = 0 \<or> next_rowid > INT64_MAX
                   \<or> (\<exists>i \<in> set rowids. next_rowid \<le> i))) E_format) (\<lambda>_.
               restore_row_sequence name next_rowid staged)
             else Inr staged) (\<lambda>staged.
      Inr ((), assign name (table_constraints schema) constraints, staged, r)))))))))))"

definition decode_database :: "bytes \<Rightarrow> Registry \<Rightarrow> Owner result" where
  "decode_database bs reg =
     bindE (validate_snapshot bs) (\<lambda>_.
     bindE (get_string (take (length bs - 8) bs)) (\<lambda>(format, r).
     bindE (snapshot_features format) (\<lambda>f.
     bindE (begin_transaction (open_memory reg)) (\<lambda>x.
     bindE (get_count r) (\<lambda>(tables, r).
     bindE (timesE tables (decode_table f reg) ([], txn_staged x, r)) (\<lambda>(_, constraints, staged, r).
     bindE (reader_end r) (\<lambda>_.
     bindE (foldE (\<lambda>(name, k). set_constraints reg name k) constraints staged) (\<lambda>staged.
     case commit (x\<lparr>txn_staged := staged\<rparr>) (open_memory reg) of
       (Done _, _, ow) \<Rightarrow> Inr ow
     | (Threw e, _, _) \<Rightarrow> Inl e
     | (Stopped, _, _) \<Rightarrow> Inl E_io))))))))"

section \<open>Checkpoints beside other commits\<close>

text \<open>
  One pass of \<open>checkpoint_async\<close>'s loop: write or catch up, then publish when
  few enough bytes are missing. The answer says whether the loop is over.
\<close>

definition checkpoint_pass :: "Checkpoint \<Rightarrow> State \<Rightarrow> (bool \<times> Checkpoint) io" where
  "checkpoint_pass task s =
     bindI (write_checkpoint task s) (\<lambda>task.
     bindI (readI (\<lambda>d. d)) (\<lambda>d.
     if ds_failed d then throwI E_state
     else if \<not> ready_to_publish task d then returnI (False, task)
     else bindI (publish_checkpoint task) (\<lambda>_. returnI (True, task))))"

end
