(* ===== verification/Change_Maps.thy ===== *)
theory Change_Maps
  imports Snapshot_Spec Transactions
begin

text \<open>
  Maps kept as sorted association lists: assignment, removal, uniqueness, and
  the replay of the differences between two of them.
\<close>

section \<open>Maps as sorted lists\<close>

lemma sorted_keys_unique:
  assumes "sorted_keys xs" "sorted_keys ys" "map_of xs = map_of ys"
  shows "xs = ys"
proof -
  have d: "distinct (map fst xs)" "distinct (map fst ys)" using assms by (simp_all add: sorted_keys_distinct)
  have "set xs = set ys" using map_of_inject_set [OF d] assms(3) by simp
  moreover have "sorted (map fst xs)" "sorted (map fst ys)"
    using assms(1,2) by (auto simp: sorted_keys_def sorted_wrt_map elim: sorted_wrt_mono_rel [rotated])
  ultimately show ?thesis using d by (intro map_sorted_distinct_set_unique [of fst]) (auto simp: inj_on_def distinct_map)
qed

lemma assign_spec:
  assumes "sorted_keys es"
  shows "sorted_keys (assign k v es)" "map_of (assign k v es) = (map_of es)(k \<mapsto> v)" "fst ` set (assign k v es) = insert k (fst ` set es)"
proof -
  have "sorted_keys (assign k v es) \<and> map_of (assign k v es) = (map_of es)(k \<mapsto> v) \<and> fst ` set (assign k v es) = insert k (fst ` set es)"
    using assms
  proof (induction es)
    case (Cons e es)
    have e: "sorted_keys es" "\<forall>z \<in> fst ` set es. fst e < z" using Cons.prems by (simp_all add: sorted_keys_Cons)
    consider "fst e < k" | "fst e = k" | "k < fst e" by (metis linorder_neqE)
    then show ?case
    proof cases
      case 1
      then have "assign k v (e # es) = e # assign k v es" by (simp add: assign_def)
      then show ?thesis using Cons.IH e 1 by (auto simp: sorted_keys_Cons)
    next
      case 2
      then have "dropWhile (\<lambda>e. fst e \<le> k) es = es" using e by (cases es) auto
      then have "assign k v (e # es) = (k, v) # es" using 2 by (simp add: assign_def)
      then show ?thesis using 2 e by (auto simp: sorted_keys_Cons)
    next
      case 3
      then have "\<not> fst e < k" "\<not> fst e \<le> k" by auto
      then have "assign k v (e # es) = (k, v) # e # es" by (simp add: assign_def)
      then show ?thesis using 3 e by (force simp: sorted_keys_Cons)
    qed
  qed (simp add: assign_def sorted_keys_def)
  then show "sorted_keys (assign k v es)" "map_of (assign k v es) = (map_of es)(k \<mapsto> v)"
    "fst ` set (assign k v es) = insert k (fst ` set es)" by simp_all
qed

lemma filter_key_spec:
  assumes "sorted_keys es"
  shows "sorted_keys (filter (\<lambda>e. fst e \<noteq> k) es)" "map_of (filter (\<lambda>e. fst e \<noteq> k) es) = (map_of es)(k := None)"
proof -
  show "sorted_keys (filter (\<lambda>e. fst e \<noteq> k) es)"
    using assms by (induction es) (auto simp: sorted_keys_Cons)
  show "map_of (filter (\<lambda>e. fst e \<noteq> k) es) = (map_of es)(k := None)"
    by (induction es) auto
qed

lemma assign_map: "assign k (f v) (map (\<lambda>(k, v). (k, f v)) es) = map (\<lambda>(k, v). (k, f v)) (assign k v es)"
proof -
  let ?g = "\<lambda>(k, v). (k, f v)"
  have "(\<lambda>e. fst e < k) \<circ> ?g = (\<lambda>e. fst e < k)" "(\<lambda>e. fst e \<le> k) \<circ> ?g = (\<lambda>e. fst e \<le> k)" by auto
  then show ?thesis by (simp add: assign_def takeWhile_map dropWhile_map)
qed

lemma filter_key_map:
  "filter (\<lambda>e. fst e \<noteq> k) (map (\<lambda>(k, v). (k, f v)) es) = map (\<lambda>(k, v). (k, f v)) (filter (\<lambda>e. fst e \<noteq> k) es)"
  by (induction es) auto

lemma sorted_keys_map [simp]: "sorted_keys (map (\<lambda>(k, v). (k, f v)) es) = sorted_keys es"
  by (simp add: sorted_keys_def sorted_wrt_map case_prod_beta)

section \<open>Applying changes to a map\<close>

definition apply_change :: "'k::linorder \<times> 'v option \<Rightarrow> ('k \<times> 'v) list \<Rightarrow> ('k \<times> 'v) list" where
  "apply_change e es = (case snd e of None \<Rightarrow> filter (\<lambda>x. fst x \<noteq> fst e) es | Some v \<Rightarrow> assign (fst e) v es)"

lemma one_change_spec:
  "sorted_keys es \<Longrightarrow> sorted_keys (apply_change e es) \<and> map_of (apply_change e es) = (map_of es)(fst e := snd e)"
  by (auto simp: apply_change_def filter_key_spec assign_spec split: option.splits)

lemma all_changes_spec:
  assumes "sorted_keys es" "distinct (map fst chs)"
  shows "sorted_keys (fold apply_change chs es)
    \<and> map_of (fold apply_change chs es) = (\<lambda>k. case map_of chs k of None \<Rightarrow> map_of es k | Some v \<Rightarrow> v)"
  using assms
proof (induction chs arbitrary: es)
  case (Cons e chs)
  have a: "sorted_keys (apply_change e es)" "map_of (apply_change e es) = (map_of es)(fst e := snd e)"
    using one_change_spec Cons.prems(1) by blast+
  have "map_of chs (fst e) = None" using Cons.prems(2) by (auto simp: map_of_eq_None_iff)
  then show ?case using Cons.IH [OF a(1)] Cons.prems(2) by (auto simp: fun_cong [OF a(2)] fun_eq_iff split: option.splits)
qed auto

text \<open>The changes between two maps turn the one into the other, also when both are only seen through \<open>f\<close>.\<close>

lemma map_of_entries: "map_of (map (\<lambda>(k, v). (k, f v)) es) k = map_option f (map_of es k)"
  by (induction es) auto

lemma changes_apply:
  fixes after before :: "(u64 \<times> 'c) list"
  defines "chs \<equiv> changes_entries (map (\<lambda>(k, v). (k, Some v)) after) (map (\<lambda>(k, v). (k, Some v)) before)"
  assumes "sorted_keys after" "sorted_keys before" 
  shows "fold apply_change (map (\<lambda>(k, v). (k, map_option f v)) chs) (map (\<lambda>(k, v). (k, f v)) before) = map (\<lambda>(k, v). (k, f v)) after"
proof (rule sorted_keys_unique)
  have s: "sorted_keys chs" unfolding chs_def using assms(2,3) by (intro changes_entries_sorted) simp_all
  then have "distinct (map fst (map (\<lambda>(k, v). (k, map_option f v)) chs))"
    by (simp add: comp_def case_prod_beta sorted_keys_distinct)
  from all_changes_spec [OF _ this, of "map (\<lambda>(k, v). (k, f v)) before"] assms(3)
  have a: "sorted_keys (fold apply_change (map (\<lambda>(k, v). (k, map_option f v)) chs) (map (\<lambda>(k, v). (k, f v)) before))"
    "map_of (fold apply_change (map (\<lambda>(k, v). (k, map_option f v)) chs) (map (\<lambda>(k, v). (k, f v)) before))
      = (\<lambda>k. case map_of (map (\<lambda>(k, v). (k, map_option f v)) chs) k of None \<Rightarrow> map_of (map (\<lambda>(k, v). (k, f v)) before) k | Some v \<Rightarrow> v)"
    by simp_all
  show "sorted_keys (fold apply_change (map (\<lambda>(k, v). (k, map_option f v)) chs) (map (\<lambda>(k, v). (k, f v)) before))" by (rule a)
  have c: "map_of chs k = change_of (map_option Some (map_of after k)) (map_option Some (map_of before k))" for k
    unfolding chs_def using assms(2,3) by (subst changes_entries_map) (simp_all add: map_of_entries)
  have "(case map_of (map (\<lambda>(k, v). (k, map_option f v)) chs) k of None \<Rightarrow> map_of (map (\<lambda>(k, v). (k, f v)) before) k | Some v \<Rightarrow> v)
      = map_of (map (\<lambda>(k, v). (k, f v)) after) k" for k
    by (cases "map_of after k"; cases "map_of before k") (simp_all add: map_of_entries c change_of_def)
  then show "map_of (fold apply_change (map (\<lambda>(k, v). (k, map_option f v)) chs) (map (\<lambda>(k, v). (k, f v)) before))
      = map_of (map (\<lambda>(k, v). (k, f v)) after)"
    unfolding a(2) by (rule ext)
qed (use assms in simp)

end
