(* ===== verification/Change_Tables.thy ===== *)
theory Change_Tables
  imports Change_Maps
begin

text \<open>
  The contents of chunks and tables that a change record carries, and the
  readers of one changed chunk and one changed table against the writers.
\<close>

section \<open>What a change record preserves\<close>

text \<open>
  A chunk without its slot numbers and identity, and a table without its
  identity, its indexes and its caches. Opening a store builds those anew.
\<close>

definition chunk_view :: "Chunk \<Rightarrow> Chunk" where
  "chunk_view c = c\<lparr>chunk_slots := [], chunk_image := 0\<rparr>"

definition chunk_views :: "(u64 \<times> Chunk) list \<Rightarrow> (u64 \<times> Chunk) list" where
  "chunk_views es = map (\<lambda>(k, c). (k, chunk_view c)) es"

definition table_view :: "Table \<Rightarrow> Table" where
  "table_view t = (empty_table 0)\<lparr>table_columns := table_columns t, table_constraints := table_constraints t,
     table_definitions := map definition_normal (table_definitions t), table_chunks := chunk_views (table_chunks t),
     table_next_chunk := table_next_chunk t, table_next_rowid := table_next_rowid t,
     table_row_count := table_row_count t, table_payload := table_payload t\<rparr>"

definition state_view :: "State \<Rightarrow> (string \<times> Table) list" where
  "state_view s = map (\<lambda>(n, t). (n, table_view t)) (state_tables s)"

definition stored_chunk :: "Registry \<Rightarrow> Table \<Rightarrow> u64 \<times> Chunk \<Rightarrow> bool" where
  "stored_chunk reg t e \<longleftrightarrow> (case e of (k, c) \<Rightarrow> k < table_next_chunk t \<and> chunk_rows c \<noteq> []
     \<and> length (chunk_rowids c) = length (chunk_rows c) \<and> length (chunk_rows c) \<le> max_chunk_rows
     \<and> (\<forall>row \<in> set (chunk_rows c). row_ok reg (table_columns t) row)
     \<and> (\<forall>i \<in> set (chunk_rowids c). i \<noteq> 0 \<and> i < table_next_rowid t) \<and> refresh_chunk c = c)"

lemma chunk_view_sel [simp]:
  "chunk_rows (chunk_view c) = chunk_rows c" "chunk_rowids (chunk_view c) = chunk_rowids c"
  "chunk_payload (chunk_view c) = chunk_payload c" "chunk_encoded (chunk_view c) = chunk_encoded c"
  by (simp_all add: chunk_view_def)

lemma read_change_rows_bytes:
  assumes "\<forall>row \<in> set rows. row_ok reg cs row" "length ids = length rows" "\<forall>i \<in> set ids. i \<noteq> 0 \<and> i < n"
    "length (concat (map row_bytes (zip ids rows))) < 2 ^ 64"
  shows "timesE (length rows) (read_change_row current_features reg cs) (n, concat (map row_bytes (zip ids rows)) @ r)
    = Inr (zip ids rows, n, r)"
proof -
  have one: "read_change_row current_features reg cs (n, row_bytes e @ r) = Inr (e, n, r)" if e: "e \<in> set (zip ids rows)" for e r
  proof -
    have l: "length (row_bytes e) < 2 ^ 64" using item_length [OF e, of row_bytes] assms(4) by simp
    have "row_ok reg cs (snd e)" "fst e \<noteq> 0" "fst e < n"
      using e assms(1,3) by (metis set_zip_rightD set_zip_leftD prod.collapse)+
    then show ?thesis using l by (simp add: read_change_row_def row_bytes_def read_cells_bytes ensure_def not_le)
  qed
  have "timesE (length es) (read_change_row current_features reg cs) (n, concat (map row_bytes es) @ r) = Inr (es, n, r)"
    if "set es \<subseteq> set (zip ids rows)" for es
    using that by (induction es) (auto simp: one)
  from this [of "zip ids rows"] show ?thesis using assms(2) by simp
qed

lemma length_row_bytes: "8 + 8 * length (snd e) \<le> length (row_bytes e)"
  using items_length [of "snd e" value_bytes] length_value_bytes by (simp add: row_bytes_def)

lemma row_count_fits:
  assumes "\<forall>row \<in> set rows. length row = n" "length ids = length rows" "n \<noteq> 0"
  shows "length rows \<le> length (concat (map row_bytes (zip ids rows)) @ r) div 8 div n"
proof -
  have "8 * n * length es \<le> length (concat (map row_bytes es))" if "\<forall>e \<in> set es. length (snd e) = n" for es
    using that
  proof (induction es)
    case (Cons e es)
    then show ?case using length_row_bytes [of e] by (simp add: algebra_simps)
  qed simp
  moreover have "\<forall>e \<in> set (zip ids rows). length (snd e) = n" using assms(1) by (auto dest: set_zip_rightD)
  ultimately have "8 * n * length rows \<le> length (concat (map row_bytes (zip ids rows)))" using assms(2) by force
  then show ?thesis using assms(3) by (simp add: div_mult2_eq [symmetric] less_eq_div_iff_mult_less_eq ac_simps)
qed

lemma read_chunk_removed:
  assumes "k < table_next_chunk t" "k \<notin> set ids" "k \<in> fst ` set (table_chunks t)"
  shows "read_change_chunk current_features reg (ids, t, images, chunk_change_bytes (k, None) @ r)
    = Inr ((), k # ids, t\<lparr>table_chunks := filter (\<lambda>e. fst e \<noteq> k) (table_chunks t)\<rparr>, images, r)"
proof -
  have "map_of (table_chunks t) k \<noteq> None" using assms(3) by (metis map_of_eq_None_iff)
  then show ?thesis using assms(1,2)
    by (simp add: read_change_chunk_def chunk_change_bytes_def size_bytes_def ensure_def not_le)
qed

lemma read_chunk_stored:
  assumes "stored_chunk reg t (k, c)" "k \<notin> set ids" "table_columns t \<noteq> []" "length (chunk_change_bytes (k, Some c)) < 2 ^ 64"
  shows "\<exists>c'. chunk_view c' = chunk_view c
    \<and> read_change_chunk current_features reg (ids, t, images, chunk_change_bytes (k, Some c) @ r)
       = Inr ((), k # ids, t\<lparr>table_chunks := assign k c' (table_chunks t)\<rparr>, Suc images, r)"
proof -
  let ?c = "refresh_chunk ((new_chunk images)\<lparr>chunk_rows := chunk_rows c, chunk_rowids := chunk_rowids c\<rparr>)"
  have c: "k < table_next_chunk t" "chunk_rows c \<noteq> []" "length (chunk_rowids c) = length (chunk_rows c)"
    "length (chunk_rows c) \<le> max_chunk_rows" "\<forall>row \<in> set (chunk_rows c). row_ok reg (table_columns t) row"
    "\<forall>i \<in> set (chunk_rowids c). i \<noteq> 0 \<and> i < table_next_rowid t" "refresh_chunk c = c"
    using assms(1) by (simp_all add: stored_chunk_def)
  have l: "length (chunk_rows c) < 2 ^ 64" using c(4) by (simp add: max_chunk_rows_def)
  have z: "(of_nat (length (chunk_rows c)) :: u64) \<noteq> 0"
    using c(2) unat_size [OF l] by (metis length_0_conv unat_0)
  have f: "length (chunk_rows c) \<le> length (concat (map row_bytes (zip (chunk_rowids c) (chunk_rows c))) @ r) div 8 div length (table_columns t)"
    using c assms(3) by (intro row_count_fits) (auto simp: row_ok_def)
  have rd: "timesE (length (chunk_rows c)) (read_change_row current_features reg (table_columns t))
      (table_next_rowid t, concat (map row_bytes (zip (chunk_rowids c) (chunk_rows c))) @ r)
      = Inr (zip (chunk_rowids c) (chunk_rows c), table_next_rowid t, r)"
    using c assms(4) by (intro read_change_rows_bytes) (simp_all add: chunk_change_bytes_def rows_bytes_def)
  have v: "chunk_view ?c = chunk_view (refresh_chunk c)"
    by (cases c) (simp add: chunk_view_def refresh_chunk_def new_chunk_def Let_def)
  have t: "t\<lparr>table_chunks := x, table_next_rowid := table_next_rowid t\<rparr> = t\<lparr>table_chunks := x\<rparr>" for x by simp
  show ?thesis
  proof (intro exI [of _ ?c] conjI)
    show "chunk_view ?c = chunk_view c" using v c(7) by simp
    show "read_change_chunk current_features reg (ids, t, images, chunk_change_bytes (k, Some c) @ r)
       = Inr ((), k # ids, t\<lparr>table_chunks := assign k ?c (table_chunks t)\<rparr>, Suc images, r)"
      using c(1,3,4) assms(2) z f rd l
      by (simp add: read_change_chunk_def chunk_change_bytes_def size_bytes_def rows_bytes_def ensure_def not_le remaining_def
          not_less t)
  qed
qed

definition view_change :: "u64 \<times> Chunk option \<Rightarrow> u64 \<times> Chunk option" where
  "view_change e = (fst e, map_option chunk_view (snd e))"

lemma read_chunks_bytes:
  assumes "sorted_keys (table_chunks t)" "distinct (map fst chs)" "table_columns t \<noteq> []"
    and "\<forall>(k, oc) \<in> set chs. k \<notin> set ids \<and> k < table_next_chunk t
      \<and> (case oc of None \<Rightarrow> k \<in> fst ` set (table_chunks t) | Some c \<Rightarrow> stored_chunk reg t (k, c))"
    and "\<forall>e \<in> set chs. length (chunk_change_bytes e) < 2 ^ 64"
  shows "\<exists>us ids' cs images'.
    timesE (length chs) (read_change_chunk current_features reg) (ids, t, images, concat (map chunk_change_bytes chs) @ r)
      = Inr (us, ids', t\<lparr>table_chunks := cs\<rparr>, images', r)
    \<and> chunk_views cs = fold apply_change (map view_change chs) (chunk_views (table_chunks t))"
  using assms
proof (induction chs arbitrary: t ids images)
  case Nil
  have "t = t\<lparr>table_chunks := table_chunks t\<rparr>" by simp
  then show ?case by (metis concat.simps(1) append_Nil fold_simps(1) list.simps(8) list.size(3) timesE.simps(1))
next
  case (Cons e chs)
  obtain k oc where e: "e = (k, oc)" by (cases e)
  have step: "\<exists>cs images'. read_change_chunk current_features reg (ids, t, images, chunk_change_bytes e @ r)
      = Inr ((), k # ids, t\<lparr>table_chunks := cs\<rparr>, images', r) \<and> sorted_keys cs
      \<and> fst ` set (table_chunks t) - {k} \<subseteq> fst ` set cs \<and> chunk_views cs = apply_change (view_change e) (chunk_views (table_chunks t))" for r
  proof (cases oc)
    case None
    have "k < table_next_chunk t" "k \<notin> set ids" "k \<in> fst ` set (table_chunks t)" using Cons.prems(4) None e by auto
    note r = read_chunk_removed [OF this, of reg images r]
    let ?cs = "filter (\<lambda>x. fst x \<noteq> k) (table_chunks t)"
    have "fst ` set (table_chunks t) - {k} \<subseteq> fst ` set ?cs" by auto
    moreover have "chunk_views ?cs = apply_change (view_change e) (chunk_views (table_chunks t))"
      by (simp add: e None view_change_def apply_change_def chunk_views_def filter_key_map)
    ultimately show ?thesis using r filter_key_spec(1) [OF Cons.prems(1), of k] unfolding e None by blast
  next
    case (Some c)
    have "stored_chunk reg t (k, c)" "k \<notin> set ids" "length (chunk_change_bytes (k, Some c)) < 2 ^ 64"
      using Cons.prems(4,5) Some e by auto
    then obtain c' where c: "chunk_view c' = chunk_view c"
      "read_change_chunk current_features reg (ids, t, images, chunk_change_bytes (k, Some c) @ r)
       = Inr ((), k # ids, t\<lparr>table_chunks := assign k c' (table_chunks t)\<rparr>, Suc images, r)"
      using read_chunk_stored Cons.prems(3) by blast
    have "fst ` set (table_chunks t) - {k} \<subseteq> fst ` set (assign k c' (table_chunks t))"
      using assign_spec(3) [OF Cons.prems(1)] by auto
    moreover have "chunk_views (assign k c' (table_chunks t)) = apply_change (view_change e) (chunk_views (table_chunks t))"
      using assign_map [of k chunk_view c' "table_chunks t"] by (simp add: e Some view_change_def apply_change_def chunk_views_def c(1))
    ultimately show ?thesis using c(2) assign_spec(1) [OF Cons.prems(1), of k c'] unfolding e Some by blast
  qed
  obtain cs images' where s: "read_change_chunk current_features reg (ids, t, images, chunk_change_bytes e @ concat (map chunk_change_bytes chs) @ r)
      = Inr ((), k # ids, t\<lparr>table_chunks := cs\<rparr>, images', concat (map chunk_change_bytes chs) @ r)" "sorted_keys cs"
      "fst ` set (table_chunks t) - {k} \<subseteq> fst ` set cs" "chunk_views cs = apply_change (view_change e) (chunk_views (table_chunks t))"
    using step by blast
  have same: "stored_chunk reg (t\<lparr>table_chunks := cs\<rparr>) = stored_chunk reg t" by (simp add: stored_chunk_def [abs_def])
  have "\<forall>(k', oc) \<in> set chs. k' \<notin> set (k # ids) \<and> k' < table_next_chunk (t\<lparr>table_chunks := cs\<rparr>)
      \<and> (case oc of None \<Rightarrow> k' \<in> fst ` set (table_chunks (t\<lparr>table_chunks := cs\<rparr>)) | Some c \<Rightarrow> stored_chunk reg (t\<lparr>table_chunks := cs\<rparr>) (k', c))"
  proof (rule ballI, rule case_prodI2)
    fix x k' oc'
    assume x: "x \<in> set chs" "x = (k', oc')"
    then have "k' \<noteq> k" using Cons.prems(2) e by (auto simp: rev_image_eqI)
    moreover have "k' \<notin> set ids \<and> k' < table_next_chunk t
      \<and> (case oc' of None \<Rightarrow> k' \<in> fst ` set (table_chunks t) | Some c \<Rightarrow> stored_chunk reg t (k', c))" using Cons.prems(4) x by auto
    ultimately show "k' \<notin> set (k # ids) \<and> k' < table_next_chunk (t\<lparr>table_chunks := cs\<rparr>)
      \<and> (case oc' of None \<Rightarrow> k' \<in> fst ` set (table_chunks (t\<lparr>table_chunks := cs\<rparr>)) | Some c \<Rightarrow> stored_chunk reg (t\<lparr>table_chunks := cs\<rparr>) (k', c))"
      using s(3) unfolding same by (auto split: option.splits)
  qed
  then obtain us ids' cs' images'' where
    "timesE (length chs) (read_change_chunk current_features reg) (k # ids, t\<lparr>table_chunks := cs\<rparr>, images', concat (map chunk_change_bytes chs) @ r)
      = Inr (us, ids', t\<lparr>table_chunks := cs, table_chunks := cs'\<rparr>, images'', r)"
    "chunk_views cs' = fold apply_change (map view_change chs) (chunk_views cs)"
    using Cons.IH [of "t\<lparr>table_chunks := cs\<rparr>" "k # ids" images'] s(2) Cons.prems by auto
  then have "timesE (length (e # chs)) (read_change_chunk current_features reg) (ids, t, images, concat (map chunk_change_bytes (e # chs)) @ r)
      = Inr (() # us, ids', t\<lparr>table_chunks := cs'\<rparr>, images'', r)"
    "chunk_views cs' = fold apply_change (map view_change (e # chs)) (chunk_views (table_chunks t))"
    using s(1,4) by simp_all
  then show ?case by blast
qed

section \<open>One changed table\<close>

definition table_stored :: "Registry \<Rightarrow> Table \<Rightarrow> bool" where
  "table_stored reg t \<longleftrightarrow> schema_ok reg t \<and> sorted_keys (table_chunks t) \<and> (\<forall>e \<in> set (table_chunks t). stored_chunk reg t e)
     \<and> distinct (concat (map (\<lambda>e. chunk_rowids (snd e)) (table_chunks t))) \<and> table_next_rowid t \<noteq> 0
     \<and> table_next_rowid t \<le> INT64_MAX \<and> refresh_table t = t"

definition old_table :: "Tables \<Rightarrow> string \<Rightarrow> Table" where
  "old_table base name = (case map_of base name of None \<Rightarrow> empty_table 0 | Some t \<Rightarrow> t)"

text \<open>What one transaction may do to a table: add columns, and use up chunk and row numbers.\<close>

definition evolves :: "Table \<Rightarrow> Table \<Rightarrow> bool" where
  "evolves old t \<longleftrightarrow> length (table_columns old) \<le> length (table_columns t)
     \<and> take (length (table_columns old)) (table_columns t) = table_columns old
     \<and> table_next_chunk old \<le> table_next_chunk t \<and> table_next_rowid old \<le> table_next_rowid t
     \<and> sorted_keys (table_chunks old) \<and> (\<forall>e \<in> set (table_chunks old). fst e < table_next_chunk old)"

definition table_change_bytes :: "Tables \<Rightarrow> string \<times> Table \<Rightarrow> bytes" where
  "table_change_bytes base e = field_bytes (view (fst e)) @ schema_bytes (snd e) @ enc_u64 (table_next_chunk (snd e))
     @ enc_u64 (table_next_rowid (snd e))
     @ list_bytes chunk_change_bytes (chunk_changes (table_chunks (snd e)) (table_chunks (old_table base (fst e))))"

lemma changed_entries: "(k, Some c) \<in> set (changes_entries xs ys) \<Longrightarrow> (k, Some c) \<in> set xs"
  by (induction xs ys rule: changes_entries.induct) (auto split: if_splits)

lemma removed_entries:
  "(k, None) \<in> set (changes_entries xs ys) \<Longrightarrow> None \<notin> snd ` set xs \<Longrightarrow> k \<in> fst ` set ys"
  by (induction xs ys rule: changes_entries.induct) (auto split: if_splits simp: rev_image_eqI)

lemma chunk_changes_cases:
  assumes "(k, oc) \<in> set (chunk_changes after before)"
  shows "case oc of None \<Rightarrow> k \<in> fst ` set before | Some c \<Rightarrow> (k, c) \<in> set after"
proof (cases oc)
  case None
  have "None \<notin> snd ` set (map (\<lambda>(k, c). (k, Some c)) after)" by auto
  then have "k \<in> fst ` set (map (\<lambda>(k, c). (k, Some c)) before)"
    using removed_entries assms None unfolding chunk_changes_def by blast
  then show ?thesis using None by (force simp: image_iff)
next
  case (Some c)
  then have "(k, Some c) \<in> set (map (\<lambda>(k, c). (k, Some c)) after)"
    using assms unfolding chunk_changes_def by (simp only: changed_entries)
  then show ?thesis using Some by auto
qed

lemma appends_table_change:
  assumes "table_plain t"
  shows "appends (write_table_change base (name, t)) (table_change_bytes base (name, t))"
proof -
  let ?chs = "chunk_changes (table_chunks t) (table_chunks (old_table base name))"
  have e: "(case map_of base name of None \<Rightarrow> [] | Some old \<Rightarrow> table_chunks old) = table_chunks (old_table base name)"
    by (simp add: old_table_def empty_table_def split: option.splits)
  have "appends (write_chunk_change x) (chunk_change_bytes x)" if x: "x \<in> set ?chs" for x
  proof (rule appends_chunk_change, intro allI impI)
    fix c
    assume "snd x = Some c"
    then have "(fst x, Some c) \<in> set ?chs" using x by (metis prod.collapse)
    from chunk_changes_cases [OF this] show "length (chunk_rowids c) = length (chunk_rows c)"
      using assms by (auto simp: table_plain_def)
  qed
  then have f: "appends (foldE write_chunk_change ?chs) (concat (map chunk_change_bytes ?chs))" by (intro appends_fold)
  have s: "appends (write_schema t) (schema_bytes t)" using assms by (intro appends_schema) (simp add: table_plain_def)
  show ?thesis unfolding write_table_change_def [abs_def] table_change_bytes_def list_bytes_def prod.case Let_def fst_conv snd_conv e
    by (intro appends_bind appends_field s appends_u64 appends_size f)
qed

lemma make_indexes_keeps:
  "make_indexes reg t = Inr t' \<Longrightarrow> table_columns t' = table_columns t \<and> table_definitions t' = table_definitions t
     \<and> table_constraints t' = table_constraints t"
  by (auto simp: make_indexes_def bindE_Inr_iff)

lemma stored_chunk_cong:
  "table_columns t' = table_columns t \<Longrightarrow> table_next_chunk t' = table_next_chunk t \<Longrightarrow> table_next_rowid t' = table_next_rowid t
     \<Longrightarrow> stored_chunk reg t' = stored_chunk reg t"
  by (simp add: stored_chunk_def [abs_def])

lemma chunk_views_sel:
  assumes "chunk_views cs = chunk_views cs'"
  shows "fst ` set cs = fst ` set cs'" "map (\<lambda>e. chunk_rowids (snd e)) cs = map (\<lambda>e. chunk_rowids (snd e)) cs'"
    "map (\<lambda>e. chunk_rows (snd e)) cs = map (\<lambda>e. chunk_rows (snd e)) cs'" "map (\<lambda>e. chunk_payload (snd e)) cs = map (\<lambda>e. chunk_payload (snd e)) cs'"
    "map (\<lambda>e. chunk_encoded (snd e)) cs = map (\<lambda>e. chunk_encoded (snd e)) cs'" "sorted_keys cs = sorted_keys cs'"
proof -
  have m: "map (\<lambda>e. f (fst e) (chunk_view (snd e))) cs = map (\<lambda>e. f (fst e) (chunk_view (snd e))) cs'" for f :: "u64 \<Rightarrow> Chunk \<Rightarrow> 'x"
    using arg_cong [OF assms, of "map (\<lambda>(k, c). f k c)"] by (simp add: chunk_views_def comp_def case_prod_beta)
  show "map (\<lambda>e. chunk_rowids (snd e)) cs = map (\<lambda>e. chunk_rowids (snd e)) cs'" using m [of "\<lambda>_. chunk_rowids"] by simp
  show "map (\<lambda>e. chunk_rows (snd e)) cs = map (\<lambda>e. chunk_rows (snd e)) cs'" using m [of "\<lambda>_. chunk_rows"] by simp
  show "map (\<lambda>e. chunk_payload (snd e)) cs = map (\<lambda>e. chunk_payload (snd e)) cs'" using m [of "\<lambda>_. chunk_payload"] by simp
  show "map (\<lambda>e. chunk_encoded (snd e)) cs = map (\<lambda>e. chunk_encoded (snd e)) cs'" using m [of "\<lambda>_. chunk_encoded"] by simp
  have k: "map fst cs = map fst cs'" using m [of "\<lambda>k _. k"] by simp
  then show "fst ` set cs = fst ` set cs'" by (metis list.set_map)
  show "sorted_keys cs = sorted_keys cs'" using arg_cong [OF k, of "sorted_wrt (<)"] by (simp add: sorted_keys_def sorted_wrt_map)
qed

lemma read_table_chunks:
  assumes "table_stored reg t" "evolves old t" "chunk_views (table_chunks t1) = chunk_views (table_chunks old)"
    and "table_columns t1 = table_columns t" "table_next_chunk t1 = table_next_chunk t" "table_next_rowid t1 = table_next_rowid t"
    and "length (concat (map chunk_change_bytes (chunk_changes (table_chunks t) (table_chunks old)))) < 2 ^ 64"
  shows "\<exists>us ids' cs images'.
    timesE (length (chunk_changes (table_chunks t) (table_chunks old))) (read_change_chunk current_features reg)
      ([], t1, images, concat (map chunk_change_bytes (chunk_changes (table_chunks t) (table_chunks old))) @ r)
      = Inr (us, ids', t1\<lparr>table_chunks := cs\<rparr>, images', r) \<and> chunk_views cs = chunk_views (table_chunks t)"
proof -
  let ?chs = "chunk_changes (table_chunks t) (table_chunks old)"
  have t: "schema_ok reg t" "sorted_keys (table_chunks t)" "\<forall>e \<in> set (table_chunks t). stored_chunk reg t e"
    using assms(1) by (simp_all add: table_stored_def)
  have old: "sorted_keys (table_chunks old)" "\<forall>e \<in> set (table_chunks old). fst e < table_next_chunk t"
    using assms(2) by (auto simp: evolves_def)
  have same: "stored_chunk reg t1 = stored_chunk reg t" using assms by (intro stored_chunk_cong)
  have s: "sorted_keys ?chs" unfolding chunk_changes_def using t(2) old(1) by (intro changes_entries_sorted) simp_all
  have c: "\<forall>(k, oc) \<in> set ?chs. k \<notin> set [] \<and> k < table_next_chunk t1
      \<and> (case oc of None \<Rightarrow> k \<in> fst ` set (table_chunks t1) | Some c \<Rightarrow> stored_chunk reg t1 (k, c))"
  proof (rule ballI, rule case_prodI2)
    fix x k oc
    assume "x \<in> set ?chs" "x = (k, oc)"
    then have "case oc of None \<Rightarrow> k \<in> fst ` set (table_chunks old) | Some c \<Rightarrow> (k, c) \<in> set (table_chunks t)"
      using chunk_changes_cases by simp
    then show "k \<notin> set [] \<and> k < table_next_chunk t1
      \<and> (case oc of None \<Rightarrow> k \<in> fst ` set (table_chunks t1) | Some c \<Rightarrow> stored_chunk reg t1 (k, c))"
      using t(3) old(2) unfolding same chunk_views_sel(1) [OF assms(3)] assms(5)
      by (auto simp: stored_chunk_def split: option.splits)
  qed
  have "\<forall>e \<in> set ?chs. length (chunk_change_bytes e) < 2 ^ 64"
    using item_length [of _ ?chs chunk_change_bytes] assms(7) by fastforce
  from read_chunks_bytes [OF _ sorted_keys_distinct [OF s] _ c this, of images r]
  obtain us ids' cs images' where
    r: "timesE (length ?chs) (read_change_chunk current_features reg) ([], t1, images, concat (map chunk_change_bytes ?chs) @ r)
      = Inr (us, ids', t1\<lparr>table_chunks := cs\<rparr>, images', r)"
    "chunk_views cs = fold apply_change (map view_change ?chs) (chunk_views (table_chunks t1))"
    using t(1) assms(4) chunk_views_sel(6) [OF assms(3)] old(1) by (auto simp: schema_ok_def)
  have "view_change = (\<lambda>(k, v). (k, map_option chunk_view v))" by (simp add: fun_eq_iff view_change_def)
  then have "chunk_views cs = chunk_views (table_chunks t)"
    using changes_apply [OF t(2) old(1), of chunk_view] r(2) unfolding assms(3) by (simp add: chunk_views_def chunk_changes_def)
  then show ?thesis using r(1) by blast
qed

lemma table_view_sel:
  assumes "table_view t = table_view t'"
  shows "table_columns t = table_columns t'" "chunk_views (table_chunks t) = chunk_views (table_chunks t')"
    "table_next_chunk t = table_next_chunk t'" "table_next_rowid t = table_next_rowid t'"
    "map definition_normal (table_definitions t) = map definition_normal (table_definitions t')"
    "table_constraints t = table_constraints t'"
  using assms by (auto simp: table_view_def empty_table_def)

lemma definition_normal_idem [simp]: "definition_normal (definition_normal d) = definition_normal d"
  by (auto simp: definition_normal_def directions_def)

text \<open>The refreshed table has the right counters when it has the right chunks.\<close>

lemma refreshed_view:
  assumes "chunk_views cs = chunk_views (table_chunks t)" "refresh_table t = t" "table_columns t1 = table_columns t"
    "table_definitions t1 = map definition_normal (table_definitions t)" "table_constraints t1 = table_constraints t"
    "table_next_chunk t1 = table_next_chunk t" "table_next_rowid t1 = table_next_rowid t"
  shows "table_view (refresh_table (t1\<lparr>table_chunks := cs\<rparr>)) = table_view t"
proof -
  have "sum_list (map (\<lambda>e. length (chunk_rows (snd e))) cs) = sum_list (map (\<lambda>e. length (chunk_rows (snd e))) (table_chunks t))"
    using arg_cong [OF chunk_views_sel(3) [OF assms(1)], of "\<lambda>xs. sum_list (map length xs)"] by (simp add: comp_def)
  moreover have "table_row_count t = sum_list (map (\<lambda>e. length (chunk_rows (snd e))) (table_chunks t))"
    "table_payload t = sum_list (map (\<lambda>e. chunk_payload (snd e)) (table_chunks t))"
    using arg_cong [OF assms(2), of table_row_count] arg_cong [OF assms(2), of table_payload] by (simp_all add: refresh_table_def)
  ultimately show ?thesis using assms(1,3-7) chunk_views_sel(4) [OF assms(1)]
    by (simp add: table_view_def refresh_table_def comp_def)
qed

lemma read_table_change_bytes:
  assumes "registry_ok reg" "table_stored reg t" "evolves (old_table base name) t" "name \<noteq> []" "name \<notin> set seen"
    and "map_option table_view (map_of base' name) = map_option table_view (map_of base name)"
    and "length (table_change_bytes base (name, t)) < 2 ^ 64"
  shows "\<exists>t' images. read_table_change current_features reg base' (seen, s, table_change_bytes base (name, t) @ r)
      = Inr ((), name # seen, s\<lparr>state_tables := assign name t' (state_tables s), state_images := images\<rparr>, r)
    \<and> table_view t' = table_view t"
proof -
  let ?old = "old_table base name" and ?chs = "chunk_changes (table_chunks t) (table_chunks (old_table base name))"
  let ?img = "state_images s"
  let ?t0 = "case map_of base' name of None \<Rightarrow> empty_table ?img | Some old \<Rightarrow> old\<lparr>table_image := ?img\<rparr>"
  let ?t1 = "?t0\<lparr>table_constraints := table_constraints t, table_columns := table_columns t,
      table_definitions := map definition_normal (table_definitions t), table_next_chunk := table_next_chunk t,
      table_next_rowid := table_next_rowid t\<rparr>"
  have l: "length name < 2 ^ 64" "length (schema_bytes t) < 2 ^ 64" "length (list_bytes chunk_change_bytes ?chs) < 2 ^ 64"
    using assms(7) by (simp_all add: table_change_bytes_def)
  have t: "schema_ok reg t" "table_next_rowid t \<le> INT64_MAX" "refresh_table t = t"
    "distinct (concat (map (\<lambda>e. chunk_rowids (snd e)) (table_chunks t)))" "\<forall>e \<in> set (table_chunks t). stored_chunk reg t e"
    using assms(2) by (simp_all add: table_stored_def)
  have v: "table_view ?t0 = table_view ?old"
    using assms(6) by (auto simp: old_table_def table_view_def empty_table_def split: option.splits)
  note o = table_view_sel [OF v]
  obtain d where "make_indexes reg (schema_only t) = Inr d"
    using read_schema_bytes [OF assms(1) t(1) l(2)] by blast
  then have d: "make_indexes reg (schema_only t) = Inr d"
      "\<And>r. read_schema current_features reg (schema_bytes t @ r) = Inr (d, r)"
    using read_schema_bytes [OF assms(1) t(1) l(2)] by auto
  have dt: "table_columns d = table_columns t" "table_constraints d = table_constraints t"
    "table_definitions d = map definition_normal (table_definitions t)"
    using make_indexes_keeps [OF d(1)] by (simp_all add: schema_only_def)
  obtain us ids' cs images' where c: "timesE (length ?chs) (read_change_chunk current_features reg)
      ([], ?t1, Suc ?img, concat (map chunk_change_bytes ?chs) @ r) = Inr (us, ids', ?t1\<lparr>table_chunks := cs\<rparr>, images', r)"
    "chunk_views cs = chunk_views (table_chunks t)"
    using read_table_chunks [OF assms(2,3), of ?t1 "Suc ?img" r] o l(3) by (auto simp: list_bytes_def)
  have n: "get_count (list_bytes chunk_change_bytes ?chs @ r) = Inr (length ?chs, concat (map chunk_change_bytes ?chs) @ r)"
    using l(3) by (intro get_count_list) (auto simp: chunk_change_bytes_def)
  have ev: "length (table_columns ?t0) \<le> length (table_columns t)" "take (length (table_columns ?t0)) (table_columns t) = table_columns ?t0"
    "\<not> table_next_chunk t < table_next_chunk ?t0" "\<not> table_next_rowid t < table_next_rowid ?t0"
    using assms(3) o by (simp_all add: evolves_def not_less)
  have "distinct (concat (map (\<lambda>e. chunk_rowids (snd e)) cs))" using t(4) chunk_views_sel(2) [OF c(2)] by simp
  moreover have "list_all (\<lambda>e. list_all (\<lambda>row. length row = length (table_columns t)) (chunk_rows (snd e))) cs"
  proof -
    have "list_all (\<lambda>e. list_all (\<lambda>row. length row = length (table_columns t)) (chunk_rows (snd e))) (table_chunks t)"
      using t(5) by (auto simp: list_all_iff stored_chunk_def row_ok_def case_prod_beta)
    then have "list_all (list_all (\<lambda>row. length row = length (table_columns t))) (map (\<lambda>e. chunk_rows (snd e)) cs)"
      unfolding chunk_views_sel(3) [OF c(2)] by (simp add: list.pred_map comp_def)
    then show ?thesis by (simp add: list.pred_map comp_def)
  qed
  ultimately have "read_table_change current_features reg base' (seen, s, table_change_bytes base (name, t) @ r)
      = Inr ((), name # seen, s\<lparr>state_tables := assign name (refresh_table (?t1\<lparr>table_chunks := cs\<rparr>)) (state_tables s),
          state_images := images'\<rparr>, r)"
    using ev d(2) dt n c(1) assms(4,5) l(1) t(2)
    by (simp add: read_table_change_def table_change_bytes_def codec_simps ensure_def Let_def not_less)
  moreover have "table_view (refresh_table (?t1\<lparr>table_chunks := cs\<rparr>)) = table_view t"
    using c(2) t(3) by (intro refreshed_view) simp_all
  ultimately show ?thesis by blast
qed

end
