(* ===== verification/Change_Records.thy ===== *)
theory Change_Records
  imports Change_Tables
begin

text \<open>
  Whole change records: replaying the record that \<open>encode_changes\<close> wrote turns
  the old contents into the new ones.
\<close>

section \<open>Change records\<close>

definition state_stored :: "Registry \<Rightarrow> State \<Rightarrow> bool" where
  "state_stored reg s \<longleftrightarrow> sorted_keys (state_tables s) \<and> (\<forall>(name, t) \<in> set (state_tables s). name \<noteq> [] \<and> table_stored reg t)"

text \<open>
  A change record holds no dropped table, a table only gains columns and uses
  up numbers, and a table that kept its identity kept its contents.
\<close>

definition evolution :: "State \<Rightarrow> State \<Rightarrow> bool" where
  "evolution base next \<longleftrightarrow> fst ` set (state_tables base) \<subseteq> fst ` set (state_tables next)
     \<and> (\<forall>(name, t) \<in> set (state_tables next). evolves (old_table (state_tables base) name) t
        \<and> (same_table (state_tables base) (name, t) \<longrightarrow> table_view (old_table (state_tables base) name) = table_view t))"

lemma table_stored_plain: "table_stored reg t \<Longrightarrow> table_plain t"
  by (auto simp: table_stored_def table_plain_def schema_ok_def definition_ok_def stored_chunk_def)

lemma length_table_change: "8 \<le> length (table_change_bytes base e)"
  by (simp add: table_change_bytes_def)

lemma read_tables_bytes:
  assumes "registry_ok reg" "distinct (map fst es)"
    and "\<forall>(name, t) \<in> set es. name \<noteq> [] \<and> name \<notin> set seen \<and> table_stored reg t \<and> evolves (old_table base name) t
      \<and> map_option table_view (map_of base' name) = map_option table_view (map_of base name)"
    and "\<forall>e \<in> set es. length (table_change_bytes base e) < 2 ^ 64"
  shows "\<exists>us seen' s'. timesE (length es) (read_table_change current_features reg base') (seen, s, concat (map (table_change_bytes base) es) @ r)
      = Inr (us, seen', s', r)
    \<and> state_view s' = fold apply_change (map (\<lambda>(n, t). (n, Some (table_view t))) es) (state_view s)"
  using assms(2-4)
proof (induction es arbitrary: seen s)
  case (Cons e es)
  obtain name t where e: "e = (name, t)" by (cases e)
  have p: "table_stored reg t" "evolves (old_table base name) t" "name \<noteq> []" "name \<notin> set seen"
    "map_option table_view (map_of base' name) = map_option table_view (map_of base name)"
    "length (table_change_bytes base (name, t)) < 2 ^ 64" using Cons.prems(2,3) by (auto simp: e)
  obtain t' images where s: "read_table_change current_features reg base'
      (seen, s, table_change_bytes base (name, t) @ concat (map (table_change_bytes base) es) @ r)
      = Inr ((), name # seen, s\<lparr>state_tables := assign name t' (state_tables s), state_images := images\<rparr>,
          concat (map (table_change_bytes base) es) @ r)" "table_view t' = table_view t"
    using read_table_change_bytes [OF assms(1) p] by blast
  let ?s = "s\<lparr>state_tables := assign name t' (state_tables s), state_images := images\<rparr>"
  have v: "state_view ?s = apply_change (name, Some (table_view t)) (state_view s)"
    using assign_map [of name table_view t' "state_tables s"] by (simp add: state_view_def apply_change_def s(2))
  have "\<forall>(n, t) \<in> set es. n \<noteq> [] \<and> n \<notin> set (name # seen) \<and> table_stored reg t \<and> evolves (old_table base n) t
      \<and> map_option table_view (map_of base' n) = map_option table_view (map_of base n)"
    using Cons.prems(1,2) by (fastforce simp: e rev_image_eqI)
  then obtain us seen' s' where
    "timesE (length es) (read_table_change current_features reg base') (name # seen, ?s, concat (map (table_change_bytes base) es) @ r)
      = Inr (us, seen', s', r)" "state_view s' = fold apply_change (map (\<lambda>(n, t). (n, Some (table_view t))) es) (state_view ?s)"
    using Cons.IH [of "name # seen" ?s] Cons.prems(1,3) by auto
  then show ?case using s(1) v by (simp add: e)
qed simp

section \<open>Sizes depend on the contents only\<close>

lemma write_definition_normal [simp]: "write_definition (definition_normal d) = write_definition d"
  by (cases "index_descending d = []")
    (auto simp: write_definition_def [abs_def] definition_normal_def directions_def intro!: ext bindE_cong foldE_cong)

lemma foldE_map: "foldE f (map g xs) s = foldE (\<lambda>x. f (g x)) xs s"
  by (induction xs arbitrary: s) (auto simp: bindE_def split: sum.splits)

lemma write_schema_view: "write_schema (table_view t) = write_schema t"
  by (simp add: write_schema_def [abs_def] table_view_def foldE_map)

definition measured :: "string \<times> Table \<Rightarrow> nat \<Rightarrow> nat result" where
  "measured e n = bindE (write_schema (snd e) []) (\<lambda>schema.
       let size = n + (40 + length (fst e)) + length schema + (16 * length (table_chunks (snd e))
         + sum_list (map (\<lambda>e. chunk_encoded (snd e)) (table_chunks (snd e)))) in
       bindE (ensure (\<not> size > max_encoded_bytes) E_format) (\<lambda>_. Inr size))"

lemma measured_view: "measured (n, table_view t) = measured (n, t)"
proof -
  have "length (table_chunks (table_view t)) = length (table_chunks t)"
    "map (\<lambda>e. chunk_encoded (snd e)) (table_chunks (table_view t)) = map (\<lambda>e. chunk_encoded (snd e)) (table_chunks t)"
    by (simp_all add: table_view_def chunk_views_def comp_def case_prod_beta)
  then show ?thesis by (simp add: measured_def [abs_def] write_schema_view)
qed

lemma checkpoint_size_view: "checkpoint_size s = foldE measured (state_view s) 32"
proof -
  have "(\<lambda>(name, t) size. bindE (write_schema t []) (\<lambda>schema.
       let size = size + (40 + length name) + length schema
             + (16 * length (table_chunks t) + sum_list (map (\<lambda>e. chunk_encoded (snd e)) (table_chunks t))) in
       bindE (ensure (\<not> size > max_encoded_bytes) E_format) (\<lambda>_. Inr size))) = (\<lambda>e. measured (case e of (n, t) \<Rightarrow> (n, table_view t)))"
    by (clarsimp simp: fun_eq_iff measured_view) (simp add: measured_def)
  then show ?thesis by (simp add: checkpoint_size_def state_view_def foldE_map)
qed

section \<open>The round trip\<close>

definition changed_tables :: "State \<Rightarrow> State \<Rightarrow> Tables" where
  "changed_tables base next = filter (\<lambda>e. \<not> same_table (state_tables base) e) (state_tables next)"

definition change_bytes :: "State \<Rightarrow> State \<Rightarrow> bytes" where
  "change_bytes base next = field_bytes (view ''CORECHG8'') @ size_bytes (length (changed_tables base next))
     @ concat (map (table_change_bytes (state_tables base)) (changed_tables base next))"

lemma encode_changes_bytes:
  assumes "encode_changes base next = Inr p" "state_stored reg next"
  shows "p = change_bytes base next @ enc_u64 (checksum (change_bytes base next))" "length p \<le> max_encoded_bytes"
    "is_ok (checkpoint_size next)"
proof -
  let ?es = "changed_tables base next" and ?b = "state_tables base"
  have "appends (write_table_change ?b e) (table_change_bytes ?b e)" if "e \<in> set ?es" for e
  proof -
    have "table_stored reg (snd e)" using that assms(2) by (auto simp: changed_tables_def state_stored_def)
    then show ?thesis using appends_table_change [OF table_stored_plain, of reg "snd e" ?b "fst e"] by simp
  qed
  then have f: "appends (foldE (write_table_change ?b) ?es) (concat (map (table_change_bytes ?b) ?es))" by (rule appends_fold)
  have w: "appends (\<lambda>out. bindE (put_field (view ''CORECHG8'') out) (\<lambda>out. bindE (put_size (length ?es) out)
      (foldE (write_table_change ?b) ?es))) (change_bytes base next)"
    unfolding change_bytes_def by (intro appends_bind appends_field appends_size f)
  obtain out where o: "bindE (put_field (view ''CORECHG8'') []) (\<lambda>out. bindE (put_size (length ?es) out)
      (foldE (write_table_change ?b) ?es)) = Inr out" "finish_record out = Inr p" "is_ok (checkpoint_size next)"
    using assms(1) by (auto simp: encode_changes_def bindE_Inr_iff Let_def changed_tables_def is_ok_def)
  have "out = change_bytes base next" using appendsD [OF w o(1)] by simp
  then show "p = change_bytes base next @ enc_u64 (checksum (change_bytes base next))" "length p \<le> max_encoded_bytes"
    using finish_record_Inr [OF o(2)] by simp_all
  show "is_ok (checkpoint_size next)" by (rule o)
qed

text \<open>Replacing the changed tables of the old state gives the new one.\<close>

lemma changed_views:
  assumes "sorted_keys (state_tables base)" "sorted_keys (state_tables next)" "evolution base next"
  shows "fold apply_change (map (\<lambda>(n, t). (n, Some (table_view t))) (changed_tables base next)) (state_view base) = state_view next"
proof (rule sorted_keys_unique)
  let ?es = "changed_tables base next" and ?b = "state_tables base" and ?n = "state_tables next"
  let ?chs = "map (\<lambda>(n, t). (n, Some (table_view t))) ?es"
  have s: "sorted_keys ?es" using assms(2) by (simp add: changed_tables_def sorted_keys_def sorted_wrt_filter)
  have a: "sorted_keys (fold apply_change ?chs (state_view base))
      \<and> map_of (fold apply_change ?chs (state_view base)) = (\<lambda>k. case map_of ?chs k of None \<Rightarrow> map_of (state_view base) k | Some v \<Rightarrow> v)"
    using assms(1) sorted_keys_distinct [OF s] by (intro all_changes_spec) (simp_all add: state_view_def comp_def case_prod_beta)
  then show "sorted_keys (fold apply_change ?chs (state_view base))" by simp
  show "sorted_keys (state_view next)" using assms(2) by (simp add: state_view_def)
  have d: "distinct (map fst ?n)" using assms(2) by (rule sorted_keys_distinct)
  have "(case map_of ?chs k of None \<Rightarrow> map_of (state_view base) k | Some v \<Rightarrow> v) = map_of (state_view next) k" for k
  proof (cases "map_of ?n k")
    case None
    then have "map_of ?b k = None" using assms(3) by (auto simp: evolution_def map_of_eq_None_iff)
    moreover have "map_of ?es k = None" using None by (auto simp: changed_tables_def map_of_eq_None_iff)
    ultimately show ?thesis using None by (simp add: map_of_entries state_view_def)
  next
    case (Some t)
    then have n: "(k, t) \<in> set ?n" by (rule map_of_SomeD)
    show ?thesis
    proof (cases "same_table ?b (k, t)")
      case True
      then have "map_of ?es k = None" using n d
        by (auto simp: changed_tables_def map_of_eq_None_iff dest: map_of_is_SomeI [OF d])
      moreover have "table_view (old_table ?b k) = table_view t" using True n assms(3) by (auto simp: evolution_def)
      ultimately show ?thesis using True Some
        by (auto simp: map_of_entries state_view_def same_table_def old_table_def split: option.splits)
    next
      case False
      then have "(k, t) \<in> set ?es" using n by (simp add: changed_tables_def)
      then have "map_of ?es k = Some t" using sorted_keys_distinct [OF s] by simp
      then show ?thesis using Some by (simp add: map_of_entries state_view_def)
    qed
  qed
  then show "map_of (fold apply_change ?chs (state_view base)) = map_of (state_view next)" using a by (auto simp: fun_eq_iff)
qed

lemma apply_encoded_changes:
  assumes "registry_ok reg" "encode_changes base next = Inr p" "state_stored reg base" "state_stored reg next" "evolution base next"
    and "state_view base' = state_view base"
  shows "\<exists>s. apply_changes base' p reg = Inr s \<and> state_view s = state_view next"
proof -
  let ?es = "changed_tables base next" and ?b = "state_tables base" and ?body = "change_bytes base next"
  let ?tb = "concat (map (table_change_bytes (state_tables base)) (changed_tables base next))"
  note p = encode_changes_bytes [OF assms(2,4)]
  have m: "max_encoded_bytes < 2 ^ 64" by (simp add: max_encoded_bytes_def)
  have l: "length ?tb < 2 ^ 64" using p(1,2) m by (simp add: change_bytes_def)
  have s: "sorted_keys ?b" "sorted_keys (state_tables next)" using assms(3,4) by (simp_all add: state_stored_def)
  have "sorted_keys ?es" using s(2) by (simp add: changed_tables_def sorted_keys_def sorted_wrt_filter)
  then have d: "distinct (map fst ?es)" by (rule sorted_keys_distinct)
  have views: "map_option table_view (map_of (state_tables base') k) = map_option table_view (map_of ?b k)" for k
    using arg_cong [OF assms(6), of "\<lambda>es. map_of es k"] by (simp add: state_view_def map_of_entries)
  have small: "\<forall>e \<in> set ?es. length (table_change_bytes ?b e) < 2 ^ 64"
    using item_length [of _ ?es "table_change_bytes ?b"] l by fastforce
  have "\<forall>(name, t) \<in> set ?es. name \<noteq> [] \<and> name \<notin> set [] \<and> table_stored reg t \<and> evolves (old_table ?b name) t
      \<and> map_option table_view (map_of (state_tables base') name) = map_option table_view (map_of ?b name)"
    using assms(4,5) views by (auto simp: changed_tables_def state_stored_def evolution_def)
  from read_tables_bytes [OF assms(1) d this small, of base' "[]"] obtain us seen' s' where
    r: "timesE (length ?es) (read_table_change current_features reg (state_tables base')) ([], base', ?tb @ []) = Inr (us, seen', s', [])"
    and v: "state_view s' = fold apply_change (map (\<lambda>(n, t). (n, Some (table_view t))) ?es) (state_view base')" by blast
  have v': "state_view s' = state_view next" using v changed_views [OF s assms(5)] assms(6) by simp
  have n: "8 * length ?es \<le> length ?tb" using length_table_change by (intro items_length) simp
  have f: "change_features ''CORECHG8'' = Inr current_features" by (simp add: change_features_def current_features_def ensure_def)
  have "length ?es < 2 ^ 64" using n l by simp
  then have c: "get_count (size_bytes (length ?es) @ ?tb) = Inr (length ?es, ?tb)" using n by (simp add: codec_simps)
  have g: "get_string (field_bytes (view ''CORECHG8'') @ r) = Inr (''CORECHG8'', r)" for r by (simp add: codec_simps)
  have vs: "validate_snapshot p = Inr ()" using p validate_finished [of ?body] by simp
  have tk: "take (length p - 8) p = ?body" by (simp add: p(1))
  obtain size where "checkpoint_size s' = Inr size" using p(3) v' by (auto simp: checkpoint_size_view is_ok_def split: sum.splits)
  then have "apply_changes base' p reg = Inr (s'\<lparr>state_stats := measure_state s'\<rparr>)"
    using vs c f g r unfolding apply_changes_def tk change_bytes_def by simp
  then show ?thesis using v' by (auto simp: state_view_def)
qed

end
