(* ===== verification/Storage_Log.thy ===== *)
theory Storage_Log
  imports Change_Records
begin

text \<open>
  The log file as a list of records, and what recovery does with it.
\<close>

section \<open>Logs\<close>

definition framed :: "bytes \<Rightarrow> bytes" where
  "framed p = frame_header (length p) @ p @ committed"

definition log_bytes :: "bytes list \<Rightarrow> bytes" where
  "log_bytes ps = magic @ concat (map framed ps)"

definition record_ok :: "bytes \<Rightarrow> bool" where
  "record_ok p \<longleftrightarrow> 32 \<le> length p \<and> length p \<le> max_record"

definition replay :: "Registry \<Rightarrow> bytes list \<Rightarrow> State \<Rightarrow> State result" where
  "replay reg ps s = foldE (\<lambda>p s. apply_changes s p reg) ps s"

declare recover_loop.simps [simp del] blocks_of.simps [simp del]

lemma length_parts [simp]: "length (frame_header n) = 16" "length committed = 8" "length magic = 8"
  by (simp_all add: frame_header_def committed_def magic_def)

lemma length_framed [simp]: "length (framed p) = 24 + length p"
  by (simp add: framed_def)

lemma log_append: "log_bytes (ps @ qs) = log_bytes ps @ concat (map framed qs)"
  by (simp add: log_bytes_def)

lemma log_nonempty: "8 \<le> length (log_bytes ps)"
  by (simp add: log_bytes_def)

lemma record_size: "record_ok p \<Longrightarrow> unat (of_nat (length p) :: u64) = length p"
  by (simp add: record_ok_def max_record_def max_encoded_bytes_def)

lemma read_at_middle: "read_at (pre @ bs @ rest) n (length pre) = Inr bs" if "n = length bs"
  using that by (simp add: read_at_def)

lemma read_frame:
  assumes "16 \<le> length tail" "take 16 tail = frame_header n"
  shows "read_at (pre @ tail) 16 (length pre) = Inr (frame_header n)"
  using assms by (simp add: read_at_def)

lemma frame_numbers:
  "reader_u64 (frame_header n) = Inr (of_nat n, enc_u64 (NOT (of_nat n)))" "reader_u64 (enc_u64 x) = Inr (x, [])"
  using reader_u64_enc [of x "[]"] by (simp_all add: frame_header_def)

lemma recover_record:
  assumes "record_ok p"
  shows "recover_loop reg (pre @ framed p @ rest) (length pre) s
    = bindE (apply_changes s p reg) (recover_loop reg (pre @ framed p @ rest) (length pre + 24 + length p))"
proof -
  let ?bs = "pre @ framed p @ rest"
  have h: "read_at ?bs 16 (length pre) = Inr (frame_header (length p))"
    by (rule read_frame) (simp_all add: framed_def)
  have m: "read_at ?bs 8 (length pre + 16 + length p) = Inr committed"
    using read_at_middle [of 8 committed "pre @ frame_header (length p) @ p" rest] by (simp add: framed_def ac_simps)
  have d: "read_at ?bs (length p) (length pre + 16) = Inr p"
    using read_at_middle [of "length p" p "pre @ frame_header (length p)" "committed @ rest"] by (simp add: framed_def)
  show ?thesis
    using assms by (subst recover_loop.simps)
      (simp add: h frame_numbers record_size m d, simp add: record_ok_def)
qed

lemma recover_torn:
  assumes "record_ok p" "k < length (framed p)"
  shows "recover_loop reg (pre @ take k (framed p)) (length pre) s = Inr (s, length pre)"
proof (cases "k < 16")
  case True
  then show ?thesis by (subst recover_loop.simps) simp
next
  case False
  have h: "read_at (pre @ take k (framed p)) 16 (length pre) = Inr (frame_header (length p))"
    using False assms(2) by (intro read_frame) (simp_all add: framed_def min_def)
  have "k - 16 < length p + 8" using False assms(2) by simp
  then show ?thesis using False assms
    by (subst recover_loop.simps) (simp add: h frame_numbers record_size, simp add: record_ok_def)
qed

lemma recover_records:
  assumes "\<forall>p \<in> set ps. record_ok p" "record_ok p" "k < length (framed p)"
  shows "recover_loop reg (pre @ concat (map framed ps) @ take k (framed p)) (length pre) s
    = bindE (replay reg ps s) (\<lambda>s. Inr (s, length (pre @ concat (map framed ps))))"
  using assms(1)
proof (induction ps arbitrary: pre s)
  case Nil
  then show ?case using recover_torn [OF assms(2,3)] by (simp add: replay_def)
next
  case (Cons q qs)
  have e: "recover_loop reg (pre @ framed q @ concat (map framed qs) @ take k (framed p)) (length pre + 24 + length q) s'
      = bindE (replay reg qs s') (\<lambda>s. Inr (s, length (pre @ framed q @ concat (map framed qs))))" for s'
    using Cons.IH [of "pre @ framed q" s'] Cons.prems by (simp add: add.assoc)
  have e': "recover_loop reg (pre @ framed q @ concat (map framed qs) @ take k (framed p)) (length pre + 24 + length q)
      = (\<lambda>s'. bindE (replay reg qs s') (\<lambda>s. Inr (s, length (pre @ framed q @ concat (map framed qs)))))"
    by (rule ext) (rule e)
  have "record_ok q" using Cons.prems by simp
  from recover_record [OF this, of reg pre "concat (map framed qs) @ take k (framed p)" s]
  show ?case by (simp add: e' replay_def bindE_assoc)
qed

text \<open>A log with a torn last record recovers to its complete records.\<close>

lemma recover_log:
  assumes "\<forall>p \<in> set ps. record_ok p" "record_ok p" "k < length (framed p)"
  shows "recover_bytes reg (log_bytes ps @ take k (framed p))
    = bindE (replay reg ps empty_state) (\<lambda>s. Inr (s, length (log_bytes ps)))"
proof -
  have "read_at (magic @ concat (map framed ps) @ take k (framed p)) 8 0 = Inr magic"
    by (simp add: read_at_def)
  then show ?thesis
    using recover_records [OF assms, of reg magic empty_state] by (simp add: recover_bytes_def log_bytes_def)
qed

lemma recover_whole_log:
  assumes "\<forall>p \<in> set ps. record_ok p"
  shows "recover_bytes reg (log_bytes ps) = bindE (replay reg ps empty_state) (\<lambda>s. Inr (s, length (log_bytes ps)))"
  using recover_log [OF assms, of "replicate 32 0" 0 reg] by (simp add: record_ok_def max_record_def max_encoded_bytes_def)

end
