(* ===== verification/Storage_Writes.thy ===== *)
theory Storage_Writes
  imports Storage_Log "HOL-Library.Sublist"
begin

text \<open>
  What the write operations of the store may change: one file, and only by
  appending to it.
\<close>

section \<open>Effects of file operations\<close>

text \<open>Nothing but one file and the schedule changed.\<close>

definition only_file :: "nat \<Rightarrow> DurableStore \<Rightarrow> DurableStore \<Rightarrow> bool" where
  "only_file fd d d' \<longleftrightarrow> (\<exists>f os. d' = d\<lparr>ds_files := (ds_files d)[fd := f], ds_schedule := os\<rparr>)"

lemma only_file_refl [simp]: "only_file fd d d"
  unfolding only_file_def by (rule exI [of _ "ds_files d ! fd"], rule exI [of _ "ds_schedule d"]) simp

lemma only_file_trans: "only_file fd d d' \<Longrightarrow> only_file fd d' d'' \<Longrightarrow> only_file fd d d''"
proof -
  assume "only_file fd d d'" "only_file fd d' d''"
  then obtain f os f' os' where "d' = d\<lparr>ds_files := (ds_files d)[fd := f], ds_schedule := os\<rparr>"
    "d'' = d'\<lparr>ds_files := (ds_files d')[fd := f'], ds_schedule := os'\<rparr>" unfolding only_file_def by blast
  then have "d'' = d\<lparr>ds_files := (ds_files d)[fd := f'], ds_schedule := os'\<rparr>" by simp
  then show ?thesis unfolding only_file_def by blast
qed

lemma only_file_schedule [simp]: "only_file fd d (d\<lparr>ds_schedule := os\<rparr>)"
  unfolding only_file_def by (rule exI [of _ "ds_files d ! fd"], rule exI [of _ os]) simp

lemma only_file_edit [simp]: "only_file fd d (edit_file fd f (d\<lparr>ds_schedule := os\<rparr>))" "only_file fd d (edit_file fd f d)"
proof -
  have "edit_file fd f (d\<lparr>ds_schedule := os\<rparr>) = d\<lparr>ds_files := (ds_files d)[fd := f (ds_files d ! fd)], ds_schedule := os\<rparr>"
    by (simp add: edit_file_def)
  then show "only_file fd d (edit_file fd f (d\<lparr>ds_schedule := os\<rparr>))" unfolding only_file_def by blast
  show "only_file fd d (edit_file fd f d)" unfolding only_file_def edit_file_def
    by (rule exI [of _ "f (ds_files d ! fd)"], rule exI [of _ "ds_schedule d"]) simp
qed

lemma only_file_fields:
  assumes "only_file fd d d'"
  shows "length (ds_files d') = length (ds_files d)" "i \<noteq> fd \<Longrightarrow> ds_files d' ! i = ds_files d ! i"
    "ds_path d' = ds_path d" "ds_previous d' = ds_previous d" "ds_temporary d' = ds_temporary d"
    "ds_background_file d' = ds_background_file d" "ds_fd d' = ds_fd d" "ds_failed d' = ds_failed d"
    "ds_generation d' = ds_generation d" "ds_committed_end d' = ds_committed_end d" "ds_images d' = ds_images d"
    "ds_image_fd d' = ds_image_fd d" "ds_background_active d' = ds_background_active d"
  using assms by (auto simp: only_file_def)

definition touches :: "nat \<Rightarrow> 'a io \<Rightarrow> bool" where
  "touches fd m \<longleftrightarrow> (\<forall>d a d'. m d = (a, d') \<longrightarrow> only_file fd d d')"

named_theorems touches_intros \<open>operations that touch one file only\<close>

lemma touchesD: "touches fd m \<Longrightarrow> m d = (a, d') \<Longrightarrow> only_file fd d d'"
  by (auto simp: touches_def)

lemma touches_return [touches_intros]: "touches fd (returnI x)" "touches fd (throwI e)" "touches fd (readI g)"
  by (auto simp: touches_def returnI_def throwI_def readI_def)

lemma touches_lift [touches_intros]: "touches fd (liftI r)"
  by (cases r) (simp_all add: liftI_def touches_return)

lemma touches_bind [touches_intros]:
  assumes "touches fd m" "\<And>x. touches fd (f x)"
  shows "touches fd (bindI m f)"
  unfolding touches_def
proof (intro allI impI)
  fix d a d'
  assume b: "bindI m f d = (a, d')"
  obtain x d1 where m: "m d = (x, d1)" by (cases "m d")
  have o: "only_file fd d d1" using touchesD [OF assms(1) m] .
  show "only_file fd d d'"
  proof (cases x)
    case (Done y)
    then have "f y d1 = (a, d')" using b m by (simp add: bindI_def)
    then show ?thesis using only_file_trans [OF o] touchesD [OF assms(2)] by blast
  qed (use b m o in \<open>simp_all add: bindI_def\<close>)
qed

lemma touches_write [touches_intros]: "touches fd (write_all fd bs)" "touches fd (write_at fd bs n)"
  by (auto simp: touches_def write_all_def write_at_def split: prod.splits)

lemma touches_system [touches_intros]: "touches fd system_call" "touches fd retried"
  by (auto simp: touches_def system_call_def retried_def split: list.splits Outcome.splits prod.splits)

lemma touches_sync [touches_intros]: "touches fd (synchronize fd)"
  unfolding synchronize_def by (intro touches_bind touches_system) (auto simp: touches_def modifyI_def)

lemma touches_for [touches_intros]: "(\<And>x. touches fd (f x)) \<Longrightarrow> touches fd (forI f xs)"
  by (induction xs) (auto intro: touches_intros)

lemma touches_append_checkpoint: "touches fd (append_checkpoint fd s images reuse)"
  unfolding append_checkpoint_def by (auto intro!: touches_intros split: prod.splits)

section \<open>Growing files\<close>

text \<open>An operation that appends the given bytes to a file, or a prefix of them when it does not return.\<close>

definition grows :: "nat \<Rightarrow> 'a io \<Rightarrow> bytes \<Rightarrow> bool" where
  "grows fd m bs \<longleftrightarrow> (\<forall>d a d'. m d = (a, d') \<longrightarrow> fd < length (ds_files d) \<longrightarrow>
     only_file fd d d' \<and> prefix (file_synced (ds_files d ! fd)) (file_synced (ds_files d' ! fd))
     \<and> (\<exists>w r. bs = w @ r \<and> file_bytes (ds_files d' ! fd) = file_bytes (ds_files d ! fd) @ w
          \<and> ((\<exists>x. a = Done x) \<longrightarrow> r = [])))"

lemma growsE:
  assumes "grows fd m bs" "m d = (a, d')" "fd < length (ds_files d)"
  obtains w r where "bs = w @ r" "file_bytes (ds_files d' ! fd) = file_bytes (ds_files d ! fd) @ w"
    "(\<exists>x. a = Done x) \<longrightarrow> r = []" "only_file fd d d'"
    "prefix (file_synced (ds_files d ! fd)) (file_synced (ds_files d' ! fd))"
  using assms unfolding grows_def by blast

lemma write_loop_prefix: "write_loop os bs = (a, w, os') \<Longrightarrow> \<exists>r. bs = w @ r \<and> (a = Done () \<longrightarrow> r = [])"
proof (induction os bs arbitrary: a w os' rule: write_loop.induct)
  case (5 n os b bs)
  show ?case
  proof (cases "n = 0")
    case False
    obtain a' w' os'' where l: "write_loop os (drop n (b # bs)) = (a', w', os'')" by (cases "write_loop os (drop n (b # bs))")
    then obtain r where r: "drop n (b # bs) = w' @ r" "a' = Done () \<longrightarrow> r = []" using 5 False by blast
    have "a = a'" "w = take n (b # bs) @ w'" using 5 False l by auto
    moreover have "b # bs = take n (b # bs) @ w' @ r" using r(1) by (metis append_take_drop_id)
    ultimately show ?thesis using r(2) by (metis append_assoc)
  qed (use 5 in auto)
qed auto

lemma grows_write: "grows fd (write_all fd bs) bs"
  unfolding grows_def
proof (intro allI impI)
  fix d a d'
  assume w: "write_all fd bs d = (a, d')" and l: "fd < length (ds_files d)"
  obtain a' w os where e: "write_loop (ds_schedule d) bs = (a', w, os)" by (cases "write_loop (ds_schedule d) bs")
  then have d': "a = a'" "d' = edit_file fd (\<lambda>f. f\<lparr>file_unsynced := file_unsynced f @ w\<rparr>) (d\<lparr>ds_schedule := os\<rparr>)"
    using w by (simp_all add: write_all_def)
  obtain r where "bs = w @ r" "a = Done () \<longrightarrow> r = []" using write_loop_prefix [OF e] d'(1) by blast
  moreover have "(\<exists>x. a = Done x) \<longleftrightarrow> a = Done ()" by auto
  moreover have "file_bytes (ds_files d' ! fd) = file_bytes (ds_files d ! fd) @ w"
    "file_synced (ds_files d' ! fd) = file_synced (ds_files d ! fd)"
    using l by (simp_all add: d'(2) edit_file_def file_bytes_def)
  ultimately show "only_file fd d d' \<and> prefix (file_synced (ds_files d ! fd)) (file_synced (ds_files d' ! fd))
     \<and> (\<exists>w r. bs = w @ r \<and> file_bytes (ds_files d' ! fd) = file_bytes (ds_files d ! fd) @ w
          \<and> ((\<exists>x. a = Done x) \<longrightarrow> r = []))" using d'(2) by auto
qed

lemma grows_bind:
  assumes "grows fd m as" "\<And>x. grows fd (f x) bs"
  shows "grows fd (bindI m f) (as @ bs)"
  unfolding grows_def
proof (intro allI impI)
  fix d a d'
  assume b: "bindI m f d = (a, d')" and l: "fd < length (ds_files d)"
  obtain x d1 where m: "m d = (x, d1)" by (cases "m d")
  obtain w r where g: "as = w @ r" "file_bytes (ds_files d1 ! fd) = file_bytes (ds_files d ! fd) @ w"
    "(\<exists>y. x = Done y) \<longrightarrow> r = []" "only_file fd d d1"
    "prefix (file_synced (ds_files d ! fd)) (file_synced (ds_files d1 ! fd))" using assms(1) m l by (rule growsE)
  show "only_file fd d d' \<and> prefix (file_synced (ds_files d ! fd)) (file_synced (ds_files d' ! fd))
     \<and> (\<exists>w r. as @ bs = w @ r \<and> file_bytes (ds_files d' ! fd) = file_bytes (ds_files d ! fd) @ w
          \<and> ((\<exists>x. a = Done x) \<longrightarrow> r = []))"
  proof (cases x)
    case (Done y)
    then have f: "f y d1 = (a, d')" using b m by (simp add: bindI_def)
    have l1: "fd < length (ds_files d1)" using l g(4) by (simp add: only_file_fields)
    obtain w' r' where h: "bs = w' @ r'" "file_bytes (ds_files d' ! fd) = file_bytes (ds_files d1 ! fd) @ w'"
      "(\<exists>y. a = Done y) \<longrightarrow> r' = []" "only_file fd d1 d'"
      "prefix (file_synced (ds_files d1 ! fd)) (file_synced (ds_files d' ! fd))" using assms(2) f l1 by (rule growsE)
    have "as @ bs = (w @ w') @ r'" using g(1,3) h(1) Done by simp
    moreover have "file_bytes (ds_files d' ! fd) = file_bytes (ds_files d ! fd) @ w @ w'" using g(2) h(2) by simp
    ultimately show ?thesis using h g only_file_trans prefix_order.trans by blast
  next
    case (Threw e)
    then have "a = Threw e" "d' = d1" using b m by (simp_all add: bindI_def)
    then show ?thesis using g by (metis answer.distinct(1) append_assoc)
  next
    case Stopped
    then have "a = Stopped" "d' = d1" using b m by (simp_all add: bindI_def)
    then show ?thesis using g by (metis answer.distinct(3) append_assoc)
  qed
qed

lemma grows_sync: "grows fd (synchronize fd) []"
  unfolding grows_def
proof (intro allI impI)
  fix d a d'
  assume s: "synchronize fd d = (a, d')" and l: "fd < length (ds_files d)"
  have o: "only_file fd d d'" using touches_sync s by (rule touchesD)
  obtain a' os where r: "retry_loop (ds_schedule d) = (a', os)" by (cases "retry_loop (ds_schedule d)")
  have "file_bytes (ds_files d' ! fd) = file_bytes (ds_files d ! fd)
      \<and> prefix (file_synced (ds_files d ! fd)) (file_synced (ds_files d' ! fd))"
    using s r l by (cases a') (auto simp: synchronize_def bindI_def retried_def modifyI_def edit_file_def file_bytes_def)
  then show "only_file fd d d' \<and> prefix (file_synced (ds_files d ! fd)) (file_synced (ds_files d' ! fd))
     \<and> (\<exists>w r. [] = w @ r \<and> file_bytes (ds_files d' ! fd) = file_bytes (ds_files d ! fd) @ w
          \<and> ((\<exists>x. a = Done x) \<longrightarrow> r = []))" using o by simp
qed

lemma sync_done:
  assumes "synchronize fd d = (Done x, d')" "fd < length (ds_files d)"
  shows "ds_files d' ! fd = \<lparr>file_synced = file_bytes (ds_files d ! fd), file_unsynced = []\<rparr>"
  using assms by (auto simp: synchronize_def bindI_def retried_def modifyI_def edit_file_def split: prod.splits answer.splits)

lemma bindI_Done: "bindI m f d = (Done y, d'') \<longleftrightarrow> (\<exists>x d'. m d = (Done x, d') \<and> f x d' = (Done y, d''))"
  by (auto simp: bindI_def split: prod.splits answer.splits)

lemma grows_append: "grows fd (append_record fd p) (framed p)"
proof -
  have e: "framed p = take 8 (frame_header (length p)) @ drop 8 (frame_header (length p))
      @ take (length p div 2) p @ drop (length p div 2) p @ [] @ take 4 committed @ drop 4 committed @ []"
    unfolding framed_def by (metis append_Nil append_Nil2 append_assoc append_take_drop_id)
  show ?thesis unfolding append_record_def Let_def e
    by (intro grows_bind grows_write grows_sync)
qed

lemma append_done:
  assumes "append_record fd p d = (Done x, d')" "fd < length (ds_files d)"
  shows "ds_files d' ! fd = \<lparr>file_synced = file_bytes (ds_files d ! fd) @ framed p, file_unsynced = []\<rparr>"
proof -
  obtain w r where g: "framed p = w @ r" "file_bytes (ds_files d' ! fd) = file_bytes (ds_files d ! fd) @ w" "r = []"
    using growsE [OF grows_append assms] by blast
  obtain d1 where s: "synchronize fd d1 = (Done (), d')"
    using assms(1) unfolding append_record_def Let_def by (auto simp: bindI_Done)
  have "fd < length (ds_files d1)" "file_unsynced (ds_files d' ! fd) = []"
    if l: "fd < length (ds_files d')"
  proof -
    show d1: "fd < length (ds_files d1)" using only_file_fields(1) [OF touchesD [OF touches_sync s]] l by simp
    show "file_unsynced (ds_files d' ! fd) = []" using sync_done [OF s d1] by simp
  qed
  moreover have "length (ds_files d') = length (ds_files d)"
    using growsE [OF grows_append assms] only_file_fields(1) by metis
  ultimately have "file_unsynced (ds_files d' ! fd) = []" using assms(2) by simp
  then show ?thesis using g by (simp add: file_bytes_def)
qed

end
