(* ===== verification/Storage_Crash.thy ===== *)
theory Storage_Crash
  imports Storage_Writes
begin

text \<open>
  A Hoare logic with crash conditions, and checkpoints written beside the log.
\<close>

section \<open>Reasoning about crashes\<close>

text \<open>
  Every outcome of the operation, also a stop in the middle, leaves the store
  as the last argument says; when it returns, the third argument holds too.
\<close>

definition hoare ::
    "(DurableStore \<Rightarrow> bool) \<Rightarrow> 'a io \<Rightarrow> ('a \<Rightarrow> DurableStore \<Rightarrow> bool) \<Rightarrow> (DurableStore \<Rightarrow> bool) \<Rightarrow> bool" where
  "hoare P m Q R \<longleftrightarrow> (\<forall>d a d'. P d \<longrightarrow> m d = (a, d') \<longrightarrow> R d' \<and> (\<forall>x. a = Done x \<longrightarrow> Q x d'))"

lemma hoareI: "(\<And>d a d'. P d \<Longrightarrow> m d = (a, d') \<Longrightarrow> R d' \<and> (\<forall>x. a = Done x \<longrightarrow> Q x d')) \<Longrightarrow> hoare P m Q R"
  by (auto simp: hoare_def)

lemma hoareD: "hoare P m Q R \<Longrightarrow> P d \<Longrightarrow> m d = (a, d') \<Longrightarrow> R d' \<and> (\<forall>x. a = Done x \<longrightarrow> Q x d')"
  unfolding hoare_def by blast

lemma hoare_bind:
  assumes "hoare P m Q R" "\<And>x. hoare (Q x) (f x) Q' R"
  shows "hoare P (bindI m f) Q' R"
proof (rule hoareI)
  fix d a d'
  assume P: "P d" and b: "bindI m f d = (a, d')"
  obtain x d1 where m: "m d = (x, d1)" by (cases "m d")
  have h: "R d1 \<and> (\<forall>y. x = Done y \<longrightarrow> Q y d1)" using assms(1) P m by (rule hoareD)
  show "R d' \<and> (\<forall>x. a = Done x \<longrightarrow> Q' x d')"
  proof (cases x)
    case (Done y)
    then have "f y d1 = (a, d')" "Q y d1" using b m h by (auto simp: bindI_def)
    then show ?thesis using hoareD [OF assms(2)] by blast
  qed (use b m h in \<open>auto simp: bindI_def\<close>)
qed

lemma hoare_weaken: "hoare P m Q R \<Longrightarrow> (\<And>d. P' d \<Longrightarrow> P d) \<Longrightarrow> (\<And>x d. Q x d \<Longrightarrow> Q' x d) \<Longrightarrow> hoare P' m Q' R"
  unfolding hoare_def by blast

lemma hoare_read: "(\<And>d. P d \<Longrightarrow> R d) \<Longrightarrow> hoare P (readI g) (\<lambda>x d. P d \<and> x = g d) R"
  by (auto simp: hoare_def readI_def)

lemma hoare_lift: "(\<And>d. P d \<Longrightarrow> R d) \<Longrightarrow> hoare P (liftI r) (\<lambda>x d. P d \<and> r = Inr x) R"
  by (cases r) (auto simp: hoare_def liftI_def throwI_def returnI_def)

lemma hoare_throw: "(\<And>d. P d \<Longrightarrow> R d) \<Longrightarrow> hoare P (throwI e) Q R"
  by (auto simp: hoare_def throwI_def)

lemma hoare_return: "(\<And>d. P d \<Longrightarrow> R d) \<Longrightarrow> (\<And>d. P d \<Longrightarrow> Q x d) \<Longrightarrow> hoare P (returnI x) Q R"
  by (auto simp: hoare_def returnI_def)

lemma hoare_modify: "(\<And>d. P d \<Longrightarrow> R (f d)) \<Longrightarrow> (\<And>d. P d \<Longrightarrow> Q () (f d)) \<Longrightarrow> hoare P (modifyI f) Q R"
  by (auto simp: hoare_def modifyI_def)

lemma hoare_rethrow:
  assumes "hoare P m Q R" "\<And>d. R d \<Longrightarrow> R (h d)"
  shows "hoare P (rethrowI m h) Q R"
proof (rule hoareI)
  fix d a d'
  assume P: "P d" and b: "rethrowI m h d = (a, d')"
  obtain x d1 where m: "m d = (x, d1)" by (cases "m d")
  have "R d1 \<and> (\<forall>y. x = Done y \<longrightarrow> Q y d1)" using assms(1) P m by (rule hoareD)
  then show "R d' \<and> (\<forall>x. a = Done x \<longrightarrow> Q x d')" using b m assms(2) by (cases x) (auto simp: rethrowI_def)
qed

lemma hoare_case_if:
  "(c \<Longrightarrow> hoare P m Q R) \<Longrightarrow> (\<not> c \<Longrightarrow> hoare P n Q R) \<Longrightarrow> hoare P (if c then m else n) Q R"
  by simp

text \<open>A system call that only takes its answer from the schedule.\<close>

definition ignores_schedule :: "(DurableStore \<Rightarrow> bool) \<Rightarrow> bool" where
  "ignores_schedule P \<longleftrightarrow> (\<forall>d os. P (d\<lparr>ds_schedule := os\<rparr>) = P d)"

lemma hoare_system:
  assumes "ignores_schedule P" "\<And>d. P d \<Longrightarrow> R d"
  shows "hoare P system_call (\<lambda>_. P) R" "hoare P retried (\<lambda>_. P) R"
proof -
  have s: "P (d\<lparr>ds_schedule := os\<rparr>) = P d" for d os using assms(1) by (simp add: ignores_schedule_def)
  show "hoare P system_call (\<lambda>_. P) R"
    by (rule hoareI) (auto simp: system_call_def s intro!: assms(2) split: list.splits Outcome.splits)
  show "hoare P retried (\<lambda>_. P) R"
    by (rule hoareI) (auto simp: retried_def s intro!: assms(2) split: prod.splits)
qed

section \<open>Crash images\<close>

definition crash_image :: "File \<Rightarrow> bytes \<Rightarrow> bool" where
  "crash_image f bs \<longleftrightarrow> (\<exists>k. bs = file_synced f @ take k (file_unsynced f))"

definition crash_state :: "DurableStore \<Rightarrow> bytes \<Rightarrow> bool" where
  "crash_state d bs \<longleftrightarrow> crash_image (ds_files d ! ds_path d) bs
     \<or> (\<exists>i. ds_previous d = Some i \<and> crash_image (ds_files d ! i) bs)"

definition clean :: "bytes \<Rightarrow> File" where
  "clean bs = \<lparr>file_synced = bs, file_unsynced = []\<rparr>"

lemma crash_clean [simp]: "crash_image (clean bs) cs \<longleftrightarrow> cs = bs"
  by (simp add: crash_image_def clean_def)

lemma clean_bytes [simp]: "file_bytes (clean bs) = bs" "file_synced (clean bs) = bs" "file_unsynced (clean bs) = []"
  by (simp_all add: file_bytes_def clean_def)

text \<open>A store at rest: its file is a synchronised log, and the path names that file for good.\<close>

definition store_ok :: "DurableStore \<Rightarrow> bytes list \<Rightarrow> bool" where
  "store_ok d ps \<longleftrightarrow> ds_previous d = None \<and> ds_path d = ds_fd d \<and> ds_fd d < length (ds_files d)
     \<and> ds_files d ! ds_fd d = clean (log_bytes ps) \<and> (\<forall>p \<in> set ps. record_ok p)
     \<and> (\<forall>i. ds_image_fd d = Some i \<longrightarrow> i < length (ds_files d))"

text \<open>Where the encoded chunks of the last checkpoint can be copied from.\<close>

type_synonym source = "Images \<times> nat option \<times> bytes option"

definition store_source :: "DurableStore \<Rightarrow> source" where
  "store_source d = (ds_images d, ds_image_fd d, map_option (\<lambda>i. file_bytes (ds_files d ! i)) (ds_image_fd d))"

definition source_reuse :: "source \<Rightarrow> nat \<Rightarrow> bytes list option" where
  "source_reuse src = (case src of (images, _, held) \<Rightarrow> reuse_image images held)"

lemma store_crash: "store_ok d ps \<Longrightarrow> crash_state d bs \<longleftrightarrow> bs = log_bytes ps"
  by (simp add: store_ok_def crash_state_def)

lemma store_ok_schedule: "store_ok (d\<lparr>ds_schedule := os\<rparr>) ps = store_ok d ps"
  by (simp add: store_ok_def)

section \<open>Writing a checkpoint\<close>

lemma write_done:
  assumes "write_all fd bs d = (Done x, d')" "fd < length (ds_files d)"
  shows "ds_files d' ! fd = (ds_files d ! fd)\<lparr>file_unsynced := file_unsynced (ds_files d ! fd) @ bs\<rparr>"
  using assms write_loop_prefix [of "ds_schedule d" bs]
  by (auto simp: write_all_def edit_file_def split: prod.splits)

lemma write_at_done:
  assumes "write_at fd bs n d = (Done x, d')" "fd < length (ds_files d)"
  shows "ds_files d' ! fd = (ds_files d ! fd)\<lparr>file_unsynced :=
    patch bs (n - length (file_synced (ds_files d ! fd))) (file_unsynced (ds_files d ! fd))\<rparr>"
  using assms write_loop_prefix [of "ds_schedule d" bs]
  by (auto simp: write_at_def edit_file_def split: prod.splits)

text \<open>While a file beside the log is written, the log is safe.\<close>

definition beside :: "bytes list \<Rightarrow> source \<Rightarrow> nat \<Rightarrow> (File \<Rightarrow> bool) \<Rightarrow> DurableStore \<Rightarrow> bool" where
  "beside ps src fresh g d \<longleftrightarrow> store_ok d ps \<and> fresh < length (ds_files d) \<and> fresh \<noteq> ds_fd d
     \<and> ds_image_fd d \<noteq> Some fresh \<and> store_source d = src \<and> g (ds_files d ! fresh)"

lemma beside_touch:
  assumes "only_file fresh d d'" "beside ps src fresh g d" "g' (ds_files d' ! fresh)"
  shows "beside ps src fresh g' d'"
proof -
  note f = only_file_fields [OF assms(1)]
  have o: "ds_files d' ! i = ds_files d ! i" if "i \<noteq> fresh" for i using f(2) that .
  have "store_ok d' ps" using assms(2) f o by (simp add: beside_def store_ok_def)
  moreover have "map_option (\<lambda>i. file_bytes (ds_files d' ! i)) (ds_image_fd d)
      = map_option (\<lambda>i. file_bytes (ds_files d ! i)) (ds_image_fd d)"
    using assms(2) o by (cases "ds_image_fd d") (auto simp: beside_def)
  then have "store_source d' = store_source d" using f by (simp add: store_source_def)
  ultimately show ?thesis using assms(2,3) f by (simp add: beside_def)
qed

definition guarded :: "bytes list \<Rightarrow> source \<Rightarrow> nat \<Rightarrow> (DurableStore \<Rightarrow> bool) \<Rightarrow> bool" where
  "guarded ps src fresh R \<longleftrightarrow> (\<forall>d. beside ps src fresh (\<lambda>_. True) d \<longrightarrow> R d)"

lemma hoare_beside:
  assumes "touches fresh m" "\<And>d x d'. g (ds_files d ! fresh) \<Longrightarrow> m d = (Done x, d') \<Longrightarrow> fresh < length (ds_files d)
      \<Longrightarrow> g' x (ds_files d' ! fresh)"
    and "guarded ps src fresh R"
  shows "hoare (beside ps src fresh g) m (\<lambda>x. beside ps src fresh (g' x)) R"
proof (rule hoareI)
  fix d a d'
  assume b: "beside ps src fresh g d" and m: "m d = (a, d')"
  have o: "only_file fresh d d'" using assms(1) m by (rule touchesD)
  have "beside ps src fresh (\<lambda>_. True) d'" using beside_touch [OF o b] by simp
  moreover have "beside ps src fresh (g' x) d'" if x: "a = Done x" for x
  proof (rule beside_touch [OF o b])
    show "g' x (ds_files d' ! fresh)" using assms(2) [of d x d'] m x b by (simp add: beside_def)
  qed
  ultimately show "R d' \<and> (\<forall>x. a = Done x \<longrightarrow> beside ps src fresh (g' x) d')" using assms(3) unfolding guarded_def by blast
qed

lemma file_is: "f\<lparr>file_unsynced := bs\<rparr> = \<lparr>file_synced = file_synced f, file_unsynced = bs\<rparr>"
  by (cases f) simp

text \<open>The file holds exactly these parts.\<close>

definition holds :: "bytes \<Rightarrow> bytes \<Rightarrow> File \<Rightarrow> bool" where
  "holds synced unsynced f \<longleftrightarrow> f = \<lparr>file_synced = synced, file_unsynced = unsynced\<rparr>"

lemma beside_write:
  assumes "guarded ps src fresh R"
  shows "hoare (beside ps src fresh (holds s u)) (write_all fresh bs) (\<lambda>_. beside ps src fresh (holds s (u @ bs))) R"
  using assms by (intro hoare_beside touches_write) (auto simp: holds_def file_is dest!: write_done)

lemma beside_sync:
  assumes "guarded ps src fresh R"
  shows "hoare (beside ps src fresh (holds s u)) (synchronize fresh) (\<lambda>_. beside ps src fresh (holds (s @ u) [])) R"
  using assms by (intro hoare_beside touches_sync) (auto simp: holds_def file_bytes_def dest!: sync_done)

lemma beside_patch:
  assumes "guarded ps src fresh R" "length v = length bs"
  shows "hoare (beside ps src fresh (holds [] (u @ v @ w))) (write_at fresh bs (length u))
    (\<lambda>_. beside ps src fresh (holds [] (u @ bs @ w))) R"
  using assms by (intro hoare_beside touches_write) (auto simp: holds_def patch_def dest!: write_at_done)

lemma beside_writes:
  assumes "guarded ps src fresh R"
  shows "hoare (beside ps src fresh (holds s u)) (forI (write_all fresh) bss)
    (\<lambda>_. beside ps src fresh (holds s (u @ concat bss))) R"
proof (induction bss arbitrary: u)
  case Nil
  have "\<And>d. beside ps src fresh (holds s u) d \<Longrightarrow> R d" using assms by (simp add: guarded_def beside_def)
  then show ?case by (auto intro: hoare_return)
next
  case (Cons bs bss)
  show ?case using hoare_bind [OF beside_write [OF assms] Cons.IH] by simp
qed

lemma beside_append_checkpoint:
  assumes R: "guarded ps src fresh R"
    and r: "src = (images, image_fd, held)"
  shows "hoare (beside ps src fresh (holds [] magic)) (append_checkpoint fresh s images image_fd)
    (\<lambda>_ d. \<exists>em. encode_checkpoint s (source_reuse src) = Inr em
       \<and> beside ps src fresh (holds (log_bytes [concat (em_sink em)]) []) d) R"
proof -
  have R': "\<And>g d. beside ps src fresh g d \<Longrightarrow> R d" using R by (simp add: guarded_def beside_def)
  have m: "length magic = 8" by simp
  let ?tail = "\<lambda>em. bindI (forI (write_all fresh) (em_sink em)) (\<lambda>_.
     bindI (write_at fresh (frame_header (length (concat (em_sink em)))) 8) (\<lambda>_.
     bindI (synchronize fresh) (\<lambda>_.
     bindI (write_all fresh (take 4 committed)) (\<lambda>_.
     bindI (write_all fresh (drop 4 committed)) (\<lambda>_.
     bindI (synchronize fresh) (\<lambda>_.
     returnI (note_images (8 + 16) (em_notes em))))))))"
  have tail: "hoare (beside ps src fresh (holds [] (magic @ (replicate 8 0 @ replicate 8 0)))) (?tail em)
      (\<lambda>_. beside ps src fresh (holds (log_bytes [concat (em_sink em)]) [])) R" for em
  proof -
    let ?c = "concat (em_sink em)"
    have p: "hoare (beside ps src fresh (holds [] ((magic @ (replicate 8 0 @ replicate 8 0)) @ ?c)))
        (write_at fresh (frame_header (length ?c)) 8)
        (\<lambda>_. beside ps src fresh (holds [] (magic @ frame_header (length ?c) @ ?c))) R"
      using beside_patch [OF R, where u = magic and v = "replicate 8 0 @ replicate 8 0" and w = ?c
          and bs = "frame_header (length ?c)"] by simp
    have e: "([] @ magic @ frame_header (length ?c) @ ?c) @ (([] @ take 4 committed) @ drop 4 committed) = log_bytes [?c]"
      by (simp add: log_bytes_def framed_def)
    show ?thesis
      by (rule hoare_bind [OF beside_writes [OF R]], rule hoare_bind [OF p], rule hoare_bind [OF beside_sync [OF R]],
          rule hoare_bind [OF beside_write [OF R]], rule hoare_bind [OF beside_write [OF R]],
          rule hoare_bind [OF beside_sync [OF R]], rule hoare_return) (use R' e in auto)
  qed
  let ?P = "beside ps src fresh (holds [] magic)"
  show ?thesis unfolding append_checkpoint_def
  proof (rule hoare_bind [OF hoare_read [of ?P R]])
    show "\<And>d. ?P d \<Longrightarrow> R d" by (rule R')
    fix x :: "nat \<times> bytes option"
    obtain offset source where x: "x = (offset, source)" by (cases x)
    let ?Q = "\<lambda>d. ?P d \<and> x = (length (file_bytes (ds_files d ! fresh)), map_option (\<lambda>i. file_bytes (ds_files d ! i)) image_fd)"
    have pre: "offset = 8 \<and> reuse_image images source = source_reuse src" if "?Q d" for d
      using that r m by (auto simp: x beside_def holds_def file_bytes_def store_source_def source_reuse_def)
    show "hoare ?Q (case x of (offset, source) \<Rightarrow>
       bindI (write_all fresh (replicate 8 0)) (\<lambda>_.
       bindI (write_all fresh (replicate 8 0)) (\<lambda>_.
       bindI (liftI (encode_checkpoint s (reuse_image images source))) (\<lambda>em.
       bindI (forI (write_all fresh) (em_sink em)) (\<lambda>_.
       bindI (write_at fresh (frame_header (length (concat (em_sink em)))) offset) (\<lambda>_.
       bindI (synchronize fresh) (\<lambda>_.
       bindI (write_all fresh (take 4 committed)) (\<lambda>_.
       bindI (write_all fresh (drop 4 committed)) (\<lambda>_.
       bindI (synchronize fresh) (\<lambda>_.
       returnI (note_images (offset + 16) (em_notes em))))))))))))
       (\<lambda>_ d. \<exists>em. encode_checkpoint s (source_reuse src) = Inr em
         \<and> beside ps src fresh (holds (log_bytes [concat (em_sink em)]) []) d) R"
    proof (cases "offset = 8 \<and> reuse_image images source = source_reuse src")
      case True
      have l: "hoare (beside ps src fresh (holds [] ((magic @ replicate 8 0) @ replicate 8 0)))
          (liftI (encode_checkpoint s (source_reuse src)))
          (\<lambda>em d. beside ps src fresh (holds [] ((magic @ replicate 8 0) @ replicate 8 0)) d
             \<and> encode_checkpoint s (source_reuse src) = Inr em) R" by (rule hoare_lift) (rule R')
      have t: "hoare (\<lambda>d. beside ps src fresh (holds [] ((magic @ replicate 8 0) @ replicate 8 0)) d
             \<and> encode_checkpoint s (source_reuse src) = Inr em) (?tail em)
          (\<lambda>_ d. \<exists>em. encode_checkpoint s (source_reuse src) = Inr em
            \<and> beside ps src fresh (holds (log_bytes [concat (em_sink em)]) []) d) R" for em
        using tail [of em] unfolding hoare_def by auto
      have "hoare ?P (bindI (write_all fresh (replicate 8 0)) (\<lambda>_. bindI (write_all fresh (replicate 8 0)) (\<lambda>_.
          bindI (liftI (encode_checkpoint s (source_reuse src))) ?tail)))
          (\<lambda>_ d. \<exists>em. encode_checkpoint s (source_reuse src) = Inr em
            \<and> beside ps src fresh (holds (log_bytes [concat (em_sink em)]) []) d) R"
        by (rule hoare_bind [OF beside_write [OF R]], rule hoare_bind [OF beside_write [OF R]], rule hoare_bind [OF l t])
      then show ?thesis using True by (auto simp: x elim: hoare_weaken)
    next
      case False
      then show ?thesis using pre by (auto simp: hoare_def)
    qed
  qed
qed

end
