(* ===== verification/Storage_Commit.thy ===== *)
theory Storage_Commit
  imports Storage_Crash
begin

text \<open>
  Checkpoints, commits and background checkpoints under arbitrary system call
  outcomes and crashes.
\<close>

section \<open>Checkpoints and commits survive crashes\<close>

definition checkpoint_record :: "State \<Rightarrow> (nat \<Rightarrow> bytes list option) \<Rightarrow> bytes list \<Rightarrow> bool" where
  "checkpoint_record s reuse qs \<longleftrightarrow> (\<exists>em. encode_checkpoint s reuse = Inr em \<and> qs = [concat (em_sink em)])"

lemma hoare_create_temporary:
  assumes "\<And>d. store_ok d ps \<Longrightarrow> R d"
  shows "hoare (\<lambda>d. store_ok d ps \<and> store_source d = src) create_temporary
    (\<lambda>fresh. beside ps src fresh (holds [] [])) R"
proof (rule hoareI)
  fix d a d'
  assume p: "store_ok d ps \<and> store_source d = src" and m: "create_temporary d = (a, d')"
  let ?n = "\<lambda>os. d\<lparr>ds_schedule := os, ds_files := ds_files d @ [new_file], ds_temporary := Some (length (ds_files d))\<rparr>"
  have n: "beside ps src (length (ds_files d)) (holds [] []) (?n os)" for os
  proof -
    have "map_option (\<lambda>i. file_bytes ((ds_files d @ [new_file]) ! i)) (ds_image_fd d)
        = map_option (\<lambda>i. file_bytes (ds_files d ! i)) (ds_image_fd d)"
      using p by (cases "ds_image_fd d") (auto simp: store_ok_def nth_append)
    then have "store_source (?n os) = src" using p by (simp add: store_source_def)
    then show ?thesis using p
      by (auto simp: beside_def store_ok_def nth_append holds_def new_file_def less_Suc_eq)
  qed
  have "R d" "\<And>os. R (d\<lparr>ds_schedule := os\<rparr>)" "\<And>os. R (?n os)"
    using p n assms by (auto simp: store_ok_schedule beside_def)
  then show "R d' \<and> (\<forall>x. a = Done x \<longrightarrow> beside ps src x (holds [] []) d')"
    using m n by (cases "ds_temporary d"; cases "ds_schedule d"; cases "hd (ds_schedule d)")
      (auto simp: create_temporary_def bindI_def readI_def throwI_def system_call_def modifyI_def returnI_def)
qed

definition renamed :: "bytes list \<Rightarrow> bytes list \<Rightarrow> DurableStore \<Rightarrow> bool" where
  "renamed ps qs d \<longleftrightarrow> ds_path d = ds_fd d \<and> ds_fd d < length (ds_files d) \<and> ds_files d ! ds_fd d = clean (log_bytes qs)
     \<and> (\<exists>i. ds_previous d = Some i \<and> ds_files d ! i = clean (log_bytes ps)) \<and> ds_image_fd d = Some (ds_fd d)"

lemma hoare_publish:
  assumes "\<And>d. store_ok d ps \<Longrightarrow> R d" "\<And>d. renamed ps qs d \<Longrightarrow> R d"
  shows "hoare (beside ps src fresh (holds (log_bytes qs) [])) (publish_file fresh built) (\<lambda>_. renamed ps qs) R"
  unfolding publish_file_def
proof (rule hoare_bind [OF hoare_system(1)])
  show "ignores_schedule (beside ps src fresh (holds (log_bytes qs) []))"
    by (simp add: ignores_schedule_def beside_def store_ok_def store_source_def)
  show "\<And>d. beside ps src fresh (holds (log_bytes qs) []) d \<Longrightarrow> R d" using assms(1) by (simp add: beside_def)
  have "\<And>d. beside ps src fresh (holds (log_bytes qs) []) d \<Longrightarrow> renamed ps qs (d\<lparr>ds_previous := Some (ds_path d), ds_path := fresh,
       ds_temporary := (if ds_temporary d = Some fresh then None else ds_temporary d),
       ds_background_file := (if ds_background_file d = Some fresh then None else ds_background_file d),
       ds_fd := fresh, ds_committed_end := length (file_bytes (ds_files d ! fresh)),
       ds_generation := Suc (ds_generation d), ds_images := built, ds_image_fd := Some fresh\<rparr>)"
    by (simp add: beside_def store_ok_def renamed_def holds_def clean_def)
  then show "\<And>x. hoare (beside ps src fresh (holds (log_bytes qs) [])) (modifyI (\<lambda>d. d\<lparr>ds_previous := Some (ds_path d), ds_path := fresh,
       ds_temporary := (if ds_temporary d = Some fresh then None else ds_temporary d),
       ds_background_file := (if ds_background_file d = Some fresh then None else ds_background_file d),
       ds_fd := fresh, ds_committed_end := length (file_bytes (ds_files d ! fresh)),
       ds_generation := Suc (ds_generation d), ds_images := built, ds_image_fd := Some fresh\<rparr>)) (\<lambda>_. renamed ps qs) R"
    using assms(2) by (intro hoare_modify) auto
qed

lemma hoare_sync_directory:
  assumes "\<And>d. renamed ps qs d \<Longrightarrow> R d" "\<forall>p \<in> set qs. record_ok p" "\<And>d. store_ok d qs \<Longrightarrow> R d"
  shows "hoare (renamed ps qs) sync_directory (\<lambda>_ d. store_ok d qs) R"
proof -
  have i: "ignores_schedule (renamed ps qs)" by (simp add: ignores_schedule_def renamed_def)
  have "store_ok (d\<lparr>ds_previous := None\<rparr>) qs" if "renamed ps qs d" for d
    using that assms(2) by (simp add: renamed_def store_ok_def)
  then have m: "hoare (renamed ps qs) (modifyI (\<lambda>d. d\<lparr>ds_previous := None\<rparr>)) (\<lambda>_ d. store_ok d qs) R"
    using assms(3) by (intro hoare_modify) auto
  show ?thesis unfolding sync_directory_def
    by (rule hoare_bind [OF hoare_system(1) [OF i assms(1)] hoare_bind [OF hoare_system(2) [OF i assms(1)] m]]) assumption+
qed

text \<open>What a crash may leave: the old log, or the new qsheckpoint alone.\<close>

definition old_or :: "bytes list \<Rightarrow> (bytes list \<Rightarrow> bool) \<Rightarrow> DurableStore \<Rightarrow> bool" where
  "old_or ps new d \<longleftrightarrow> (\<forall>bs. crash_state d bs \<longrightarrow> bs = log_bytes ps \<or> (\<exists>qs. new qs \<and> bs = log_bytes qs))"

lemma old_or_intros:
  "store_ok d ps \<Longrightarrow> old_or ps new d" "new qs \<Longrightarrow> renamed ps qs d \<Longrightarrow> old_or ps new d"
  "new qs \<Longrightarrow> store_ok d qs \<Longrightarrow> old_or ps new d"
proof -
  show "store_ok d ps \<Longrightarrow> old_or ps new d" by (simp add: old_or_def store_crash)
  show "new qs \<Longrightarrow> store_ok d qs \<Longrightarrow> old_or ps new d" by (auto simp: old_or_def store_crash)
  show "new qs \<Longrightarrow> renamed ps qs d \<Longrightarrow> old_or ps new d" by (auto simp: old_or_def renamed_def crash_state_def)
qed

lemma hoare_checkpoint:
  assumes "\<And>qs. checkpoint_record s (source_reuse src) qs \<Longrightarrow> \<forall>p \<in> set qs. record_ok p"
  shows "hoare (\<lambda>d. store_ok d ps \<and> store_source d = src) (checkpoint_locked s)
    (\<lambda>_ d. \<exists>qs. checkpoint_record s (source_reuse src) qs \<and> store_ok d qs) (old_or ps (checkpoint_record s (source_reuse src)))"
    (is "hoare ?P _ ?Q ?R")
proof -
  have R: "\<And>d. store_ok d ps \<Longrightarrow> ?R d" by (rule old_or_intros)
  have G: "guarded ps src fresh ?R" for fresh using R by (simp add: guarded_def beside_def)
  have B: "\<And>g d fresh. beside ps src fresh g d \<Longrightarrow> ?R d" using R by (simp add: beside_def)
  have final: "hoare (\<lambda>d. \<exists>em. encode_checkpoint s (source_reuse src) = Inr em
         \<and> beside ps src fresh (holds (log_bytes [concat (em_sink em)]) []) d)
       (bindI (publish_file fresh built) (\<lambda>_. sync_directory)) ?Q ?R" for fresh built
  proof (rule hoareI)
    fix d a d'
    assume "\<exists>em. encode_checkpoint s (source_reuse src) = Inr em \<and> beside ps src fresh (holds (log_bytes [concat (em_sink em)]) []) d"
      and m: "bindI (publish_file fresh built) (\<lambda>_. sync_directory) d = (a, d')"
    then obtain qs where c: "checkpoint_record s (source_reuse src) qs" and b: "beside ps src fresh (holds (log_bytes qs) []) d"
      by (auto simp: checkpoint_record_def)
    have "hoare (beside ps src fresh (holds (log_bytes qs) [])) (bindI (publish_file fresh built) (\<lambda>_. sync_directory))
        (\<lambda>_ d. store_ok d qs) ?R"
      by (rule hoare_bind [OF hoare_publish hoare_sync_directory])
        (auto intro: old_or_intros(1) old_or_intros(2,3) [of "checkpoint_record s (source_reuse src)", OF c]
          assms [OF c, rule_format])
    from hoareD [OF this b m] show "?R d' \<and> (\<forall>x. a = Done x \<longrightarrow> ?Q x d')" using c by blast
  qed
  have body: "hoare (beside ps src fresh (holds [] []))
      (bindI system_call (\<lambda>_. bindI (write_all fresh magic) (\<lambda>_.
       bindI (readI (\<lambda>d. (ds_images d, ds_image_fd d))) (\<lambda>(images, image_fd).
       bindI (append_checkpoint fresh s images image_fd) (\<lambda>built.
       bindI (publish_file fresh built) (\<lambda>_. sync_directory)))))) ?Q ?R" for fresh
  proof (rule hoare_bind [OF hoare_system(1)])
    show "ignores_schedule (beside ps src fresh (holds [] []))"
      by (simp add: ignores_schedule_def beside_def store_ok_def store_source_def)
    have w: "hoare (beside ps src fresh (holds [] [])) (write_all fresh magic) (\<lambda>_. beside ps src fresh (holds [] magic)) ?R"
      using beside_write [OF G, of fresh "[]" "[]" magic] by simp
    have "hoare (\<lambda>d. beside ps src fresh (holds [] magic) d \<and> x = (ds_images d, ds_image_fd d))
        (case x of (images, image_fd) \<Rightarrow> bindI (append_checkpoint fresh s images image_fd) (\<lambda>built.
           bindI (publish_file fresh built) (\<lambda>_. sync_directory))) ?Q ?R" for x
    proof (cases "\<exists>held. src = (fst x, snd x, held)")
      case True
      then obtain held where "src = (fst x, snd x, held)" by blast
      then have "hoare (beside ps src fresh (holds [] magic)) (bindI (append_checkpoint fresh s (fst x) (snd x)) (\<lambda>built.
           bindI (publish_file fresh built) (\<lambda>_. sync_directory))) ?Q ?R"
        by (intro hoare_bind [OF beside_append_checkpoint [OF G] final])
      then show ?thesis by (auto simp: case_prod_beta elim!: hoare_weaken)
    next
      case False
      then show ?thesis by (auto simp: hoare_def beside_def store_source_def)
    qed
    then show "\<And>y. hoare (beside ps src fresh (holds [] [])) (bindI (write_all fresh magic) (\<lambda>_.
       bindI (readI (\<lambda>d. (ds_images d, ds_image_fd d))) (\<lambda>(images, image_fd).
       bindI (append_checkpoint fresh s images image_fd) (\<lambda>built.
       bindI (publish_file fresh built) (\<lambda>_. sync_directory))))) ?Q ?R"
      using B by (intro hoare_bind [OF w] hoare_bind [OF hoare_read])
  qed (rule B)
  have f: "?R (d\<lparr>ds_failed := True, ds_temporary := None\<rparr>)" if "?R d" for d
    using that by (simp add: old_or_def crash_state_def)
  have r: "hoare ?P (readI ds_failed) (\<lambda>_. ?P) ?R" "hoare ?P (liftI r) (\<lambda>_. ?P) ?R" for r :: "nat result"
    using R by (auto simp: hoare_def readI_def liftI_def returnI_def throwI_def split: sum.splits)
  show ?thesis unfolding checkpoint_locked_def
    by (rule hoare_bind [OF r(1)], rule hoare_case_if, rule hoare_throw, use R in blast,
        rule hoare_bind [OF r(2)], rule hoare_bind [OF hoare_create_temporary], use R in blast,
        rule hoare_rethrow [OF body f])
qed

section \<open>Change records have a legal size\<close>

definition extends :: "(bytes \<Rightarrow> bytes result) \<Rightarrow> bool" where
  "extends w \<longleftrightarrow> (\<forall>out out'. w out = Inr out' \<longrightarrow> length out \<le> length out')"

lemma extends_appends: "appends w bs \<Longrightarrow> extends w"
  by (auto simp: extends_def dest: appendsD)

lemma extends_bind: "extends v \<Longrightarrow> (extends w) \<Longrightarrow> extends (\<lambda>out. bindE (v out) w)"
  by (fastforce simp: extends_def bindE_Inr_iff)

lemma extends_fold: "\<forall>x \<in> set xs. extends (f x) \<Longrightarrow> extends (foldE f xs)"
proof (induction xs)
  case (Cons x xs)
  then show ?case using extends_bind [of "f x" "foldE f xs"] by (simp add: extends_def)
qed (simp add: extends_def)

lemma encode_changes_record:
  assumes "encode_changes base next = Inr p" "\<forall>(name, t) \<in> set (state_tables next). table_plain t"
  shows "record_ok p"
proof -
  let ?ts = "filter (\<lambda>e. \<not> same_table (state_tables base) e) (state_tables next)"
  obtain a b c where w: "put_field (view ''CORECHG8'') [] = Inr a" "put_size (length ?ts) a = Inr b"
    "foldE (write_table_change (state_tables base)) ?ts b = Inr c" "finish_record c = Inr p"
    using assms(1) by (auto simp: encode_changes_def bindE_Inr_iff Let_def)
  have "a = field_bytes (view ''CORECHG8'')" "b = a @ size_bytes (length ?ts)"
    using appendsD [OF appends_field w(1)] appendsD [OF appends_size w(2)] by simp_all
  then have "24 \<le> length b" by (simp add: field_bytes_def size_bytes_def)
  moreover have "extends (foldE (write_table_change (state_tables base)) ?ts)"
    using assms(2) by (intro extends_fold) (auto intro: extends_appends [OF appends_table_change])
  then have "length b \<le> length c" using w(3) by (simp add: extends_def)
  ultimately show ?thesis using finish_record_Inr [OF w(4)]
    by (simp add: record_ok_def max_record_def)
qed

section \<open>Commits\<close>

definition survives :: "Registry \<Rightarrow> bytes \<Rightarrow> bytes list \<Rightarrow> bool" where
  "survives reg bs ps \<longleftrightarrow>
     recover_bytes reg bs = bindE (replay reg ps empty_state) (\<lambda>s. Inr (s, length (log_bytes ps)))"

definition next_log :: "State \<Rightarrow> State \<Rightarrow> bytes list \<Rightarrow> bytes list \<Rightarrow> bool" where
  "next_log base next ps qs \<longleftrightarrow> (\<exists>p. state_epoch base = state_epoch next \<and> encode_changes base next = Inr p \<and> qs = ps @ [p])
     \<or> (\<exists>c. encode_changes empty_state next = Inr c \<and> qs = [c])"

lemma survives_store: "store_ok d ps \<Longrightarrow> crash_state d bs \<Longrightarrow> survives reg bs ps"
  unfolding survives_def store_crash by (auto intro!: recover_whole_log simp: store_ok_def store_crash)

text \<open>A crash while a record is appended.\<close>

definition appending :: "bytes list \<Rightarrow> bytes \<Rightarrow> DurableStore \<Rightarrow> bool" where
  "appending ps p d \<longleftrightarrow> (\<forall>bs. crash_state d bs \<longrightarrow> (\<exists>k. bs = log_bytes ps @ take k (framed p)))"

lemma appending_survives:
  assumes "appending ps p d" "crash_state d bs" "\<forall>p \<in> set ps. record_ok p" "record_ok p"
  shows "survives reg bs ps \<or> survives reg bs (ps @ [p])"
proof -
  obtain k where k: "bs = log_bytes ps @ take k (framed p)" using assms(1,2) by (auto simp: appending_def)
  show ?thesis
  proof (cases "k < length (framed p)")
    case True
    then show ?thesis using recover_log assms k by (simp add: survives_def)
  next
    case False
    then have "bs = log_bytes (ps @ [p])" using k by (simp add: log_append)
    then show ?thesis using recover_whole_log [of "ps @ [p]"] assms by (simp add: survives_def)
  qed
qed

lemma prefix_take: "prefix xs ys \<Longrightarrow> \<exists>k. xs = take k ys"
  by (auto simp: prefix_def intro: exI [of _ "length xs"])

lemma hoare_append:
  assumes "record_ok p"
  shows "hoare (\<lambda>d. store_ok d ps \<and> ds_fd d = fd) (append_record fd p) (\<lambda>_ d. store_ok d (ps @ [p])) (appending ps p)"
proof (rule hoareI)
  fix d a d'
  assume "store_ok d ps \<and> ds_fd d = fd" and m: "append_record fd p d = (a, d')"
  then have s: "store_ok d ps" "ds_fd d = fd" by simp_all
  have l: "fd < length (ds_files d)" "ds_files d ! fd = clean (log_bytes ps)" using s by (auto simp: store_ok_def)
  obtain w r where g: "framed p = w @ r" "file_bytes (ds_files d' ! fd) = file_bytes (ds_files d ! fd) @ w" "only_file fd d d'"
    "prefix (file_synced (ds_files d ! fd)) (file_synced (ds_files d' ! fd))" using grows_append m l(1) by (rule growsE) blast
  note f = only_file_fields [OF g(3)]
  have A: "appending ps p d'" unfolding appending_def
  proof (intro allI impI)
    fix bs
    assume "crash_state d' bs"
    then obtain k where k: "bs = file_synced (ds_files d' ! fd) @ take k (file_unsynced (ds_files d' ! fd))"
      using f s by (auto simp: crash_state_def store_ok_def crash_image_def)
    obtain u where u: "file_synced (ds_files d' ! fd) = log_bytes ps @ u" using g(4) l(2) by (auto simp: prefix_def)
    have "u @ file_unsynced (ds_files d' ! fd) = w" using g(2) l(2) u by (simp add: file_bytes_def)
    then have "prefix (u @ take k (file_unsynced (ds_files d' ! fd))) (framed p)"
      using g(1) by (metis append_take_drop_id append_assoc prefixI)
    then show "\<exists>k. bs = log_bytes ps @ take k (framed p)" using prefix_take k u by fastforce
  qed
  moreover have "store_ok d' (ps @ [p])" if "a = Done x" for x
  proof -
    have "ds_files d' ! fd = clean (log_bytes (ps @ [p]))"
      using append_done [OF m [unfolded that] l(1)] l(2) by (simp add: clean_def log_append file_bytes_def)
    then show ?thesis using s f assms by (simp add: store_ok_def)
  qed
  ultimately show "appending ps p d' \<and> (\<forall>x. a = Done x \<longrightarrow> store_ok d' (ps @ [p]))" by blast
qed

lemma hoare_keep_read: "(\<And>d. P d \<Longrightarrow> R d) \<Longrightarrow> (\<And>x. hoare P (f x) Q R) \<Longrightarrow> hoare P (bindI (readI g) f) Q R"
  by (rule hoare_bind [of P _ "\<lambda>_. P"]) (auto simp: hoare_def readI_def)

lemma hoare_read_known:
  "(\<And>d. P d \<Longrightarrow> g d = v) \<Longrightarrow> (\<And>d. P d \<Longrightarrow> R d) \<Longrightarrow> hoare P (f v) Q R \<Longrightarrow> hoare P (bindI (readI g) f) Q R"
  by (auto simp: hoare_def bindI_def readI_def)

lemma hoare_keep_lift:
  "(\<And>d. P d \<Longrightarrow> R d) \<Longrightarrow> (\<And>x. r = Inr x \<Longrightarrow> hoare P (f x) Q R) \<Longrightarrow> hoare P (bindI (liftI r) f) Q R"
  by (cases r) (auto simp: hoare_def bindI_def liftI_def returnI_def throwI_def)

text \<open>What every crash during the commit of \<open>next\<close> over \<open>base\<close> leaves behind.\<close>

definition commit_safe :: "Registry \<Rightarrow> State \<Rightarrow> State \<Rightarrow> bytes list \<Rightarrow> DurableStore \<Rightarrow> bool" where
  "commit_safe reg base next ps d \<longleftrightarrow> (\<forall>bs. crash_state d bs \<longrightarrow>
     survives reg bs ps \<or> (\<exists>qs. next_log base next ps qs \<and> survives reg bs qs))"

lemma commit_safe_store: "store_ok d ps \<Longrightarrow> commit_safe reg base next ps d"
  using survives_store unfolding commit_safe_def by blast

lemma hoare_commit_checkpoint:
  assumes t: "\<forall>(name, t) \<in> set (state_tables next). table_plain t \<and> reuse_ok (source_reuse src) t"
  shows "hoare (\<lambda>d. store_ok d ps \<and> store_source d = src) (checkpoint_locked next)
    (\<lambda>_ d. \<exists>qs. next_log base next ps qs \<and> store_ok d qs) (commit_safe reg base next ps)" (is "hoare ?P _ ?Q ?R")
proof (rule hoareI)
  fix d a d'
  assume p: "?P d" and m: "checkpoint_locked next d = (a, d')"
  have e: "state_tables empty_state = []" by (simp add: empty_state_def)
  have plain: "\<forall>(name, t) \<in> set (state_tables next). table_plain t" using t by auto
  have c: "\<exists>c. encode_changes empty_state next = Inr c \<and> qs = [c]" if "checkpoint_record next (source_reuse src) qs" for qs
    using that checkpoint_streams_changes [OF _ e t] by (auto simp: checkpoint_record_def)
  have ok: "\<forall>p \<in> set qs. record_ok p" if "checkpoint_record next (source_reuse src) qs" for qs
    using c [OF that] encode_changes_record [OF _ plain] by auto
  have nl: "next_log base next ps qs" if "checkpoint_record next (source_reuse src) qs" for qs
    using c [OF that] by (auto simp: next_log_def)
  have h: "old_or ps (checkpoint_record next (source_reuse src)) d'"
    "\<forall>x. a = Done x \<longrightarrow> (\<exists>qs. checkpoint_record next (source_reuse src) qs \<and> store_ok d' qs)"
    using hoareD [OF hoare_checkpoint [OF ok] p m] by simp_all
  have r: "\<forall>p \<in> set ps. record_ok p" using p by (simp add: store_ok_def)
  have "survives reg bs ps \<or> (\<exists>qs. next_log base next ps qs \<and> survives reg bs qs)" if b: "crash_state d' bs" for bs
  proof (cases "bs = log_bytes ps")
    case True
    then show ?thesis using recover_whole_log [OF r] by (simp add: survives_def)
  next
    case False
    then obtain qs where q: "checkpoint_record next (source_reuse src) qs" "bs = log_bytes qs"
      using h(1) b by (auto simp: old_or_def)
    then have "survives reg bs qs" using recover_whole_log [OF ok] by (simp add: survives_def)
    then show ?thesis using nl [OF q(1)] by blast
  qed
  then show "?R d' \<and> (\<forall>x. a = Done x \<longrightarrow> ?Q x d')" using h(2) nl unfolding commit_safe_def by blast
qed

lemma hoare_commit_append:
  assumes p: "state_epoch base = state_epoch next" "encode_changes base next = Inr p" and plain: "\<forall>(name, t) \<in> set (state_tables next). table_plain t"
  shows "hoare (\<lambda>d. store_ok d ps \<and> ds_fd d = fd) (rethrowI (bindI (append_record fd p) (\<lambda>_.
      modifyI (\<lambda>d. d\<lparr>ds_committed_end := ds_committed_end d + length p + 24\<rparr>))) (\<lambda>d. d\<lparr>ds_failed := True\<rparr>))
    (\<lambda>_ d. \<exists>qs. next_log base next ps qs \<and> store_ok d qs) (commit_safe reg base next ps)"
    (is "hoare ?P ?m ?Q ?R")
proof (rule hoareI)
  fix d a d'
  assume d: "?P d" and m: "?m d = (a, d')"
  have rp: "record_ok p" using p(2) plain by (rule encode_changes_record)
  have i: "\<And>d. store_ok d (ps @ [p]) \<Longrightarrow> appending ps p d"
    by (auto simp: appending_def store_crash log_append intro: exI [of _ "length (framed p)"])
  have "hoare ?P ?m (\<lambda>_ d. store_ok d (ps @ [p])) (appending ps p)"
  proof (rule hoare_rethrow [OF hoare_bind [OF hoare_append [OF rp] hoare_modify]])
    fix d
    assume "store_ok d (ps @ [p])"
    then show "store_ok (d\<lparr>ds_committed_end := ds_committed_end d + length p + 24\<rparr>) (ps @ [p])"
      by (simp add: store_ok_def)
    then show "appending ps p (d\<lparr>ds_committed_end := ds_committed_end d + length p + 24\<rparr>)" by (rule i)
  qed (simp add: appending_def crash_state_def)
  from hoareD [OF this d m] have h: "appending ps p d'" "\<forall>x. a = Done x \<longrightarrow> store_ok d' (ps @ [p])" by auto
  have "\<forall>p \<in> set ps. record_ok p" using d by (simp add: store_ok_def)
  then show "?R d' \<and> (\<forall>x. a = Done x \<longrightarrow> ?Q x d')"
    using appending_survives [OF h(1) _ _ rp] h(2) p unfolding next_log_def commit_safe_def by blast
qed

lemma hoare_commit:
  assumes t: "\<forall>(name, t) \<in> set (state_tables next). table_plain t \<and> reuse_ok (source_reuse src) t"
  shows "hoare (\<lambda>d. store_ok d ps \<and> store_source d = src) (commit_log base next)
    (\<lambda>_ d. \<exists>qs. next_log base next ps qs \<and> store_ok d qs) (commit_safe reg base next ps)" (is "hoare ?P _ ?Q ?R")
proof -
  have R: "\<And>d. ?P d \<Longrightarrow> ?R d" using commit_safe_store by blast
  have i: "ignores_schedule ?P" by (simp add: ignores_schedule_def store_ok_def store_source_def)
  have plain: "\<forall>(name, t) \<in> set (state_tables next). table_plain t" using t by auto
  have ap: "hoare ?P (bindI (readI ds_fd) (\<lambda>fd. rethrowI (bindI (append_record fd p) (\<lambda>_.
      modifyI (\<lambda>d. d\<lparr>ds_committed_end := ds_committed_end d + length p + 24\<rparr>))) (\<lambda>d. d\<lparr>ds_failed := True\<rparr>))) ?Q ?R"
    if "state_epoch base = state_epoch next" "encode_changes base next = Inr p" for p
    by (rule hoare_bind [OF hoare_read [OF R] hoare_weaken [OF hoare_commit_append [OF that plain]]]) auto
  show ?thesis unfolding commit_log_def Let_def
    by (intro hoare_keep_read hoare_keep_lift hoare_case_if hoare_throw hoare_commit_checkpoint [OF t]
        hoare_bind [OF hoare_system(1) [OF i]] ap) (use R in auto)
qed

section \<open>Publishing a background checkpoint\<close>

lemma concat_blocks: "n \<noteq> 0 \<Longrightarrow> concat (blocks_of n bs) = bs"
  by (induction n bs rule: blocks_of.induct) (subst blocks_of.simps, auto)

text \<open>
  The task has copied the first records of the log behind its checkpoint record,
  and the log has grown since.
\<close>

definition copied_so_far :: "Checkpoint \<Rightarrow> bytes list \<Rightarrow> bytes \<Rightarrow> bytes list \<Rightarrow> bytes list \<Rightarrow> DurableStore \<Rightarrow> bool" where
  "copied_so_far task ps c kept todo d \<longleftrightarrow> store_ok d (ps @ kept @ todo) \<and> record_ok c
     \<and> ds_committed_end d = length (log_bytes (ps @ kept @ todo)) \<and> cp_source task = ds_fd d
     \<and> cp_copied task = length (log_bytes (ps @ kept)) \<and> cp_fresh task < length (ds_files d) \<and> cp_fresh task \<noteq> ds_fd d
     \<and> ds_image_fd d \<noteq> Some (cp_fresh task) \<and> ds_files d ! cp_fresh task = clean (log_bytes (c # kept))"

lemma copied_task: "copy_tail task n d = (Done task', d') \<Longrightarrow> cp_fresh task' = cp_fresh task \<and> cp_built task' = cp_built task"
  by (auto simp: copy_tail_def bindI_Done returnI_def split: if_splits)

lemma hoare_copy:
  assumes R: "guarded (ps @ kept @ todo) src (cp_fresh task) R"
    and "cp_copied task = length (log_bytes (ps @ kept))" "n = length (log_bytes (ps @ kept @ todo))"
  shows "hoare (\<lambda>d. beside (ps @ kept @ todo) src (cp_fresh task) (holds (log_bytes (c # kept)) []) d \<and> cp_source task = ds_fd d)
    (copy_tail task n)
    (\<lambda>task' d. cp_fresh task' = cp_fresh task \<and> cp_built task' = cp_built task
       \<and> beside (ps @ kept @ todo) src (cp_fresh task) (holds (log_bytes (c # kept)) (concat (map framed todo))) d) R"
    (is "hoare ?P _ ?Q _")
proof -
  let ?rs = "concat (map framed todo)"
  have R': "\<And>g d. beside (ps @ kept @ todo) src (cp_fresh task) g d \<Longrightarrow> R d" using R by (simp add: guarded_def beside_def)
  have log: "log_bytes (ps @ kept @ todo) = log_bytes (ps @ kept) @ ?rs" by (simp add: log_bytes_def)
  show ?thesis
  proof (cases "cp_copied task < n")
    case False
    then have e: "?rs = []" using assms(2,3) log by simp
    show ?thesis unfolding e using False R' by (auto simp: copy_tail_def intro!: hoare_return)
  next
    case True
    have w: "hoare (beside (ps @ kept @ todo) src (cp_fresh task) (holds (log_bytes (c # kept)) []))
        (forI (write_all (cp_fresh task)) (blocks_of (64 * 1024) ?rs))
        (\<lambda>_. beside (ps @ kept @ todo) src (cp_fresh task) (holds (log_bytes (c # kept)) ?rs)) R"
      using beside_writes [OF R, of "log_bytes (c # kept)" "[]" "blocks_of (64 * 1024) ?rs"] by (simp add: concat_blocks)
    have "read_at (log_bytes (ps @ kept @ todo)) (n - cp_copied task) (cp_copied task) = Inr ?rs"
      using assms(2,3) log by (simp add: read_at_def)
    then have l: "liftI (read_at (log_bytes (ps @ kept @ todo)) (n - cp_copied task) (cp_copied task)) = returnI ?rs" by (simp add: liftI_def)
    have w': "hoare ?P (forI (write_all (cp_fresh task)) (blocks_of (64 * 1024) ?rs))
        (\<lambda>_. beside (ps @ kept @ todo) src (cp_fresh task) (holds (log_bytes (c # kept)) ?rs)) R"
      using w by (rule hoare_weaken) auto
    have ret: "bindI (returnI x) f = f x" for x and f :: "bytes \<Rightarrow> Checkpoint io" by (simp add: bindI_def [abs_def] returnI_def)
    have rest: "hoare ?P (bindI (returnI ?rs) (\<lambda>missing. bindI (forI (write_all (cp_fresh task)) (blocks_of (64 * 1024) missing)) (\<lambda>_.
        returnI (task\<lparr>cp_copied := n\<rparr>)))) ?Q R"
      unfolding ret by (rule hoare_bind [OF w' hoare_return]) (auto intro: R')
    have "hoare ?P (bindI (readI (\<lambda>d. file_bytes (ds_files d ! cp_source task))) (\<lambda>bs.
        bindI (liftI (read_at bs (n - cp_copied task) (cp_copied task))) (\<lambda>missing.
        bindI (forI (write_all (cp_fresh task)) (blocks_of (64 * 1024) missing)) (\<lambda>_.
        returnI (task\<lparr>cp_copied := n\<rparr>))))) ?Q R"
    proof (rule hoare_read_known)
      show "\<And>d. ?P d \<Longrightarrow> file_bytes (ds_files d ! cp_source task) = log_bytes (ps @ kept @ todo)"
        by (simp add: beside_def store_ok_def)
    qed (use R' rest l in auto)
    then show ?thesis unfolding copy_tail_def using True by simp
  qed
qed

lemma hoare_publish_checkpoint:
  assumes "record_ok c" "\<forall>p \<in> set (ps @ kept @ todo). record_ok p"
  shows "hoare (copied_so_far task ps c kept todo) (publish_checkpoint task)
    (\<lambda>published d. store_ok d (if published then c # kept @ todo else ps @ kept @ todo))
    (old_or (ps @ kept @ todo) ((=) (c # kept @ todo)))" (is "hoare ?P _ ?Q ?R")
proof (rule hoareI)
  fix d a d'
  assume p: "?P d" and m: "publish_checkpoint task d = (a, d')"
  let ?all = "ps @ kept @ todo" and ?n = "ds_committed_end d" and ?src = "store_source d"
  let ?body = "bindI (copy_tail task ?n) (\<lambda>task. bindI (synchronize (cp_fresh task)) (\<lambda>_.
       rethrowI (bindI (publish_file (cp_fresh task) (cp_built task)) (\<lambda>_. bindI sync_directory (\<lambda>_. returnI True)))
         (\<lambda>d. d\<lparr>ds_failed := True\<rparr>)))"
  have s: "store_ok d ?all" using p by (simp add: copied_so_far_def)
  have R: "\<And>d. store_ok d ?all \<Longrightarrow> ?R d" by (rule old_or_intros)
  have G: "guarded ?all ?src (cp_fresh task) ?R" using R by (simp add: guarded_def beside_def)
  have log: "log_bytes (c # kept) @ concat (map framed todo) = log_bytes (c # kept @ todo)" by (simp add: log_bytes_def)
  have pub: "hoare (beside ?all ?src fresh (holds (log_bytes (c # kept @ todo)) []))
      (rethrowI (bindI (publish_file fresh built) (\<lambda>_. bindI sync_directory (\<lambda>_. returnI True))) (\<lambda>d. d\<lparr>ds_failed := True\<rparr>)) ?Q ?R" for fresh built
  proof (rule hoare_rethrow [OF hoare_bind [OF hoare_publish hoare_bind [OF hoare_sync_directory hoare_return]]])
    show "\<And>d. ?R d \<Longrightarrow> ?R (d\<lparr>ds_failed := True\<rparr>)" by (simp add: old_or_def crash_state_def)
  qed (use assms in \<open>auto intro: old_or_intros(1) old_or_intros(2,3) [of "(=) (c # kept @ todo)", OF refl]\<close>)
  have body: "hoare (\<lambda>d. beside ?all ?src (cp_fresh task) (holds (log_bytes (c # kept)) []) d \<and> cp_source task = ds_fd d) ?body ?Q ?R"
  proof (rule hoare_bind [OF hoare_copy [OF G]])
    fix task'
    have "hoare (beside ?all ?src (cp_fresh task) (holds (log_bytes (c # kept)) (concat (map framed todo))))
        (bindI (synchronize (cp_fresh task)) (\<lambda>_. rethrowI (bindI (publish_file (cp_fresh task) (cp_built task)) (\<lambda>_. bindI sync_directory (\<lambda>_. returnI True)))
         (\<lambda>d. d\<lparr>ds_failed := True\<rparr>))) ?Q ?R"
      using beside_sync [OF G] by (rule hoare_bind) (simp only: log pub)
    then show "hoare (\<lambda>d. cp_fresh task' = cp_fresh task \<and> cp_built task' = cp_built task
         \<and> beside ?all ?src (cp_fresh task) (holds (log_bytes (c # kept)) (concat (map framed todo))) d)
        (bindI (synchronize (cp_fresh task')) (\<lambda>_. rethrowI (bindI (publish_file (cp_fresh task') (cp_built task')) (\<lambda>_. bindI sync_directory (\<lambda>_. returnI True)))
         (\<lambda>d. d\<lparr>ds_failed := True\<rparr>))) ?Q ?R"
      by (cases "cp_fresh task' = cp_fresh task \<and> cp_built task' = cp_built task") (auto simp: hoare_def)
  qed (use p in \<open>simp_all add: copied_so_far_def\<close>)
  have b: "beside ?all ?src (cp_fresh task) (holds (log_bytes (c # kept)) []) d \<and> cp_source task = ds_fd d"
    using p by (simp add: copied_so_far_def beside_def holds_def clean_def)
  show "?R d' \<and> (\<forall>x. a = Done x \<longrightarrow> ?Q x d')"
    using m hoareD [OF body b, of a d'] R [OF s] s
    by (auto simp: publish_checkpoint_def bindI_def [of "readI _"] readI_def throwI_def returnI_def split: if_splits)
qed

end
