(* ===== verification/Storage_Recovery.thy ===== *)
theory Storage_Recovery
  imports Storage_Commit
begin

text \<open>
  Recovery of arbitrary files, completing writes, stores closed after a failure,
  and durability.
\<close>

section \<open>Interrupted writes\<close>

lemma write_loop_completes:
  assumes "Failed \<notin> set os" "Fine 0 \<notin> set os" "length bs \<le> length (filter (\<lambda>x. x \<noteq> Interrupted) os)"
  shows "\<exists>os'. write_loop os bs = (Done (), bs, os')"
  using assms
proof (induction os bs rule: write_loop.induct)
  case (5 n os b bs)
  have n: "n \<noteq> 0" using 5 by auto
  have "length (drop n (b # bs)) \<le> length (filter (\<lambda>x. x \<noteq> Interrupted) os)" using 5(4) n by simp
  then obtain os' where w: "write_loop os (drop n (b # bs)) = (Done (), drop n (b # bs), os')"
    using 5 n by auto
  show ?case by (rule exI [of _ os']) (simp only: write_loop.simps n if_False w prod.case append_take_drop_id)
qed auto

section \<open>A failed write closes the store\<close>

definition quiet :: "'a io \<Rightarrow> bool" where
  "quiet m \<longleftrightarrow> (\<forall>d a d'. m d = (a, d') \<longrightarrow> (\<exists>os. d' = d\<lparr>ds_schedule := os\<rparr>))"

definition closes :: "'a io \<Rightarrow> bool" where
  "closes m \<longleftrightarrow> (\<forall>d e d'. m d = (Threw e, d') \<longrightarrow> (\<exists>os. d' = d\<lparr>ds_schedule := os\<rparr>) \<or> ds_failed d')"

lemma same_schedule: "\<exists>os. d = d\<lparr>ds_schedule := os\<rparr>"
  by (rule exI [of _ "ds_schedule d"]) simp

lemma quiet_io: "quiet (readI g)" "quiet (liftI r)" "quiet (throwI e)" "quiet (returnI x)" "quiet system_call"
proof -
  show "quiet (readI g)" "quiet (throwI e)" "quiet (returnI x)"
    using same_schedule by (auto simp: quiet_def readI_def throwI_def returnI_def)
  show "quiet (liftI r)"
    using same_schedule by (cases r) (auto simp: quiet_def liftI_def throwI_def returnI_def)
  show "quiet system_call"
    using same_schedule by (auto simp: quiet_def system_call_def split: list.splits Outcome.splits)
qed

lemma closes_quiet: "quiet m \<Longrightarrow> closes m"
  unfolding quiet_def closes_def by blast

lemma closes_bind: "quiet m \<Longrightarrow> (\<And>x. closes (f x)) \<Longrightarrow> closes (bindI m f)"
  unfolding quiet_def closes_def bindI_def by (fastforce split: prod.splits answer.splits)

lemma closes_rethrow: "(\<And>d. ds_failed (h d)) \<Longrightarrow> closes (rethrowI m h)"
  by (auto simp: closes_def rethrowI_def split: prod.splits answer.splits)

lemma closes_temporary: "(\<And>x d. ds_failed (h x d)) \<Longrightarrow> closes (bindI create_temporary (\<lambda>x. rethrowI (m x) (h x)))"
  using same_schedule
  by (auto simp: closes_def create_temporary_def bindI_def readI_def throwI_def returnI_def system_call_def modifyI_def
      rethrowI_def split: prod.splits answer.splits list.splits Outcome.splits if_splits)

lemma closes_if: "closes m \<Longrightarrow> closes n \<Longrightarrow> closes (if c then m else n)"
  by simp

lemma closes_checkpoint: "closes (checkpoint_locked s)"
  unfolding checkpoint_locked_def
  by (intro closes_bind closes_if closes_temporary quiet_io closes_quiet [OF quiet_io(3)]) simp

lemma closes_commit: "closes (commit_log base next)"
  unfolding commit_log_def Let_def
  by (intro closes_bind closes_if closes_rethrow closes_checkpoint quiet_io closes_quiet [OF quiet_io(3)]) simp

lemma failed_refuses:
  assumes "ds_failed d"
  shows "commit_log base next d = (Threw E_state, d)" "checkpoint_now s d = (Threw E_state, d)"
    "prepare_checkpoint d = (Threw E_state, d)" "publish_checkpoint task d = (Threw E_state, d)"
  using assms
  by (simp_all add: commit_log_def checkpoint_now_def checkpoint_locked_def prepare_checkpoint_def publish_checkpoint_def
      bindI_def readI_def throwI_def)

section \<open>Durability\<close>

text \<open>The store holds the state: its log replays to these contents.\<close>

definition durable :: "Registry \<Rightarrow> DurableStore \<Rightarrow> State \<Rightarrow> bool" where
  "durable reg d s \<longleftrightarrow> (\<exists>ps s0. store_ok d ps \<and> replay reg ps empty_state = Inr s0 \<and> state_view s0 = state_view s)"

text \<open>Reopening the file that a crash left gives the state.\<close>

definition reopens :: "Registry \<Rightarrow> bytes \<Rightarrow> State \<Rightarrow> bool" where
  "reopens reg bs s \<longleftrightarrow> (\<exists>s' n. recover_bytes reg bs = Inr (s', n) \<and> state_view s' = state_view s)"

lemma replay_append: "replay reg (ps @ qs) s = bindE (replay reg ps s) (replay reg qs)"
  by (simp add: replay_def [abs_def] foldE_append)

lemma evolution_empty:
  assumes "state_stored reg next"
  shows "evolution empty_state next"
proof -
  have "evolves (empty_table 0) t" if "(name, t) \<in> set (state_tables next)" for name t
  proof -
    have "table_next_rowid t \<noteq> 0" using assms that by (auto simp: state_stored_def table_stored_def)
    then have "1 \<le> table_next_rowid t" by (simp add: word_le_nat_alt unat_gt_0 Suc_le_eq)
    then show ?thesis by (simp add: evolves_def empty_table_def sorted_keys_def)
  qed
  then show ?thesis by (auto simp: evolution_def empty_state_def old_table_def same_table_def)
qed

lemma next_log_replay:
  assumes "registry_ok reg" "state_stored reg base" "state_stored reg next"
    and "state_epoch base = state_epoch next \<longrightarrow> evolution base next"
    and "replay reg ps empty_state = Inr s0" "state_view s0 = state_view base" "next_log base next ps qs"
  shows "\<exists>s. replay reg qs empty_state = Inr s \<and> state_view s = state_view next"
proof -
  consider p where "state_epoch base = state_epoch next" "encode_changes base next = Inr p" "qs = ps @ [p]"
    | c where "encode_changes empty_state next = Inr c" "qs = [c]" using assms(7) by (auto simp: next_log_def)
  then show ?thesis
  proof cases
    case 1
    then obtain s where "apply_changes s0 p reg = Inr s" "state_view s = state_view next"
      using apply_encoded_changes [OF assms(1) _ assms(2,3)] assms(4,6) by blast
    then show ?thesis using assms(5) 1 by (auto simp: replay_append) (simp add: replay_def)
  next
    case 2
    have "state_stored reg empty_state" by (simp add: state_stored_def empty_state_def sorted_keys_def)
    then obtain s where "apply_changes empty_state c reg = Inr s" "state_view s = state_view next"
      using apply_encoded_changes [OF assms(1) 2(1) _ assms(3) evolution_empty [OF assms(3)]] by blast
    then show ?thesis using 2 by (simp add: replay_def)
  qed
qed

lemma survives_reopens:
  "survives reg bs ps \<Longrightarrow> replay reg ps empty_state = Inr s0 \<Longrightarrow> state_view s0 = state_view s \<Longrightarrow> reopens reg bs s"
  by (auto simp: survives_def reopens_def)

lemma durable_reopens: "durable reg d s \<Longrightarrow> crash_state d bs \<Longrightarrow> reopens reg bs s"
  using survives_reopens survives_store unfolding durable_def by blast

lemma state_stored_plain:
  "state_stored reg s \<Longrightarrow> (name, t) \<in> set (state_tables s) \<Longrightarrow> table_plain t"
  using table_stored_plain by (auto simp: state_stored_def)

lemma commit_durable:
  assumes "registry_ok reg" "durable reg d base" "state_stored reg base" "state_stored reg next"
    and "state_epoch base = state_epoch next \<longrightarrow> evolution base next"
    and "\<forall>(name, t) \<in> set (state_tables next). reuse_ok (source_reuse (store_source d)) t"
    and "commit_log base next d = (a, d')"
  shows "crash_state d' bs \<Longrightarrow> reopens reg bs next \<or> a \<noteq> Done () \<and> reopens reg bs base"
    and "a = Done () \<Longrightarrow> durable reg d' next"
proof -
  obtain ps s0 where p: "store_ok d ps" "replay reg ps empty_state = Inr s0" "state_view s0 = state_view base"
    using assms(2) by (auto simp: durable_def)
  have "\<forall>(name, t) \<in> set (state_tables next). table_plain t \<and> reuse_ok (source_reuse (store_source d)) t"
    using assms(6) state_stored_plain [OF assms(4)] by auto
  from hoareD [OF hoare_commit [OF this, of ps base reg], of d a d']
  have h: "commit_safe reg base next ps d'" "\<forall>x. a = Done x \<longrightarrow> (\<exists>qs. next_log base next ps qs \<and> store_ok d' qs)"
    using p(1) assms(7) by auto
  note new = next_log_replay [OF assms(1,3,4,5) p(2,3)]
  show d: "durable reg d' next" if "a = Done ()" using h(2) that new unfolding durable_def by blast
  show "reopens reg bs next \<or> a \<noteq> Done () \<and> reopens reg bs base" if c: "crash_state d' bs"
  proof (cases "a = Done ()")
    case True
    then show ?thesis using durable_reopens [OF d c] by simp
  next
    case False
    from h(1) c have "survives reg bs ps \<or> (\<exists>qs. next_log base next ps qs \<and> survives reg bs qs)" by (simp add: commit_safe_def)
    then show ?thesis using False new survives_reopens p(2,3) by blast
  qed
qed

section \<open>Reopening a store\<close>

lemma read_at_Inr: "read_at bs n offset = Inr xs \<longleftrightarrow> offset + n \<le> length bs \<and> xs = take n (drop offset bs)"
  by (auto simp: read_at_def bindE_Inr_iff ensure_Inr_iff)

text \<open>Whatever the file holds, recovery replays a list of whole records that it starts with.\<close>

lemma recover_loop_records:
  "recover_loop reg bs position s = Inr (s', n) \<Longrightarrow> position \<le> length bs \<Longrightarrow>
   \<exists>ps. (\<forall>p \<in> set ps. record_ok p) \<and> take n bs = take position bs @ concat (map framed ps) \<and> n \<le> length bs
     \<and> replay reg ps s = Inr s'"
proof (induction reg bs position s rule: recover_loop.induct)
  case (1 reg bs position s)
  show ?case
  proof (cases "n = position \<and> s' = s")
    case True
    then show ?thesis using 1(3) by (intro exI [of _ "[]"]) (simp add: replay_def)
  next
    case False
    obtain frame x rest y rest' payload latest where
      f: "position < length bs" "16 \<le> length bs - position" "read_at bs 16 position = Inr frame"
        "reader_u64 frame = Inr (x, rest)" "reader_u64 rest = Inr (y, rest')"
        "\<not> (y \<noteq> NOT x \<or> unat x < 32 \<or> unat x > max_record)" "\<not> unat x + 8 > length bs - position - 16"
        "read_at bs 8 (position + 16 + unat x) = Inr committed" "read_at bs (unat x) (position + 16) = Inr payload"
        "apply_changes s payload reg = Inr latest" "recover_loop reg bs (position + 24 + unat x) latest = Inr (s', n)"
      using 1(2) False
      by (subst (asm) recover_loop.simps) (auto simp: bindE_Inr_iff ensure_Inr_iff split: if_splits)
    have "position + 24 + unat x \<le> length bs" using f(2,7) by simp
    then have "\<exists>ps. (\<forall>p \<in> set ps. record_ok p) \<and> take n bs = take (position + 24 + unat x) bs @ concat (map framed ps)
        \<and> n \<le> length bs \<and> replay reg ps latest = Inr s'"
      using 1(1) f by (simp add: ensure_def)
    then obtain ps where i: "\<forall>p \<in> set ps. record_ok p" "take n bs = take (position + 24 + unat x) bs @ concat (map framed ps)"
        "n \<le> length bs" "replay reg ps latest = Inr s'" by blast
    have len: "length payload = unat x" "length frame = 16" using f(3,9) by (auto simp: read_at_Inr)
    have "frame = enc_u64 x @ enc_u64 (NOT x) @ rest'" using f(4-6) by (simp add: reader_u64_Inr)
    then have "frame = frame_header (length payload)" using len by (simp add: frame_header_def)
    then have "framed payload = take 16 (drop position bs) @ take (unat x) (drop (position + 16) bs) @ take 8 (drop (position + 16 + unat x) bs)"
      using f(3,8,9) by (simp add: framed_def read_at_Inr)
    also have "\<dots> = take (24 + unat x) (drop position bs)"
      using take_add [of 16 "unat x + 8" "drop position bs"] take_add [of "unat x" 8 "drop (position + 16) bs"] by (simp add: ac_simps)
    finally have "take (position + 24 + unat x) bs = take position bs @ framed payload"
      using take_add [of position "24 + unat x" bs] by (simp add: ac_simps)
    moreover have "record_ok payload" using f(6) len by (simp add: record_ok_def)
    ultimately show ?thesis using i f(10) by (intro exI [of _ "payload # ps"]) (auto simp: replay_def)
  qed
qed

lemma recover_bytes_records:
  assumes "recover_bytes reg bs = Inr (s, n)"
  shows "\<exists>ps. (\<forall>p \<in> set ps. record_ok p) \<and> take n bs = log_bytes ps \<and> n \<le> length bs \<and> replay reg ps empty_state = Inr s"
proof -
  have m: "8 \<le> length bs" "take 8 bs = magic" "recover_loop reg bs 8 empty_state = Inr (s, n)"
    using assms by (auto simp: recover_bytes_def bindE_Inr_iff ensure_Inr_iff read_at_Inr)
  show ?thesis using recover_loop_records [OF m(3,1)] m(2) by (auto simp: log_bytes_def)
qed

text \<open>The store that a new process opens on the bytes a crash left behind.\<close>

definition reboot :: "bytes \<Rightarrow> Outcome list \<Rightarrow> DurableStore" where
  "reboot bs os = \<lparr>ds_files = [clean bs], ds_path = 0, ds_previous = None, ds_temporary = None, ds_background_file = None,
     ds_schedule = os, ds_fd = 0, ds_failed = False, ds_generation = 0, ds_committed_end = 0, ds_images = Map.empty,
     ds_image_fd = None, ds_background_active = False\<rparr>"

definition opened :: "(File \<Rightarrow> bool) \<Rightarrow> DurableStore \<Rightarrow> bool" where
  "opened g d \<longleftrightarrow> (\<exists>f. ds_files d = [f] \<and> g f) \<and> ds_path d = 0 \<and> ds_fd d = 0 \<and> ds_previous d = None \<and> ds_image_fd d = None"

lemma opened_schedule: "ignores_schedule (opened g)"
  by (simp add: ignores_schedule_def opened_def)

lemma hoare_recover:
  "hoare (opened ((=) (clean bs))) (recover reg)
     (\<lambda>s d. \<exists>n. recover_bytes reg bs = Inr (s, n) \<and> opened ((=) (clean (take n bs))) d) (\<lambda>_. True)"
proof -
  let ?P = "opened ((=) (clean bs))"
  note sys = hoare_system(1) [OF opened_schedule]
  have cut: "hoare ?P (if n \<noteq> length bs then bindI system_call (\<lambda>_. modifyI (edit_file 0 (\<lambda>f. \<lparr>file_synced = take n (file_synced f),
       file_unsynced = take (n - length (file_synced f)) (file_unsynced f)\<rparr>))) else returnI ())
       (\<lambda>_. opened (\<lambda>f. file_bytes f = take n bs)) (\<lambda>_. True)" for n
    by (intro hoare_case_if hoare_bind [OF sys] hoare_modify hoare_return)
      (auto simp: opened_def edit_file_def file_bytes_def clean_def)
  have sync: "hoare (opened (\<lambda>f. file_bytes f = take n bs)) (synchronize 0) (\<lambda>_. opened ((=) (clean (take n bs)))) (\<lambda>_. True)" for n
    unfolding synchronize_def by (intro hoare_bind [OF hoare_system(2) [OF opened_schedule]] hoare_modify)
      (auto simp: opened_def edit_file_def clean_def)
  have keep: "hoare (opened g) (modifyI h) (\<lambda>_. opened g) (\<lambda>_. True)" if "\<And>d. opened g d \<Longrightarrow> opened g (h d)" for g h
    using that by (intro hoare_modify) auto
  show ?thesis unfolding recover_def
    apply (rule hoare_bind [OF sys], simp)
    apply (rule hoare_read_known [of _ _ 0], simp add: opened_def, simp)
    apply (rule hoare_read_known [of _ _ bs], simp add: opened_def clean_def file_bytes_def, simp)
    apply (rule hoare_keep_lift, simp)
    apply (simp only: split_paired_all prod.case)
    apply (rule hoare_bind [OF cut], rule hoare_bind [OF sync])
    apply (rule hoare_bind [OF sys], simp, rule hoare_bind [OF keep], simp add: opened_def)+
    apply (rule hoare_return)
    apply auto
    done
qed

lemma recover_done:
  assumes "recover reg (reboot bs os) = (Done s, d')"
  shows "durable reg d' s" "\<exists>n. recover_bytes reg bs = Inr (s, n)"
proof -
  have "opened ((=) (clean bs)) (reboot bs os)" by (simp add: opened_def reboot_def)
  from hoareD [OF hoare_recover this assms] obtain n where
    n: "recover_bytes reg bs = Inr (s, n)" "opened ((=) (clean (take n bs))) d'" by auto
  obtain ps where "\<forall>p \<in> set ps. record_ok p" "take n bs = log_bytes ps" "replay reg ps empty_state = Inr s"
    using recover_bytes_records [OF n(1)] by blast
  then have "store_ok d' ps" using n(2) by (auto simp: store_ok_def opened_def)
  then show "durable reg d' s" using \<open>replay reg ps empty_state = Inr s\<close> by (auto simp: durable_def)
  show "\<exists>n. recover_bytes reg bs = Inr (s, n)" using n(1) by blast
qed

section \<open>Writes that make progress\<close>

text \<open>Every system call is answered, and every write takes at least one byte.\<close>

definition answering :: "nat \<Rightarrow> DurableStore \<Rightarrow> bool" where
  "answering k d \<longleftrightarrow> (\<forall>x \<in> set (ds_schedule d). \<exists>n. x = Fine (Suc n)) \<and> k \<le> length (ds_schedule d)"

definition runs :: "nat \<Rightarrow> 'a io \<Rightarrow> bool" where
  "runs k m \<longleftrightarrow> (\<forall>d r. answering (k + r) d \<longrightarrow> (\<exists>x d'. m d = (Done x, d') \<and> answering r d'))"

lemma runsE:
  assumes "runs k m" "answering (k + r) d"
  obtains x d' where "m d = (Done x, d')" "answering r d'"
  using assms unfolding runs_def by blast

lemma runs_bind:
  assumes "runs k m" "\<And>x. runs l (f x)"
  shows "runs (k + l) (bindI m f)"
  unfolding runs_def
proof (intro allI impI)
  fix d r
  assume "answering (k + l + r) d"
  then have "answering (k + (l + r)) d" by (simp add: add.assoc)
  then obtain x d1 where m: "m d = (Done x, d1)" "answering (l + r) d1" using assms(1) by (blast elim: runsE)
  obtain y d2 where "f x d1 = (Done y, d2)" "answering r d2" using assms(2) m(2) by (rule runsE)
  then show "\<exists>x d'. bindI m f d = (Done x, d') \<and> answering r d'" using m(1) by (simp add: bindI_def)
qed

lemma write_loop_answers:
  assumes "\<forall>x \<in> set os. \<exists>n. x = Fine (Suc n)" "length bs + r \<le> length os"
  shows "\<exists>os'. write_loop os bs = (Done (), bs, os') \<and> set os' \<subseteq> set os \<and> r \<le> length os'"
  using assms
proof (induction os bs rule: write_loop.induct)
  case (5 n os b bs)
  have n: "n \<noteq> 0" using 5(2) by auto
  have "length (drop n (b # bs)) + r \<le> length os" using 5(3) n by simp
  then obtain os' where w: "write_loop os (drop n (b # bs)) = (Done (), drop n (b # bs), os')" "set os' \<subseteq> set os" "r \<le> length os'"
    using 5 n by auto
  show ?case by (rule exI [of _ os'], use w(2,3) in \<open>simp only: write_loop.simps n if_False w(1) prod.case append_take_drop_id\<close>) auto
qed auto

lemma runs_write: "runs (length bs) (write_all fd bs)"
  unfolding runs_def
proof (intro allI impI)
  fix d r
  assume a: "answering (length bs + r) d"
  then obtain os' where "write_loop (ds_schedule d) bs = (Done (), bs, os')" "set os' \<subseteq> set (ds_schedule d)" "r \<le> length os'"
    using write_loop_answers [of "ds_schedule d" bs r] by (auto simp: answering_def)
  then show "\<exists>x d'. write_all fd bs d = (Done x, d') \<and> answering r d'"
    using a by (auto simp: write_all_def answering_def edit_file_def)
qed

lemma runs_calls: "runs 1 system_call" "runs 1 (synchronize fd)"
proof -
  have s: "\<exists>n os. ds_schedule d = Fine (Suc n) # os \<and> (\<forall>x \<in> set os. \<exists>n. x = Fine (Suc n)) \<and> r \<le> length os"
    if "answering (1 + r) d" for d r
    using that by (cases "ds_schedule d") (auto simp: answering_def)
  show "runs 1 system_call" unfolding runs_def
    using s by (fastforce simp: system_call_def answering_def)
  show "runs 1 (synchronize fd)" unfolding runs_def
    using s by (fastforce simp: synchronize_def bindI_def retried_def modifyI_def edit_file_def answering_def)
qed

lemma runs_append: "runs (length p + 26) (append_record fd p)"
proof -
  let ?h = "frame_header (length p)" and ?k = "length p div 2"
  have "runs (length (take 8 ?h) + (length (drop 8 ?h) + (length (take ?k p) + (length (drop ?k p)
      + (1 + (length (take 4 committed) + (length (drop 4 committed) + 1)))))))
      (append_record fd p)"
    unfolding append_record_def Let_def by (intro runs_bind runs_write runs_calls)
  moreover have "length (take 8 ?h) + (length (drop 8 ?h) + (length (take ?k p) + (length (drop ?k p)
      + (1 + (length (take 4 committed) + (length (drop 4 committed) + 1)))))) = length p + 26"
    by simp
  ultimately show ?thesis by metis
qed

lemma commit_returns:
  assumes "\<not> ds_failed d" "state_epoch base = state_epoch next" "encode_changes base next = Inr p" "checkpoint_size next = Inr live"
    and "length (file_bytes (ds_files d ! ds_fd d)) + length p + 24 \<le> max (1024 * 1024) (4 * (live + 32))"
    and "answering (length p + 27) d"
  shows "\<exists>d'. commit_log base next d = (Done (), d')"
proof -
  have "answering (1 + (length p + 26)) d" using assms(6) by (simp add: add.commute)
  then obtain x d1 where c: "system_call d = (Done x, d1)" "answering (length p + 26 + 0) d1" using runs_calls(1) by (metis runsE add_0_right)
  obtain os where d1: "d1 = d\<lparr>ds_schedule := os\<rparr>" using quiet_io(5) c(1) unfolding quiet_def by blast
  obtain y d2 where "append_record (ds_fd d) p d1 = (Done y, d2)" using runs_append c(2) by (rule runsE)
  then show ?thesis using assms(1-5) c(1)
    by (auto simp: commit_log_def bindI_def readI_def liftI_def returnI_def throwI_def rethrowI_def modifyI_def d1 Let_def le_max_iff_disj)
qed

end
