(* ===== verification/Storage_Spec.thy ===== *)
theory Storage_Spec
  imports Storage_Recovery
begin

text \<open>
  The properties of the durable store, from single records to whole commits.
\<close>

section \<open>A concrete store\<close>

definition stored_state :: State where
  "stored_state = empty_state\<lparr>state_tables := [(''t'', refresh_table sample_table)]\<rparr>"

definition publish_store :: DurableStore where
  "publish_store = (reboot (log_bytes [replicate 40 7]) [Fine 1, Fine 1, Fine 1, Fine 1])
     \<lparr>ds_files := [clean (log_bytes [replicate 40 7]), clean (log_bytes [replicate 32 5])], ds_committed_end := 72\<rparr>"

definition publish_task :: Checkpoint where
  "publish_task = \<lparr>cp_source = 0, cp_fresh = 1, cp_generation = 0, cp_copied = 72, cp_ready = True, cp_reuse = Map.empty,
     cp_built = Map.empty\<rparr>"

lemma sample_row_ok: "\<forall>row \<in> set (chunk_rows sample_chunk). row_ok sample_registry (table_columns sample_table) row"
  by (auto simp: sample_chunk_def refresh_chunk_def new_chunk_def Let_def sample_table_def row_ok_def value_wf_def)

lemma sample_schema_ok: "schema_ok sample_registry (refresh_table sample_table)"
  by (simp add: schema_ok_def sample_table_def empty_table_def column_ok_def sample_column_def schema_only_def refresh_table_def
      registry_validate_type_def scalar_integer_def scalar_text_def make_indexes_def is_ok_def)

lemma sample_table_stored: "table_stored sample_registry (refresh_table sample_table)"
proof -
  have "stored_chunk sample_registry (refresh_table sample_table) (0, sample_chunk)"
    using sample_row_ok
    by (auto simp: stored_chunk_def refresh_table_def sample_table_def sample_chunk_def refresh_chunk_def new_chunk_def Let_def max_chunk_rows_def)
  then show ?thesis
    by (simp add: table_stored_def sample_schema_ok) (simp add: refresh_table_def sample_table_def sorted_keys_def sample_chunk_def refresh_chunk_def Let_def)
qed

lemma stored_state_ok: "state_stored sample_registry stored_state" "state_stored sample_registry empty_state"
  using sample_table_stored by (simp_all add: state_stored_def stored_state_def sorted_keys_def empty_state_def)

lemma empty_store_durable: "durable sample_registry (reboot (log_bytes []) os) empty_state"
  unfolding durable_def by (intro exI [of _ "[]"] exI [of _ empty_state]) (simp add: store_ok_def reboot_def replay_def)

lemma reboot_reuse: "reuse_ok (source_reuse (store_source (reboot bs os))) t"
  by (simp add: reuse_ok_def source_reuse_def store_source_def reboot_def reuse_image_def case_prod_beta)

lemma stored_changes: "\<exists>p. encode_changes empty_state stored_state = Inr p \<and> length p < 1000"
  by (simp add: encode_changes_def checkpoint_size_def stored_state_def empty_state_def same_table_def write_table_change_def
      refresh_table_def sample_table_def empty_table_def sample_chunk_def refresh_chunk_def new_chunk_def write_schema_def write_column_def
      sample_column_def put_size_def put_u64_def put_field_def put_type_def integer_type_def text_type_def max_encoded_bytes_def
      chunk_changes_def write_chunk_change_def write_rows_def write_row_def write_value_def emit_value_def upt_rec finish_record_def
      within_limit_def value_payload_def value_prefix_def)


lemma stored_commit:
  assumes "\<forall>x \<in> set os. \<exists>n. x = Fine (Suc n)" "1027 \<le> length os"
  shows "\<exists>d'. commit_log empty_state stored_state (reboot (log_bytes []) os) = (Done (), d')"
proof -
  obtain p where p: "encode_changes empty_state stored_state = Inr p" "length p < 1000" using stored_changes by blast
  then obtain live where "checkpoint_size stored_state = Inr live" by (auto simp: encode_changes_def bindE_Inr_iff)
  moreover have "length (file_bytes (ds_files (reboot (log_bytes []) os) ! ds_fd (reboot (log_bytes []) os))) + length p + 24
      \<le> max (1024 * 1024) (4 * (live + 32))"
    using p(2) by (simp add: reboot_def log_bytes_def le_max_iff_disj)
  ultimately show ?thesis using p assms
    by (intro commit_returns) (auto simp: reboot_def answering_def stored_state_def empty_state_def)
qed

section \<open>Properties\<close>

text \<open>
  C1. Commits are atomic and durable. Start a commit of \<open>next\<close> on a store that
  holds \<open>base\<close>, let every system call be answered in any way (fully, partly,
  interrupted, failed, or never), and stop at any point: the file that the
  crash leaves behind reopens to the contents of \<open>next\<close> or, only if the commit
  had not returned, to the contents of \<open>base\<close>. After a commit that returned the
  store holds \<open>next\<close>.
\<close>

theorem commit_atomic_durable:
  assumes "registry_ok reg" and "durable reg d base" and "state_stored reg base" and "state_stored reg next"
    and "state_epoch base = state_epoch next \<longrightarrow> evolution base next"
    and "\<forall>(name, t) \<in> set (state_tables next). reuse_ok (source_reuse (store_source d)) t"
    and "commit_log base next d = (a, d')"
  shows "(\<forall>bs. crash_state d' bs \<longrightarrow> reopens reg bs next \<or> a \<noteq> Done () \<and> reopens reg bs base)
    \<and> (a = Done () \<longrightarrow> durable reg d' next)"
  using commit_durable [OF assms] by blast

text \<open>Witness: the first commit into a new store, every write taking one byte.\<close>

theorem commit_atomic_durable_witness:
  "\<exists>d'. commit_log empty_state stored_state (reboot (log_bytes []) (replicate 1027 (Fine 1))) = (Done (), d')
     \<and> durable sample_registry d' stored_state \<and> (\<forall>bs. crash_state d' bs \<longrightarrow> reopens sample_registry bs stored_state)"
proof -
  obtain d' where c: "commit_log empty_state stored_state (reboot (log_bytes []) (replicate 1027 (Fine 1))) = (Done (), d')"
    using stored_commit [of "replicate 1027 (Fine 1)"] by auto
  have "\<forall>(name, t) \<in> set (state_tables stored_state).
      reuse_ok (source_reuse (store_source (reboot (log_bytes []) (replicate 1027 (Fine 1))))) t"
    using reboot_reuse by auto
  from commit_atomic_durable [OF sample_registry_ok empty_store_durable stored_state_ok(2,1) _ this c]
  show ?thesis using c evolution_empty [OF stored_state_ok(1)] by auto
qed

text \<open>
  C9. A commit on a healthy store comes to its end. If its record fits below
  the checkpoint threshold and every system call is answered, even if each
  write takes only a single byte, the commit returns.
\<close>

theorem commit_completes:
  assumes "\<not> ds_failed d" and "state_epoch base = state_epoch next" and "encode_changes base next = Inr p"
    and "checkpoint_size next = Inr live"
    and "length (file_bytes (ds_files d ! ds_fd d)) + length p + 24 \<le> max (1024 * 1024) (4 * (live + 32))"
    and "answering (length p + 27) d"
  shows "\<exists>d'. commit_log base next d = (Done (), d')"
  using assms by (rule commit_returns)

text \<open>Witness: an empty commit into a new store.\<close>

theorem commit_completes_witness:
  "\<exists>d'. commit_log empty_state empty_state (reboot (log_bytes []) (replicate 100 (Fine 2))) = (Done (), d')"
proof -
  have "\<exists>p. encode_changes empty_state empty_state = Inr p \<and> length p < 40"
    by (simp add: encode_changes_def checkpoint_size_def empty_state_def put_field_def put_size_def put_u64_def
        max_encoded_bytes_def finish_record_def within_limit_def)
  then obtain p where p: "encode_changes empty_state empty_state = Inr p" "length p < 40" by blast
  have "checkpoint_size empty_state = Inr 32" by (simp add: checkpoint_size_def empty_state_def)
  from commit_completes [OF _ refl p(1) this, of "reboot (log_bytes []) (replicate 100 (Fine 2))"]
  show ?thesis using p(2) by (simp add: reboot_def log_bytes_def answering_def numeral_2_eq_2)
qed

text \<open>
  C27. Interrupted and short writes are continued. As long as no system call
  fails, the write loop writes exactly the bytes it was given, given at most
  one answered call for each byte.
\<close>

theorem interrupted_writes_complete:
  assumes "Failed \<notin> set os" and "Fine 0 \<notin> set os" and "length bs \<le> length (filter (\<lambda>x. x \<noteq> Interrupted) os)"
  shows "\<exists>os'. write_loop os bs = (Done (), bs, os')"
  using assms by (rule write_loop_completes)

text \<open>Witness: two interruptions and a short write.\<close>

theorem interrupted_writes_complete_witness:
  "\<exists>os'. write_loop [Interrupted, Fine 2, Interrupted, Fine 1, Fine 9] [1, 2, 3] = (Done (), [1, 2, 3], os')"
  using interrupted_writes_complete [of "[Interrupted, Fine 2, Interrupted, Fine 1, Fine 9]" "[1, 2, 3]"] by simp

text \<open>
  C10. A commit that fails leaves the store usable or closes it. When a commit
  throws, either nothing but the answers of the operating system was consumed,
  or the store is marked failed and refuses every later commit, checkpoint and
  background checkpoint with a state error, touching nothing.
\<close>

theorem failed_commit_closes_store:
  assumes "commit_log base next d = (Threw e, d')"
  shows "(\<exists>os. d' = d\<lparr>ds_schedule := os\<rparr>)
    \<or> (\<forall>b n s task. commit_log b n d' = (Threw E_state, d') \<and> checkpoint_now s d' = (Threw E_state, d')
        \<and> prepare_checkpoint d' = (Threw E_state, d') \<and> publish_checkpoint task d' = (Threw E_state, d'))"
  using closes_commit assms failed_refuses unfolding closes_def by blast

text \<open>Witness: the second write of a record fails.\<close>

theorem failed_commit_closes_store_witness:
  "\<exists>d'. commit_log empty_state empty_state (reboot (log_bytes []) [Fine 1, Fine 8, Failed]) = (Threw E_io, d')
     \<and> checkpoint_now empty_state d' = (Threw E_state, d')"
proof -
  have "\<exists>p. encode_changes empty_state empty_state = Inr p \<and> length p < 40"
    by (simp add: encode_changes_def checkpoint_size_def empty_state_def put_field_def put_size_def put_u64_def
        max_encoded_bytes_def finish_record_def within_limit_def)
  then obtain p where p: "encode_changes empty_state empty_state = Inr p" "length p < 40" by blast
  have cs: "checkpoint_size empty_state = Inr 32" by (simp add: checkpoint_size_def empty_state_def)
  have s: "length xs = 8 \<Longrightarrow> \<exists>y ys. xs = y # ys \<and> length ys = 7" for xs :: bytes by (cases xs) auto
  obtain h1 hs where h: "take 8 (frame_header (length p)) = h1 # hs" "length hs = 7"
    using s [of "take 8 (frame_header (length p))"] by auto
  obtain g1 gs where g: "drop 8 (frame_header (length p)) = g1 # gs"
    using s [of "drop 8 (frame_header (length p))"] by auto
  let ?d = "reboot (log_bytes []) [Fine 1, Fine 8, Failed]"
  have c: "\<exists>d'. commit_log empty_state empty_state ?d = (Threw E_io, d') \<and> ds_files d' \<noteq> ds_files ?d"
    using p h g by (simp add: commit_log_def bindI_def readI_def liftI_def returnI_def rethrowI_def system_call_def reboot_def cs Let_def
        append_record_def write_all_def edit_file_def log_bytes_def clean_def file_bytes_def)
  then obtain d' where d': "commit_log empty_state empty_state ?d = (Threw E_io, d')" "ds_files d' \<noteq> ds_files ?d" by blast
  then show ?thesis using failed_commit_closes_store [OF d'(1)] by auto
qed

text \<open>
  C6. Recovery finds what was committed. On any file, recovery either fails or
  returns the replay of a list of complete records that the file starts with,
  at a position within the file; and cutting the file at that position, as
  opening the store does, changes nothing about a later recovery.
\<close>

theorem recovery_finds_records:
  assumes "recover_bytes reg bs = Inr (s, n)"
  shows "n \<le> length bs \<and> recover_bytes reg (take n bs) = Inr (s, n)
    \<and> (\<exists>ps. (\<forall>p \<in> set ps. record_ok p) \<and> take n bs = log_bytes ps \<and> replay reg ps empty_state = Inr s)"
proof -
  obtain ps where p: "\<forall>p \<in> set ps. record_ok p" "take n bs = log_bytes ps" "n \<le> length bs" "replay reg ps empty_state = Inr s"
    using recover_bytes_records [OF assms] by blast
  have "length (log_bytes ps) = n" using p(2,3) by (metis length_take min.absorb2)
  then show ?thesis using p recover_whole_log [OF p(1), of reg] by auto
qed

text \<open>Witness: a new log followed by five stray bytes.\<close>

theorem recovery_finds_records_witness:
  "\<exists>s n. recover_bytes sample_registry (magic @ [1, 2, 3, 4, 5]) = Inr (s, n) \<and> n \<le> 13
     \<and> recover_bytes sample_registry (take n (magic @ [1, 2, 3, 4, 5])) = Inr (s, n)"
proof -
  have r: "recover_bytes sample_registry (magic @ [1, 2, 3, 4, 5]) = Inr (empty_state, 8)"
    by (simp add: recover_bytes_def read_at_def, subst recover_loop.simps) simp
  from recovery_finds_records [OF r] show ?thesis using r by auto
qed

text \<open>
  C26. A torn record is dropped. A log whose last record was only partly
  written, at whatever byte it broke off, recovers to the records before it.
\<close>

theorem torn_record_dropped:
  assumes "\<forall>p \<in> set ps. record_ok p" and "record_ok p" and "k < length (framed p)"
  shows "recover_bytes reg (log_bytes ps @ take k (framed p))
    = bindE (replay reg ps empty_state) (\<lambda>s. Inr (s, length (log_bytes ps)))"
  using assms by (rule recover_log)

text \<open>Witness: a record without its final marker.\<close>

theorem torn_record_dropped_witness:
  "recover_bytes sample_registry (log_bytes [] @ take 50 (framed (replicate 40 7))) = Inr (empty_state, 8)"
  using torn_record_dropped [of "[]" "replicate 40 7" 50 sample_registry]
  by (simp add: record_ok_def max_record_def max_encoded_bytes_def replay_def log_bytes_def)



text \<open>
  C2. Change records round trip. Replaying the record of the changes from \<open>base\<close>
  to \<open>next\<close> on any state with the contents of \<open>base\<close> succeeds and gives the
  contents of \<open>next\<close>: every table, with its columns, constraints, index
  definitions, rows, row ids and counters.
\<close>

theorem change_record_round_trip:
  assumes "registry_ok reg" and "encode_changes base next = Inr p" and "state_stored reg base" and "state_stored reg next"
    and "evolution base next" and "state_view base' = state_view base"
  shows "\<exists>s. apply_changes base' p reg = Inr s \<and> state_view s = state_view next"
  using assms by (rule apply_encoded_changes)

text \<open>Witness: creating a table with two rows.\<close>

theorem change_record_round_trip_witness:
  "\<exists>p s. encode_changes empty_state stored_state = Inr p \<and> apply_changes empty_state p sample_registry = Inr s
     \<and> state_view s = state_view stored_state"
proof -
  obtain p where p: "encode_changes empty_state stored_state = Inr p" using stored_changes by blast
  from change_record_round_trip [OF sample_registry_ok p stored_state_ok(2,1) evolution_empty [OF stored_state_ok(1)] refl]
  show ?thesis using p by blast
qed

text \<open>
  C5. Publishing a background checkpoint is safe. While commits go on, the
  task's file holds its checkpoint record and a copy of the first records
  committed since. Publishing copies the rest and renames the file over the
  log: at every crash the path names the old log or the complete new one, and
  when it reports success the store is the checkpoint followed by every record
  committed after the capture.
\<close>

theorem background_checkpoint_published:
  assumes "copied_so_far task ps c kept todo d" and "publish_checkpoint task d = (a, d')"
  shows "(\<forall>bs. crash_state d' bs \<longrightarrow> bs = log_bytes (ps @ kept @ todo) \<or> bs = log_bytes (c # kept @ todo))
    \<and> (a = Done True \<longrightarrow> store_ok d' (c # kept @ todo))"
proof -
  have "record_ok c" "\<forall>p \<in> set (ps @ kept @ todo). record_ok p"
    using assms(1) by (auto simp: copied_so_far_def store_ok_def)
  from hoareD [OF hoare_publish_checkpoint [OF this] assms] show ?thesis by (auto simp: old_or_def)
qed

text \<open>Witness: a log of one record replaced by a checkpoint.\<close>

theorem background_checkpoint_published_witness:
  "\<exists>d'. publish_checkpoint publish_task publish_store = (Done True, d') \<and> store_ok d' [replicate 32 5]"
proof -
  have c: "copied_so_far publish_task [replicate 40 7] (replicate 32 5) [] [] publish_store"
    by (simp add: copied_so_far_def publish_store_def publish_task_def reboot_def store_ok_def record_ok_def log_bytes_def
        max_record_def max_encoded_bytes_def)
  have "\<exists>d'. publish_checkpoint publish_task publish_store = (Done True, d')"
    by (simp add: publish_checkpoint_def publish_store_def publish_task_def reboot_def bindI_def readI_def copy_tail_def returnI_def
        synchronize_def retried_def modifyI_def edit_file_def rethrowI_def publish_file_def system_call_def sync_directory_def)
  then show ?thesis using background_checkpoint_published [OF c] by auto
qed

end
