(* ===== verification/Transaction_Spec.thy ===== *)
theory Transaction_Spec
  imports Storage_Spec
begin

text \<open>
  Savepoints, interleaved transactions and commits of persistent databases.
\<close>

section \<open>Savepoints\<close>

text \<open>What a transaction may do while the savepoint \<open>point\<close> stays open.\<close>

inductive inside :: "Owner \<Rightarrow> nat \<Rightarrow> Transaction \<Rightarrow> Transaction \<Rightarrow> bool" for ow point where
  stay: "inside ow point x x"
| operation: "inside ow point x y \<Longrightarrow> operate op ow y = Inr ((), z) \<Longrightarrow> inside ow point x z"
| nested: "inside ow point x y \<Longrightarrow> savepoint ow y = Inr (q, z) \<Longrightarrow> inside ow point x z"
| released: "inside ow point x y \<Longrightarrow> point < q \<Longrightarrow> inside ow point x (savepoint_release q y)"
| undone: "inside ow point x y \<Longrightarrow> point < q \<Longrightarrow> inside ow point x (savepoint_rollback q y)"
| redone: "inside ow point x y \<Longrightarrow> point < q \<Longrightarrow> savepoint_rollback_to q ow y = Inr (q', z) \<Longrightarrow> inside ow point x z"

text \<open>Savepoint numbers count up, so the list of open ones is decreasing.\<close>

definition savepoints_ok :: "Transaction \<Rightarrow> bool" where
  "savepoints_ok x \<longleftrightarrow> sorted_wrt (\<lambda>e f. fst f < fst e) (txn_savepoints x) \<and> (\<forall>e \<in> set (txn_savepoints x). fst e < txn_counter x)"

definition keeps :: "nat \<Rightarrow> Staged \<Rightarrow> (nat \<times> Staged) list \<Rightarrow> Transaction \<Rightarrow> bool" where
  "keeps point s outer x \<longleftrightarrow> savepoints_ok x \<and> txn_open x
     \<and> (\<exists>inner. txn_savepoints x = inner @ (point, s) # outer \<and> (\<forall>e \<in> set inner. point < fst e))"

lemma finish_simps [simp]:
  "txn_savepoints (finish_savepoint q b x) = tl (dropWhile (\<lambda>e. fst e \<noteq> q) (txn_savepoints x))"
  "txn_counter (finish_savepoint q b x) = txn_counter x" "txn_open (finish_savepoint q b x) = txn_open x"
  "txn_base (finish_savepoint q b x) = txn_base x" "txn_version (finish_savepoint q b x) = txn_version x"
  by (auto simp: finish_savepoint_def Let_def split: option.splits)

lemma set_tl_dropWhile: "set (tl (dropWhile P xs)) \<subseteq> set xs"
  by (induction xs) auto

lemma sorted_tl_dropWhile: "sorted_wrt P xs \<Longrightarrow> sorted_wrt P (tl (dropWhile Q xs))"
  by (induction xs) auto

lemma finish_ok:
  assumes "savepoints_ok x"
  shows "savepoints_ok (finish_savepoint q b x)"
  using assms set_tl_dropWhile [of _ "txn_savepoints x"] sorted_tl_dropWhile
  unfolding savepoints_ok_def finish_simps by blast

lemma keeps_finish:
  assumes "keeps point s outer x" "q \<in> set (map fst (txn_savepoints x))" "point < q"
  shows "keeps point s outer (finish_savepoint q b x)"
proof -
  obtain inner where i: "txn_savepoints x = inner @ (point, s) # outer" "\<forall>e \<in> set inner. point < fst e"
    using assms(1) by (auto simp: keeps_def)
  have ok: "savepoints_ok x" "txn_open x" using assms(1) by (simp_all add: keeps_def)
  have "q \<notin> set (map fst outer)" "q \<noteq> point"
    using ok(1) i(1) assms(3) by (auto simp: savepoints_ok_def sorted_wrt_append)
  then have "\<exists>e \<in> set inner. \<not> fst e \<noteq> q" using assms(2) i(1) by auto
  then have d: "dropWhile (\<lambda>e. fst e \<noteq> q) (txn_savepoints x) = dropWhile (\<lambda>e. fst e \<noteq> q) inner @ (point, s) # outer"
      "dropWhile (\<lambda>e. fst e \<noteq> q) inner \<noteq> []"
    by (auto simp: i(1) dropWhile_append1)
  have t: "txn_savepoints (finish_savepoint q b x) = tl (dropWhile (\<lambda>e. fst e \<noteq> q) inner) @ (point, s) # outer"
    using d by simp
  have "\<forall>e \<in> set (tl (dropWhile (\<lambda>e. fst e \<noteq> q) inner)). point < fst e" using i(2) set_tl_dropWhile [of "\<lambda>e. fst e \<noteq> q" inner] by blast
  then show ?thesis using t finish_ok [OF ok(1)] ok(2) unfolding keeps_def finish_simps(3) by blast
qed

lemma keeps_push:
  assumes "keeps point s outer x"
  shows "keeps point s outer (x\<lparr>txn_savepoints := (txn_counter x, snapshot) # txn_savepoints x, txn_counter := Suc (txn_counter x)\<rparr>)"
proof -
  obtain inner where i: "txn_savepoints x = inner @ (point, s) # outer" "\<forall>e \<in> set inner. point < fst e"
    using assms by (auto simp: keeps_def)
  have "\<forall>e \<in> set ((txn_counter x, snapshot) # inner). point < fst e"
    using assms i by (auto simp: keeps_def savepoints_ok_def)
  moreover have "savepoints_ok (x\<lparr>txn_savepoints := (txn_counter x, snapshot) # txn_savepoints x, txn_counter := Suc (txn_counter x)\<rparr>)"
    using assms by (auto simp: keeps_def savepoints_ok_def less_SucI)
  ultimately show ?thesis using assms i(1) unfolding keeps_def
    by (intro conjI exI [of _ "(txn_counter x, snapshot) # inner"]) simp_all
qed

lemma inside_keeps:
  assumes "inside ow point x y" "keeps point s outer x"
  shows "keeps point s outer y"
  using assms
proof (induction rule: inside.induct)
  case (operation x y op z)
  then obtain b where "z = y\<lparr>txn_staged := b\<rparr>" by (auto simp: operate_def bindE_Inr_iff)
  then show ?case using operation by (simp add: keeps_def savepoints_ok_def)
next
  case (nested x y q z)
  then have "z = y\<lparr>txn_savepoints := (txn_counter y, txn_staged y) # txn_savepoints y, txn_counter := Suc (txn_counter y)\<rparr>"
    by (auto simp: savepoint_def bindE_Inr_iff Let_def)
  then show ?case using nested keeps_push by blast
next
  case (redone x y q q' z)
  then obtain snapshot where o: "savepoint_open q y"
    "z = (finish_savepoint q True y)\<lparr>txn_savepoints := (txn_counter y, snapshot) # txn_savepoints (finish_savepoint q True y),
       txn_counter := Suc (txn_counter y)\<rparr>"
    by (auto simp: savepoint_rollback_to_def bindE_Inr_iff ensure_Inr_iff Let_def)
  have "keeps point s outer (finish_savepoint q True y)" using redone o(1) by (intro keeps_finish) (auto simp: savepoint_open_def)
  from keeps_push [OF this, of snapshot] show ?case unfolding o(2) finish_simps(2) .
qed (simp_all add: savepoint_release_def savepoint_rollback_def savepoint_open_def keeps_finish del: set_map)

lemma savepoint_keeps:
  assumes "savepoints_ok x" "savepoint ow x = Inr (p, y)"
  shows "keeps p (txn_staged x) (txn_savepoints x) y"
proof -
  have y: "p = txn_counter x" "txn_open x"
    "y = x\<lparr>txn_savepoints := (p, txn_staged x) # txn_savepoints x, txn_counter := Suc p\<rparr>"
    using assms(2) by (auto simp: savepoint_def active_def bindE_Inr_iff ensure_Inr_iff Let_def)
  then show ?thesis using assms(1) by (auto simp: keeps_def savepoints_ok_def less_SucI intro!: exI [of _ "[]"])
qed

lemma rollback_restores:
  assumes "keeps p s outer x"
  shows "savepoint_rollback p x = x\<lparr>txn_staged := s, txn_savepoints := outer\<rparr>"
proof -
  obtain inner where i: "txn_savepoints x = inner @ (p, s) # outer" "\<forall>e \<in> set inner. p < fst e"
    using assms by (auto simp: keeps_def)
  have "map_of inner p = None" using i(2) by (auto simp: map_of_eq_None_iff)
  then have "map_of (txn_savepoints x) p = Some s" by (simp add: i(1) map_add_def)
  moreover have "dropWhile (\<lambda>e. fst e \<noteq> p) (txn_savepoints x) = (p, s) # outer"
    using i by (subst i(1), subst dropWhile_append2) auto
  ultimately show ?thesis using assms i(1)
    by (simp add: savepoint_rollback_def savepoint_open_def finish_savepoint_def keeps_def)
qed

section \<open>Concurrent transactions\<close>

text \<open>
  A database with its transactions, in any interleaving. The log remembers
  what each publishing commit started from and what it published.
\<close>

record World =
  world_owner :: Owner
  world_txns :: "Transaction list"
  world_log :: "(State \<times> State) list"

definition committed_log :: "Owner \<Rightarrow> Transaction \<Rightarrow> Owner \<Rightarrow> (State \<times> State) list" where
  "committed_log ow x ow' = (if owner_version ow' = owner_version ow then [] else [(txn_base x, owner_current ow')])"

inductive reaches :: "Owner \<Rightarrow> World \<Rightarrow> bool" for ow where
  start: "reaches ow \<lparr>world_owner = ow, world_txns = [], world_log = []\<rparr>"
| opens: "reaches ow w \<Longrightarrow> begin_transaction (world_owner w) = Inr x \<Longrightarrow> reaches ow (w\<lparr>world_txns := world_txns w @ [x]\<rparr>)"
| operation: "reaches ow w \<Longrightarrow> i < length (world_txns w) \<Longrightarrow> operate op (world_owner w) (world_txns w ! i) = Inr ((), x)
    \<Longrightarrow> reaches ow (w\<lparr>world_txns := (world_txns w)[i := x]\<rparr>)"
| save: "reaches ow w \<Longrightarrow> i < length (world_txns w) \<Longrightarrow> savepoint (world_owner w) (world_txns w ! i) = Inr (q, x)
    \<Longrightarrow> reaches ow (w\<lparr>world_txns := (world_txns w)[i := x]\<rparr>)"
| release: "reaches ow w \<Longrightarrow> i < length (world_txns w)
    \<Longrightarrow> reaches ow (w\<lparr>world_txns := (world_txns w)[i := savepoint_release q (world_txns w ! i)]\<rparr>)"
| undo: "reaches ow w \<Longrightarrow> i < length (world_txns w)
    \<Longrightarrow> reaches ow (w\<lparr>world_txns := (world_txns w)[i := savepoint_rollback q (world_txns w ! i)]\<rparr>)"
| redo: "reaches ow w \<Longrightarrow> i < length (world_txns w) \<Longrightarrow> savepoint_rollback_to q (world_owner w) (world_txns w ! i) = Inr (q', x)
    \<Longrightarrow> reaches ow (w\<lparr>world_txns := (world_txns w)[i := x]\<rparr>)"
| abandon: "reaches ow w \<Longrightarrow> i < length (world_txns w)
    \<Longrightarrow> reaches ow (w\<lparr>world_txns := (world_txns w)[i := rollback (world_txns w ! i)]\<rparr>)"
| finish: "reaches ow w \<Longrightarrow> i < length (world_txns w) \<Longrightarrow> commit (world_txns w ! i) (world_owner w) = (a, x, ow')
    \<Longrightarrow> reaches ow \<lparr>world_owner = ow', world_txns = (world_txns w)[i := x],
          world_log = world_log w @ committed_log (world_owner w) (world_txns w ! i) ow'\<rparr>"

fun linked :: "State \<Rightarrow> (State \<times> State) list \<Rightarrow> State \<Rightarrow> bool" where
  "linked s [] s' \<longleftrightarrow> s = s'"
| "linked s ((base, next) # es) s' \<longleftrightarrow> base = s \<and> linked next es s'"

lemma linked_snoc: "linked s (es @ [(base, next)]) s' \<longleftrightarrow> linked s es base \<and> next = s'"
  by (induction es arbitrary: s) auto

definition current_base :: "Owner \<Rightarrow> Transaction \<Rightarrow> bool" where
  "current_base ow x \<longleftrightarrow> txn_version x \<le> owner_version ow \<and> (txn_version x = owner_version ow \<longrightarrow> txn_base x = owner_current ow)"

definition serial :: "Owner \<Rightarrow> World \<Rightarrow> bool" where
  "serial ow w \<longleftrightarrow> (\<forall>x \<in> set (world_txns w). current_base (world_owner w) x)
     \<and> linked (owner_current ow) (world_log w) (owner_current (world_owner w))"

lemma store_commit_keeps: "store_commit base next ow = (a, ow') \<Longrightarrow> owner_current ow' = owner_current ow \<and> owner_version ow' = owner_version ow"
  by (auto simp: store_commit_def split: option.splits prod.splits)

lemma commit_cases:
  assumes "commit x ow = (a, x', ow')"
  shows "txn_base x' = txn_base x \<and> txn_version x' = txn_version x"
    and "owner_current ow' = owner_current ow \<and> owner_version ow' = owner_version ow
      \<or> owner_version ow = txn_version x \<and> owner_version ow' = Suc (owner_version ow)
        \<and> owner_current ow' = (staged_state (txn_staged x))\<lparr>state_stats := measure_state (staged_state (txn_staged x))\<rparr> \<and> a = Done ()"
proof -
  show "txn_base x' = txn_base x \<and> txn_version x' = txn_version x"
    using assms by (auto simp: commit_def rollback_def Let_def split: sum.splits if_splits prod.splits answer.splits)
  show "owner_current ow' = owner_current ow \<and> owner_version ow' = owner_version ow
      \<or> owner_version ow = txn_version x \<and> owner_version ow' = Suc (owner_version ow)
        \<and> owner_current ow' = (staged_state (txn_staged x))\<lparr>state_stats := measure_state (staged_state (txn_staged x))\<rparr> \<and> a = Done ()"
    using assms by (auto simp: commit_def Let_def publish_def dest!: store_commit_keeps split: sum.splits if_splits prod.splits answer.splits)
qed

lemma operation_base:
  "operate op ow x = Inr (r, y) \<Longrightarrow> txn_base y = txn_base x \<and> txn_version y = txn_version x"
  "savepoint ow x = Inr (q, y) \<Longrightarrow> txn_base y = txn_base x \<and> txn_version y = txn_version x"
  "savepoint_rollback_to q ow x = Inr (q', y) \<Longrightarrow> txn_base y = txn_base x \<and> txn_version y = txn_version x"
  "txn_base (savepoint_release q x) = txn_base x" "txn_version (savepoint_release q x) = txn_version x"
  "txn_base (savepoint_rollback q x) = txn_base x" "txn_version (savepoint_rollback q x) = txn_version x"
  "txn_base (rollback x) = txn_base x" "txn_version (rollback x) = txn_version x"
  by (auto simp: operate_def savepoint_def savepoint_rollback_to_def savepoint_release_def savepoint_rollback_def rollback_def
      bindE_Inr_iff ensure_Inr_iff Let_def)

lemma serial_update:
  assumes "serial ow w" "i < length (world_txns w)" "txn_base x = txn_base (world_txns w ! i)" "txn_version x = txn_version (world_txns w ! i)"
  shows "serial ow (w\<lparr>world_txns := (world_txns w)[i := x]\<rparr>)"
proof -
  have "current_base (world_owner w) x" using assms nth_mem by (auto simp: serial_def current_base_def)
  then show ?thesis using assms(1) set_update_subset_insert [of "world_txns w" i x] by (auto simp: serial_def)
qed

lemma reaches_serial: "reaches ow w \<Longrightarrow> serial ow w"
proof (induction rule: reaches.induct)
  case start
  then show ?case by (simp add: serial_def)
next
  case (opens w x)
  then show ?case by (auto simp: serial_def begin_transaction_def bindE_Inr_iff current_base_def)
next
  case (finish w i a x ow')
  let ?x = "world_txns w ! i" and ?o = "world_owner w"
  have mem: "current_base ?o ?x" using finish by (auto simp: serial_def)
  note c = commit_cases [OF finish(3)]
  have all: "current_base ow' y" if "y \<in> set (world_txns w) \<or> y = x" for y
    using that c mem finish(4) by (auto simp: serial_def current_base_def)
  have "linked (owner_current ow) (world_log w @ committed_log ?o ?x ow') (owner_current ow')"
    using c(2) mem finish(4) by (auto simp: committed_log_def serial_def linked_snoc current_base_def)
  then show ?case using all set_update_subset_insert [of "world_txns w" i x] by (auto simp: serial_def)
qed (auto intro!: serial_update simp: operation_base(4-) dest: operation_base(1-3))

section \<open>Commits of persistent databases\<close>

definition owner_durable :: "Owner \<Rightarrow> bool" where
  "owner_durable ow \<longleftrightarrow> (\<forall>d. owner_storage ow = Some d \<longrightarrow> durable (owner_registry ow) d (owner_current ow))"

text \<open>What the transaction staged, with its statistics, is what a commit publishes.\<close>

definition publishes :: "Transaction \<Rightarrow> State" where
  "publishes x = (staged_state (txn_staged x))\<lparr>state_stats := measure_state (staged_state (txn_staged x))\<rparr>"

definition storable :: "Owner \<Rightarrow> State \<Rightarrow> State \<Rightarrow> bool" where
  "storable ow base next \<longleftrightarrow> state_stored (owner_registry ow) base \<and> state_stored (owner_registry ow) next
     \<and> (state_epoch base = state_epoch next \<longrightarrow> evolution base next)
     \<and> (\<forall>d. owner_storage ow = Some d \<longrightarrow> (\<forall>(name, t) \<in> set (state_tables next). reuse_ok (source_reuse (store_source d)) t))"

definition sample_txn :: Transaction where
  "sample_txn = \<lparr>txn_open = True, txn_base = empty_state, txn_version = 0,
     txn_staged = \<lparr>staged_state = stored_state, staged_dirty = True\<rparr>, txn_savepoints = [], txn_counter = 0\<rparr>"

definition idle_txn :: Transaction where
  "idle_txn = sample_txn\<lparr>txn_staged := \<lparr>staged_state = empty_state, staged_dirty = False\<rparr>\<rparr>"

definition sample_owner :: Owner where
  "sample_owner = open_memory sample_registry"

definition stored_owner :: Owner where
  "stored_owner = sample_owner\<lparr>owner_storage := Some (reboot (log_bytes []) (replicate 1027 (Fine 1)))\<rparr>"

lemma storable_stats: "storable ow base (s\<lparr>state_stats := x\<rparr>) = storable ow base s"
  by (simp add: storable_def state_stored_def evolution_def)

lemma commit_published:
  assumes "commit x ow = (Done (), x', ow')" "staged_dirty (txn_staged x)"
  shows "txn_version x = owner_version ow" "owner_current ow' = publishes x" "owner_registry ow' = owner_registry ow"
    "case owner_storage ow of None \<Rightarrow> owner_storage ow' = None
     | Some d \<Rightarrow> \<exists>d'. commit_log (txn_base x) (publishes x) d = (Done (), d') \<and> owner_storage ow' = Some d'"
  using assms
  by (auto simp: commit_def store_commit_def publishes_def publish_def Let_def split: sum.splits if_splits prod.splits answer.splits option.splits)

lemma commit_keeps_durable:
  assumes "registry_ok (owner_registry ow)" "owner_durable ow" "txn_base x = owner_current ow"
    and "storable ow (txn_base x) (publishes x)" "commit x ow = (Done (), x', ow')" "staged_dirty (txn_staged x)"
  shows "owner_durable ow'"
  unfolding owner_durable_def
proof (intro allI impI)
  fix d'
  assume d': "owner_storage ow' = Some d'"
  note c = commit_published [OF assms(5,6)]
  obtain d where d: "owner_storage ow = Some d" "commit_log (txn_base x) (publishes x) d = (Done (), d')"
    using c(4) d' by (auto split: option.splits)
  have s: "durable (owner_registry ow) d (txn_base x)" using assms(2,3) d(1) by (simp add: owner_durable_def)
  have "durable (owner_registry ow) d' (publishes x)"
    using assms(4) d(1) by (intro commit_durable(2) [OF assms(1) s _ _ _ _ d(2) refl]) (auto simp: storable_def)
  then show "durable (owner_registry ow') d' (owner_current ow')" using c by simp
qed

section \<open>Properties\<close>

text \<open>
  C1. Committed transactions form a serial history. However transactions of one
  database are interleaved, with savepoints, rollbacks, failed commits and
  storage errors, every commit that published a state started from the state
  the previous one published: no update is lost, and the published state is
  the end of that chain.
\<close>

theorem commits_form_chain:
  assumes "reaches ow w"
  shows "linked (owner_current ow) (world_log w) (owner_current (world_owner w))
    \<and> (\<forall>x \<in> set (world_txns w). \<forall>x' ow'. commit x (world_owner w) = (Done (), x', ow') \<longrightarrow> staged_dirty (txn_staged x)
        \<longrightarrow> txn_base x = owner_current (world_owner w) \<and> owner_current ow' = publishes x)"
proof -
  have s: "serial ow w" using assms by (rule reaches_serial)
  have "txn_base x = owner_current (world_owner w) \<and> owner_current ow' = publishes x"
    if "x \<in> set (world_txns w)" "commit x (world_owner w) = (Done (), x', ow')" "staged_dirty (txn_staged x)" for x x' ow'
    using s that commit_published [OF that(2,3)] by (auto simp: serial_def current_base_def)
  then show ?thesis using s by (auto simp: serial_def)
qed

text \<open>Witness: two transactions begin, the first publishes.\<close>

theorem commits_form_chain_witness:
  "\<exists>w. reaches sample_owner w \<and> length (world_txns w) = 2 \<and> world_log w = [(empty_state, publishes sample_txn)]
     \<and> linked empty_state (world_log w) (owner_current (world_owner w))"
proof -
  let ?w0 = "\<lparr>world_owner = sample_owner, world_txns = [], world_log = []\<rparr>"
  have b: "begin_transaction sample_owner = Inr idle_txn"
    by (simp add: begin_transaction_def sample_owner_def open_memory_def healthy_def idle_txn_def sample_txn_def)
  have "reaches sample_owner (?w0\<lparr>world_txns := [idle_txn]\<rparr>)"
    using reaches.opens [OF reaches.start, of sample_owner idle_txn] b by simp
  then have "reaches sample_owner (?w0\<lparr>world_txns := [idle_txn, idle_txn]\<rparr>)"
    using reaches.opens [of sample_owner "?w0\<lparr>world_txns := [idle_txn]\<rparr>" idle_txn] b by simp
  moreover have "operate (\<lambda>_ _. Inr ((), txn_staged sample_txn)) sample_owner idle_txn = Inr ((), sample_txn)"
    by (simp add: operate_def active_def healthy_def sample_owner_def open_memory_def idle_txn_def sample_txn_def)
  ultimately have "reaches sample_owner (?w0\<lparr>world_txns := [sample_txn, idle_txn]\<rparr>)"
    using reaches.operation [of sample_owner "?w0\<lparr>world_txns := [idle_txn, idle_txn]\<rparr>" 0] by fastforce
  moreover have c: "commit sample_txn sample_owner = (Done (), rollback (sample_txn\<lparr>txn_staged := \<lparr>staged_state = publishes sample_txn, staged_dirty = True\<rparr>\<rparr>),
      publish (publishes sample_txn) sample_owner)"
    by (simp add: commit_def active_def healthy_def sample_owner_def open_memory_def sample_txn_def store_commit_def Let_def publishes_def)
  ultimately have r: "reaches sample_owner \<lparr>world_owner = publish (publishes sample_txn) sample_owner,
      world_txns = [rollback (sample_txn\<lparr>txn_staged := \<lparr>staged_state = publishes sample_txn, staged_dirty = True\<rparr>\<rparr>), idle_txn],
      world_log = [(empty_state, publishes sample_txn)]\<rparr>"
    using reaches.finish [of sample_owner "?w0\<lparr>world_txns := [sample_txn, idle_txn]\<rparr>" 0]
    by (fastforce simp: committed_log_def publish_def sample_txn_def)
  from commits_form_chain [OF r] r show ?thesis by (auto simp: sample_owner_def open_memory_def)
qed

text \<open>
  C2. Rolling back a savepoint undoes exactly what happened since. After any
  operations, nested savepoints, releases and rollbacks inside it, rolling
  back restores the staged state and the outer savepoints of the moment the
  savepoint was set.
\<close>

theorem savepoint_rollback_restores:
  assumes "savepoints_ok x" and "savepoint ow x = Inr (p, y)" and "inside ow p y z"
  shows "savepoint_rollback p z = z\<lparr>txn_staged := txn_staged x, txn_savepoints := txn_savepoints x\<rparr>"
  using rollback_restores [OF inside_keeps [OF assms(3) savepoint_keeps [OF assms(1,2)]]] .

text \<open>Witness: a nested savepoint and an operation inside.\<close>

theorem savepoint_rollback_restores_witness:
  "\<exists>p y q z z'. savepoint sample_owner idle_txn = Inr (p, y) \<and> savepoint sample_owner y = Inr (q, z)
     \<and> operate (\<lambda>_ _. Inr ((), txn_staged sample_txn)) sample_owner z = Inr ((), z')
     \<and> txn_staged (savepoint_rollback p z') = txn_staged idle_txn \<and> txn_staged z' \<noteq> txn_staged idle_txn"
proof -
  have a: "active sample_owner x = Inr ()" if "txn_open x" for x
    using that by (simp add: active_def healthy_def sample_owner_def open_memory_def)
  have o: "txn_open idle_txn" "txn_counter idle_txn = 0" "txn_savepoints idle_txn = []" by (simp_all add: idle_txn_def sample_txn_def)
  let ?y = "idle_txn\<lparr>txn_savepoints := [(0, txn_staged idle_txn)], txn_counter := 1\<rparr>"
  let ?z = "idle_txn\<lparr>txn_savepoints := [(1, txn_staged idle_txn), (0, txn_staged idle_txn)], txn_counter := 2\<rparr>"
  let ?z' = "?z\<lparr>txn_staged := txn_staged sample_txn\<rparr>"
  have s: "savepoint sample_owner idle_txn = Inr (0, ?y)" "savepoint sample_owner ?y = Inr (1, ?z)"
    "operate (\<lambda>_ _. Inr ((), txn_staged sample_txn)) sample_owner ?z = Inr ((), ?z')"
    using o by (simp_all add: savepoint_def operate_def a)
  have "inside sample_owner 0 ?y ?z'"
    using inside.operation [OF inside.nested [OF inside.stay s(2)] s(3)] .
  from savepoint_rollback_restores [OF _ s(1) this] have "txn_staged (savepoint_rollback 0 ?z') = txn_staged idle_txn"
    by (simp add: savepoints_ok_def o)
  then show ?thesis using s by (intro exI conjI) (auto simp: idle_txn_def sample_txn_def)
qed

text \<open>
  C3. The first committer wins. Once a transaction published its changes, an
  active transaction without open savepoints that had begun before fails to
  commit with a conflict, and neither it nor the database changes.
\<close>

theorem first_committer_wins:
  assumes "commit y ow = (Done (), y', ow')" and "staged_dirty (txn_staged y)" and "current_base ow x"
    and "active ow' x = Inr ()" and "txn_savepoints x = []"
  shows "commit x ow' = (Threw E_conflict, x, ow')"
proof -
  have "owner_version ow' = Suc (owner_version ow)"
    using assms(1,2) by (auto simp: commit_def publish_def Let_def dest!: store_commit_keeps split: sum.splits if_splits prod.splits answer.splits)
  then show ?thesis using assms(3-5) by (simp add: commit_def current_base_def)
qed

text \<open>Witness: two transactions begun together.\<close>

theorem first_committer_wins_witness:
  "\<exists>y' ow'. commit sample_txn sample_owner = (Done (), y', ow') \<and> commit idle_txn ow' = (Threw E_conflict, idle_txn, ow')"
proof -
  let ?o = "publish (publishes sample_txn) sample_owner"
  have c: "commit sample_txn sample_owner = (Done (), rollback (sample_txn\<lparr>txn_staged := \<lparr>staged_state = publishes sample_txn, staged_dirty = True\<rparr>\<rparr>), ?o)"
    by (simp add: commit_def active_def healthy_def sample_owner_def open_memory_def sample_txn_def store_commit_def Let_def publishes_def)
  have "current_base sample_owner idle_txn" "active ?o idle_txn = Inr ()"
    by (simp_all add: current_base_def idle_txn_def sample_txn_def sample_owner_def open_memory_def active_def healthy_def publish_def)
  from first_committer_wins [OF c _ this] c show ?thesis by (auto simp: idle_txn_def sample_txn_def)
qed

text \<open>
  C4. Committing on a persistent database keeps it durable. When the store
  holds the published state and a transaction that began from it commits,
  afterwards the store holds the newly published state; a commit that does not
  return leaves the published state as it was.
\<close>

theorem commit_keeps_database_durable:
  assumes "registry_ok (owner_registry ow)" and "owner_durable ow" and "current_base ow x"
    and "storable ow (txn_base x) (publishes x)" and "commit x ow = (a, x', ow')"
  shows "(a = Done () \<longrightarrow> owner_durable ow') \<and> (a \<noteq> Done () \<longrightarrow> owner_current ow' = owner_current ow)"
proof -
  have "owner_current ow' = owner_current ow" if "a \<noteq> Done ()"
    using commit_cases(2) [OF assms(5)] that by blast
  moreover have "owner_durable ow'" if a: "a = Done ()"
  proof (cases "staged_dirty (txn_staged x)")
    case True
    have c: "commit x ow = (Done (), x', ow')" using assms(5) a by simp
    have "txn_base x = owner_current ow" using commit_published(1) [OF c True] assms(3) by (simp add: current_base_def)
    then show ?thesis using commit_keeps_durable [OF assms(1,2) _ assms(4) c True] by simp
  next
    case False
    then have "ow' = ow" using assms(5) a by (auto simp: commit_def split: sum.splits if_splits)
    then show ?thesis using assms(2) by simp
  qed
  ultimately show ?thesis by blast
qed

text \<open>Witness: the first commit of a new persistent database.\<close>

theorem commit_keeps_database_durable_witness:
  "\<exists>x' ow'. commit sample_txn stored_owner = (Done (), x', ow') \<and> owner_durable ow'"
proof -
  have d: "owner_durable stored_owner"
    using empty_store_durable by (simp add: owner_durable_def stored_owner_def sample_owner_def open_memory_def)
  have st: "storable stored_owner (txn_base sample_txn) (publishes sample_txn)"
    unfolding publishes_def storable_stats using stored_state_ok evolution_empty reboot_reuse
    by (auto simp: storable_def stored_owner_def sample_owner_def open_memory_def sample_txn_def)
  have n: "publishes sample_txn = stored_state\<lparr>state_stats := measure_state stored_state\<rparr>" by (simp add: publishes_def sample_txn_def)
  have "encode_changes empty_state (publishes sample_txn) = encode_changes empty_state stored_state"
    "checkpoint_size (publishes sample_txn) = checkpoint_size stored_state"
    by (simp_all add: n encode_changes_def checkpoint_size_def)
  moreover obtain p where p: "encode_changes empty_state stored_state = Inr p" "length p < 1000" using stored_changes by blast
  moreover obtain live where "checkpoint_size stored_state = Inr live" using p by (auto simp: encode_changes_def bindE_Inr_iff)
  moreover have "state_epoch (publishes sample_txn) = 0" "state_epoch empty_state = 0" by (simp_all add: n stored_state_def empty_state_def)
  ultimately obtain d' where l: "commit_log empty_state (publishes sample_txn) (reboot (log_bytes []) (replicate 1027 (Fine 1))) = (Done (), d')"
    using commit_returns [of "reboot (log_bytes []) (replicate 1027 (Fine 1))" empty_state "publishes sample_txn" p live]
    by (auto simp: reboot_def answering_def log_bytes_def le_max_iff_disj)
  have "\<exists>x' ow'. commit sample_txn stored_owner = (Done (), x', ow')"
    using l by (simp add: commit_def active_def healthy_def stored_owner_def sample_owner_def open_memory_def reboot_def sample_txn_def
        store_commit_def Let_def publishes_def)
  moreover have "registry_ok (owner_registry stored_owner)" "current_base stored_owner sample_txn"
    using sample_registry_ok by (simp_all add: stored_owner_def sample_owner_def open_memory_def current_base_def sample_txn_def)
  ultimately show ?thesis using commit_keeps_database_durable [OF _ d _ st] by blast
qed

end
