(* ===== verification/Predicate_Spec.thy ===== *)
theory Predicate_Spec
  imports Transactions
begin

text \<open>
  The truth of bound predicates (src/bound.cpp) against three-valued logic.
\<close>

section \<open>Kleene logic\<close>

text \<open>SQL's truth values, ordered from false to true.\<close>

datatype Ternary = False3 | Unknown3 | True3

instantiation Ternary :: linorder
begin

definition less_eq_Ternary :: "Ternary \<Rightarrow> Ternary \<Rightarrow> bool" where
  "less_eq_Ternary a b \<longleftrightarrow> a = False3 \<or> b = True3 \<or> a = b"

definition less_Ternary :: "Ternary \<Rightarrow> Ternary \<Rightarrow> bool" where
  "less_Ternary a b \<longleftrightarrow> a \<noteq> b \<and> (a = False3 \<or> b = True3)"

instance
proof
  fix a b c :: Ternary
  show "a < b \<longleftrightarrow> a \<le> b \<and> \<not> b \<le> a" "a \<le> a" "a \<le> b \<Longrightarrow> b \<le> c \<Longrightarrow> a \<le> c" "a \<le> b \<Longrightarrow> b \<le> a \<Longrightarrow> a = b" "a \<le> b \<or> b \<le> a"
    by (cases a; cases b; cases c; simp add: less_eq_Ternary_def less_Ternary_def)+
qed

end

fun negated :: "Ternary \<Rightarrow> Ternary" where
  "negated False3 = True3"
| "negated Unknown3 = Unknown3"
| "negated True3 = False3"

definition ternary :: "int \<Rightarrow> Ternary" where
  "ternary n = (if n < 0 then Unknown3 else if n = 0 then False3 else True3)"

text \<open>
  The reference: every part is evaluated, a conjunction is the minimum of its
  parts, a disjunction the maximum.
\<close>

fun kleene :: "RowView \<Rightarrow> BoundPredicate \<Rightarrow> Ternary" where
  "kleene row (BoundPredicate kind leaf children membership) =
     (case leaf of
        Some l \<Rightarrow> ternary (projr (leaf_truth row l))
      | None \<Rightarrow>
          (case kind of
             P_comparison \<Rightarrow> Unknown3
           | P_contains \<Rightarrow> ternary (projr (membership_truth row (the membership)))
           | P_all \<Rightarrow> fold min (map (kleene row) children) True3
           | P_any \<Rightarrow> fold max (map (kleene row) children) False3
           | P_negation \<Rightarrow> (case children of [] \<Rightarrow> Unknown3 | c # _ \<Rightarrow> negated (kleene row c))))"

text \<open>Every part has a value: no expression in it throws.\<close>

fun evaluates :: "RowView \<Rightarrow> BoundPredicate \<Rightarrow> bool" where
  "evaluates row (BoundPredicate kind leaf children membership) \<longleftrightarrow>
     (case leaf of
        Some l \<Rightarrow> is_ok (leaf_truth row l)
      | None \<Rightarrow>
          kind \<noteq> P_comparison \<and> (kind = P_contains \<longrightarrow> membership \<noteq> None \<and> is_ok (membership_truth row (the membership)))
          \<and> (kind = P_negation \<longrightarrow> children \<noteq> []) \<and> (\<forall>c \<in> set children. evaluates row c))"

definition truth_value :: "int \<Rightarrow> bool" where
  "truth_value n \<longleftrightarrow> n = - 1 \<or> n = 0 \<or> n = 1"

lemma ternary_simps [simp]: "ternary 0 = False3" "ternary 1 = True3" "ternary (- 1) = Unknown3"
  by (simp_all add: ternary_def)

lemma fold_absorb: "fold min ts False3 = False3" "fold max ts True3 = True3"
proof -
  have "min t False3 = False3" "max t True3 = True3" for t
    by (cases t; simp add: min_def max_def less_eq_Ternary_def)+
  then show "fold min ts False3 = False3" "fold max ts True3 = True3" by (induction ts) simp_all
qed

lemma leaf_values_ok:
  "leaf_truth row l = Inr n \<Longrightarrow> truth_value n" "membership_truth row m = Inr n \<Longrightarrow> truth_value n"
  by (auto simp: leaf_truth_def membership_truth_def truth_value_def bindE_Inr_iff split: if_splits)

definition agrees :: "RowView \<Rightarrow> BoundPredicate \<Rightarrow> bool" where
  "agrees row p \<longleftrightarrow> (\<exists>n. truth row p = Inr n \<and> truth_value n \<and> ternary n = kleene row p)"

lemma truth_all_kleene:
  assumes "\<forall>c \<in> set cs. agrees row c" "r = 1 \<or> r = - 1"
  shows "\<exists>n. truth_all row cs r = Inr n \<and> truth_value n \<and> ternary n = fold min (map (kleene row) cs) (ternary r)"
  using assms
proof (induction cs arbitrary: r)
  case (Cons c cs)
  obtain n where n: "truth row c = Inr n" "truth_value n" "ternary n = kleene row c" using Cons.prems by (auto simp: agrees_def)
  consider "n = 0" | "n = 1" | "n = - 1" using n(2) by (auto simp: truth_value_def)
  then show ?case
  proof cases
    case 1
    have "min False3 (ternary r) = False3" by (simp add: min_def less_eq_Ternary_def)
    then show ?thesis using 1 n by (simp add: fold_absorb truth_value_def flip: n(3))
  next
    case 2
    have "min True3 (ternary r) = ternary r" by (cases "ternary r") (simp_all add: min_def less_eq_Ternary_def)
    then show ?thesis using 2 n Cons.IH [of r] Cons.prems by (simp flip: n(3))
  next
    case 3
    have "min Unknown3 (ternary r) = Unknown3" using Cons.prems(2) by (auto simp: min_def less_eq_Ternary_def)
    then show ?thesis using 3 n Cons.IH [of "- 1"] Cons.prems by (simp flip: n(3))
  qed
qed (auto simp: truth_value_def)

lemma truth_any_kleene:
  assumes "\<forall>c \<in> set cs. agrees row c" "r = 0 \<or> r = - 1"
  shows "\<exists>n. truth_any row cs r = Inr n \<and> truth_value n \<and> ternary n = fold max (map (kleene row) cs) (ternary r)"
  using assms
proof (induction cs arbitrary: r)
  case (Cons c cs)
  obtain n where n: "truth row c = Inr n" "truth_value n" "ternary n = kleene row c" using Cons.prems by (auto simp: agrees_def)
  consider "n = 1" | "n = 0" | "n = - 1" using n(2) by (auto simp: truth_value_def)
  then show ?case
  proof cases
    case 1
    have "max True3 (ternary r) = True3" using Cons.prems(2) by (auto simp: max_def less_eq_Ternary_def)
    then show ?thesis using 1 n by (simp add: fold_absorb truth_value_def flip: n(3))
  next
    case 2
    have "max False3 (ternary r) = ternary r" by (simp add: max_def less_eq_Ternary_def)
    then show ?thesis using 2 n Cons.IH [of r] Cons.prems by (simp flip: n(3))
  next
    case 3
    have "max Unknown3 (ternary r) = Unknown3" using Cons.prems(2) by (auto simp: max_def less_eq_Ternary_def)
    then show ?thesis using 3 n Cons.IH [of "- 1"] Cons.prems by (simp flip: n(3))
  qed
qed (auto simp: truth_value_def)

lemma truth_kleene: "evaluates row p \<Longrightarrow> agrees row p"
proof (induction row p rule: kleene.induct)
  case (1 row kind leaf children membership)
  show ?case
  proof (cases leaf)
    case (Some l)
    then show ?thesis using 1(4) leaf_values_ok by (auto simp: agrees_def is_ok_iff)
  next
    case None
    note e = 1(4) [simplified, unfolded None, simplified]
    show ?thesis
    proof (cases kind)
      case P_contains
      then show ?thesis using e None leaf_values_ok by (auto simp: agrees_def is_ok_iff)
    next
      case P_all
      then have "\<forall>c \<in> set children. agrees row c" using 1(1) None e by auto
      from truth_all_kleene [OF this, of 1] show ?thesis using None P_all by (simp add: agrees_def)
    next
      case P_any
      then have "\<forall>c \<in> set children. agrees row c" using 1(2) None e by auto
      from truth_any_kleene [OF this, of 0] show ?thesis using None P_any by (simp add: agrees_def)
    next
      case P_negation
      then obtain c cs where c: "children = c # cs" using e by (cases children) auto
      then have "agrees row c" using 1(3) None e P_negation by auto
      then obtain n where n: "truth row c = Inr n" "truth_value n" "ternary n = kleene row c" by (auto simp: agrees_def)
      then have "ternary (if n < 0 then - 1 else of_bool (n = 0)) = negated (kleene row c)"
        unfolding n(3) [symmetric] by (auto simp: truth_value_def)
      then show ?thesis using None P_negation c n(1) by (simp add: agrees_def truth_value_def)
    qed (use e in simp)
  qed
qed


section \<open>The property\<close>

text \<open>
  The condition \<open>column 0 < 5 OR NOT (column 1 = 0)\<close> on integers.
\<close>

definition integer_cell :: "ExprKind \<Rightarrow> nat \<Rightarrow> i64 \<Rightarrow> BoundExpr" where
  "integer_cell kind i n = BoundExpr integer_type kind i (VInt n) None None None [] None None"

definition integer_leaf :: "nat \<Rightarrow> Compare \<Rightarrow> i64 \<Rightarrow> BoundPredicate" where
  "integer_leaf i operation n =
     BoundPredicate P_comparison
       (Some \<lparr>leaf_left = integer_cell K_column i 0, leaf_right = integer_cell K_literal 0 n, leaf_operation = operation,
          leaf_comparison = \<lparr>comparison_parameters = [], comparison_addon = scalar_integer (\<lambda>n. n)\<rparr>\<rparr>) [] None"

definition sample_condition :: BoundPredicate where
  "sample_condition =
     BoundPredicate P_any None
       [integer_leaf 0 C_less 5, BoundPredicate P_negation None [integer_leaf 1 C_equal 0] None] None"

text \<open>
  C1. A bound predicate whose parts all evaluate has the truth value of Kleene's
  three-valued logic, in which every part is evaluated, NULL operands make a
  comparison unknown, AND is the minimum, OR the maximum and NOT the reversal
  of the order false, unknown, true: the early exits of the evaluator never
  change the answer. A filter accepts the row exactly when that value is true.
\<close>

theorem predicate_truth_is_kleene:
  assumes "evaluates row p"
  shows "(\<exists>n. truth row p = Inr n \<and> ternary n = kleene row p) \<and> matches row p = Inr (kleene row p = True3)"
proof -
  obtain n where n: "truth row p = Inr n" "truth_value n" "ternary n = kleene row p"
    using truth_kleene [OF assms] by (auto simp: agrees_def)
  then have "matches row p = Inr (kleene row p = True3)"
    unfolding matches_def n(3) [symmetric] by (auto simp: truth_value_def)
  then show ?thesis using n by blast
qed

text \<open>On the row \<open>(NULL, 1)\<close> the unknown first part does not hide the true second one.\<close>

theorem predicate_truth_is_kleene_witness:
  "matches (plain_row [Null integer_type, VInt 1]) sample_condition = Inr True"
proof -
  have "evaluates (plain_row [Null integer_type, VInt 1]) sample_condition"
    "kleene (plain_row [Null integer_type, VInt 1]) sample_condition = True3"
    by (simp_all add: sample_condition_def integer_leaf_def integer_cell_def leaf_truth_def leaf_values_def plain_row_def view_at_def
        comparison_equal_def scalar_integer_def is_ok_def ternary_def max_def less_eq_Ternary_def)
  then show ?thesis using predicate_truth_is_kleene by simp
qed

end
