(* ===== verification/Spec2Isabelle.thy ===== *)
theory Spec2Isabelle
  imports Ordered_Index_Spec Chunk_Map_Spec Hash_Index_Spec Key_Index_Spec Snapshot_Spec Storage_Spec Transaction_Spec Predicate_Spec
begin

text \<open>
  CoreSQL.
\<close>

end
